(* ===== verification/Prelude.thy ===== *)
theory Prelude
  imports Main "HOL-Library.Word" "HOL-Library.Sublist" "HOL-Library.AList"
begin

text \<open>
  Shared vocabulary of the development.

  The C++ code reports every failure as \<open>std::expected<T, std::string>\<close>. Here that is
  the sum type \<open>string + 'a\<close> with \<open>Inl\<close> for \<open>std::unexpected\<close>. Strings are byte lists
  (\<open>char list\<close>), exactly what \<open>std::string\<close> holds, so a UTF-8 character of a message
  is written out as its bytes.

  The theory also holds the string primitives that several components use
  (\<open>find\<close>, \<open>rfind (prefix, 0)\<close>, \<open>c_str\<close>, splitting at a separator, \<open>std::format\<close> of
  an integer) and the collections of facts that the component proofs share.
\<close>

named_theorems frame_simps \<open>what an operation leaves unchanged\<close>

type_synonym 'a expected = "string + 'a"

abbreviation is_ok :: "'a expected \<Rightarrow> bool" where
  "is_ok r \<equiv> \<not> isl r"

section \<open>Strings\<close>

definition quoted :: "string \<Rightarrow> string" where
  "quoted s = CHR 0x27 # s @ [CHR 0x27]"

text \<open>The em dash of the messages, as its three UTF-8 bytes with a blank on either side.\<close>

definition em_dash :: string where
  "em_dash = [CHR 0x20, CHR 0xE2, CHR 0x80, CHR 0x94, CHR 0x20]"

text \<open>\<open>s.rfind (p, 0) == 0\<close>: \<open>s\<close> begins with \<open>p\<close>.\<close>

definition starts_with :: "string \<Rightarrow> string \<Rightarrow> bool" where
  "starts_with p s \<longleftrightarrow> take (length p) s = p"

text \<open>\<open>s.find (c) != npos\<close>\<close>

definition contains_char :: "char \<Rightarrow> string \<Rightarrow> bool" where
  "contains_char c s \<longleftrightarrow> c \<in> set s"

text \<open>
  \<open>std::string (s.c_str ())\<close>: the copy stops at the first zero byte. Every JSON string the
  code reads goes through it.
\<close>

definition c_str :: "string \<Rightarrow> string" where
  "c_str s = takeWhile (\<lambda>c. c \<noteq> CHR 0x00) s"

definition no_nul :: "string \<Rightarrow> bool" where
  "no_nul s \<longleftrightarrow> CHR 0x00 \<notin> set s"

lemma c_str_id [simp]: "no_nul s \<Longrightarrow> c_str s = s"
  by (simp add: c_str_def no_nul_def takeWhile_eq_all_conv) metis

lemma no_nul_c_str [simp]: "no_nul (c_str s)"
  by (auto simp: c_str_def no_nul_def dest: set_takeWhileD)

lemma c_str_idem [simp]: "c_str (c_str s) = c_str s"
  by simp

lemma c_str_Nil [simp]: "c_str [] = []"
  by (simp add: c_str_def)

lemma starts_with_append: "starts_with p s \<longleftrightarrow> (\<exists>t. s = p @ t)"
  unfolding starts_with_def by (metis append_eq_conv_conj append_take_drop_id)

lemma starts_with_self [simp]: "starts_with p (p @ s)"
  by (auto simp: starts_with_append)

text \<open>Text that JSON carries unchanged: ASCII without a zero byte.\<close>

definition is_ascii :: "string \<Rightarrow> bool" where
  "is_ascii s \<longleftrightarrow> (\<forall>c \<in> set s. (of_char c :: nat) < 128)"

definition plain_text :: "string \<Rightarrow> bool" where
  "plain_text s \<longleftrightarrow> is_ascii s \<and> no_nul s"

lemma plain_text_append [simp]: "plain_text (s @ t) \<longleftrightarrow> plain_text s \<and> plain_text t"
  by (auto simp: plain_text_def is_ascii_def no_nul_def)

lemma plain_text_Nil [simp]: "plain_text []"
  by (simp add: plain_text_def is_ascii_def no_nul_def)

lemma plain_text_Cons [simp]:
  "plain_text (c # s) \<longleftrightarrow> (of_char c :: nat) < 128 \<and> c \<noteq> CHR 0x00 \<and> plain_text s"
  by (auto simp: plain_text_def is_ascii_def no_nul_def)

lemma plain_text_c_str [simp]: "plain_text s \<Longrightarrow> c_str s = s"
  by (simp add: plain_text_def)

section \<open>Decimal numbers\<close>

function nat_text :: "nat \<Rightarrow> string" where
  "nat_text n =
     (if n < 10 then [char_of (48 + n)] else nat_text (n div 10) @ [char_of (48 + n mod 10)])"
  by pat_completeness auto
termination
  by (relation "measure id") auto

declare nat_text.simps [simp del]

definition int_text :: "int \<Rightarrow> string" where
  "int_text i = (if i < 0 then CHR ''-'' # nat_text (nat (- i)) else nat_text (nat i))"

text \<open>\<open>printf\<close>'s \<open>%0wd\<close> for a number that is not negative: padded on the left with zeros.\<close>

definition padded :: "nat \<Rightarrow> nat \<Rightarrow> string" where
  "padded w n = replicate (w - length (nat_text n)) CHR ''0'' @ nat_text n"

definition is_decimal :: "string \<Rightarrow> bool" where
  "is_decimal s \<longleftrightarrow> (\<forall>c \<in> set s. 48 \<le> (of_char c :: nat) \<and> (of_char c :: nat) \<le> 57)"

lemma of_char_digit: "d < 10 \<Longrightarrow> (of_char (char_of (48 + d) :: char) :: nat) = 48 + d"
  by simp

lemma nat_text_decimal: "is_decimal (nat_text n)"
proof (induction n rule: nat_text.induct)
  case (1 n)
  show ?case
  proof (cases "n < 10")
    case True
    then show ?thesis by (subst nat_text.simps) (simp add: is_decimal_def)
  next
    case False
    with "1.IH" have "is_decimal (nat_text (n div 10))" by simp
    with False show ?thesis by (subst nat_text.simps) (auto simp: is_decimal_def)
  qed
qed

lemma nat_text_not_Nil [simp]: "nat_text n \<noteq> []"
  by (subst nat_text.simps) simp

lemma padded_decimal: "is_decimal (padded w n)"
  using nat_text_decimal [of n] by (auto simp: padded_def is_decimal_def)

section \<open>Splitting at a separator\<close>

fun split_char :: "char \<Rightarrow> string \<Rightarrow> string list" where
  "split_char d [] = [[]]"
| "split_char d (c # cs) =
     (if c = d then [] # split_char d cs
      else (case split_char d cs of [] \<Rightarrow> [[c]] | x # xs \<Rightarrow> (c # x) # xs))"

lemma split_char_not_Nil [simp]: "split_char d s \<noteq> []"
  by (induction s) (auto split: list.splits)

lemma split_char_sep: "split_char d (p @ d # q) = split_char d p @ split_char d q"
proof (induction p)
  case Nil
  then show ?case by simp
next
  case (Cons c p)
  obtain x xs where "split_char d p = x # xs"
    by (cases "split_char d p") auto
  with Cons show ?case by (auto split: list.splits)
qed

lemma split_char_no_sep: "d \<notin> set s \<Longrightarrow> split_char d s = [s]"
  by (induction s) auto

lemma split_char_cases:
  obtains "d \<notin> set s" "split_char d s = [s]"
  | p q where "s = p @ d # q" "d \<notin> set p" "split_char d s = p # split_char d q"
proof (cases "d \<in> set s")
  case True
  then obtain p q where "s = p @ d # q" "d \<notin> set p"
    using split_list_first [of d s] by blast
  then show ?thesis
    using that(2) [of p q] split_char_sep [of d p q] by (simp add: split_char_no_sep)
next
  case False
  then show ?thesis using that(1) split_char_no_sep by blast
qed

lemma dropWhile_Cons_less: "dropWhile P xs = y # ys \<Longrightarrow> length ys < length xs"
  using length_dropWhile_le [of P xs] by simp

lemma takeWhile_sep: "d \<notin> set p \<Longrightarrow> takeWhile (\<lambda>c. c \<noteq> d) (p @ d # q) = p"
  by (induction p) auto

lemma dropWhile_sep: "d \<notin> set p \<Longrightarrow> dropWhile (\<lambda>c. c \<noteq> d) (p @ d # q) = d # q"
  by (induction p) auto

section \<open>Association lists\<close>

lemma map_of_filter_fst:
  "map_of (filter (\<lambda>e. P (fst e)) xs) k = (if P k then map_of xs k else None)"
  by (induction xs) auto

lemma map_of_update_eq: "map_of (AList.update k v xs) k' = (if k' = k then Some v else map_of xs k')"
  by (simp add: update_conv)

lemma keys_update: "set (map fst (AList.update k v xs)) = insert k (set (map fst xs))"
  by (induction xs) auto

lemma distinct_keys_update: "distinct (map fst xs) \<Longrightarrow> distinct (map fst (AList.update k v xs))"
  by (rule distinct_update)

lemma map_of_eq_None_keys: "map_of xs k = None \<longleftrightarrow> k \<notin> set (map fst xs)"
  by (simp add: map_of_eq_None_iff)

end
