(* ===== verification/Paths.thy ===== *)
theory Paths
  imports Prelude
begin

text \<open>
  \<open>std::filesystem::path\<close> on POSIX, as the source uses it, on strings: \<open>operator/\<close>,
  \<open>lexically_normal\<close>, \<open>filename\<close>, \<open>parent_path\<close>; and the kernel's resolution of a path
  string to the position it names in the directory tree (\<open>locate\<close>). Positions are lists of
  component names (\<open>fpath\<close>); the root directory is the empty list. Symbolic links are never
  followed by a resolution: the paths the agent resolves run through directories it or its
  operator created, and the one link the code makes (\<open>current\<close>) is never resolved by it.

  The main results are that a component that is a plain name selects exactly one child of the
  directory it is appended to (\<open>locate_child\<close>), and that a relative path whose normal form
  does not begin with \<open>..\<close> stays below the directory it is appended to
  (\<open>locate_relative_inside\<close>).
\<close>

type_synonym fpath = "string list"

section \<open>Lexical operations\<close>

definition is_absolute :: "string \<Rightarrow> bool" where
  "is_absolute s \<longleftrightarrow> starts_with ''/'' s"

definition path_append :: "string \<Rightarrow> string \<Rightarrow> string" where
  "path_append p q =
     (if is_absolute q then q
      else if p = '''' \<or> last p = CHR ''/'' then p @ q
      else p @ ''/'' @ q)"

definition path_filename :: "string \<Rightarrow> string" where
  "path_filename s = rev (takeWhile (\<lambda>c. c \<noteq> CHR ''/'') (rev s))"

definition parent_path :: "string \<Rightarrow> string" where
  "parent_path s =
     (let d = dropWhile (\<lambda>c. c \<noteq> CHR ''/'') (rev s);
          t = rev (dropWhile (\<lambda>c. c = CHR ''/'') d)
      in if t = '''' \<and> d \<noteq> '''' then ''/'' else t)"

fun path_text :: "fpath \<Rightarrow> string" where
  "path_text [] = ''''"
| "path_text [c] = c"
| "path_text (c # cs) = c @ ''/'' @ path_text cs"

text \<open>
  \<open>lexically_normal\<close>: drop empty and \<open>.\<close> components, cancel a name against the \<open>..\<close> after it,
  drop \<open>..\<close> after the root. The result is kept as (absolute?, components).
\<close>

fun normal_comps :: "bool \<Rightarrow> fpath \<Rightarrow> string list \<Rightarrow> fpath" where
  "normal_comps a acc [] = acc"
| "normal_comps a acc (c # cs) =
     (if c = '''' \<or> c = ''.'' then normal_comps a acc cs
      else if c = ''..'' then
        (if acc = [] then normal_comps a (if a then [] else [''..'']) cs
         else if last acc = ''..'' then normal_comps a (acc @ [''..'']) cs
         else normal_comps a (butlast acc) cs)
      else normal_comps a (acc @ [c]) cs)"

definition lexically_normal :: "string \<Rightarrow> bool \<times> fpath" where
  "lexically_normal s =
     (is_absolute s, normal_comps (is_absolute s) [] (split_char (CHR ''/'') s))"

text \<open>\<open>*normalized.begin ()\<close> of a normal form; the empty relative path is \<open>.\<close>\<close>

definition path_begin :: "bool \<times> fpath \<Rightarrow> string" where
  "path_begin n = (if fst n then ''/'' else (case snd n of [] \<Rightarrow> ''.'' | c # _ \<Rightarrow> c))"

section \<open>Resolution\<close>

fun resolve :: "fpath \<Rightarrow> string list \<Rightarrow> fpath" where
  "resolve base [] = base"
| "resolve base (c # cs) =
     (if c = '''' \<or> c = ''.'' then resolve base cs
      else if c = ''..'' then resolve (butlast base) cs
      else resolve (base @ [c]) cs)"

definition locate :: "fpath \<Rightarrow> string \<Rightarrow> fpath" where
  "locate cwd s = resolve (if is_absolute s then [] else cwd) (split_char (CHR ''/'') s)"

definition plain_name :: "string \<Rightarrow> bool" where
  "plain_name c \<longleftrightarrow> c \<noteq> '''' \<and> c \<noteq> ''.'' \<and> c \<noteq> ''..'' \<and> \<not> contains_char (CHR ''/'') c"

lemma resolve_append: "resolve base (xs @ ys) = resolve (resolve base xs) ys"
  by (induction base xs rule: resolve.induct) auto

lemma resolve_plain:
  "\<forall>c \<in> set cs. c \<noteq> '''' \<and> c \<noteq> ''.'' \<and> c \<noteq> ''..'' \<Longrightarrow> resolve base cs = base @ cs"
  by (induction cs arbitrary: base) auto

lemma is_absolute_Nil [simp]: "\<not> is_absolute ''''"
  by (simp add: is_absolute_def starts_with_def)

lemma is_absolute_append [simp]: "p \<noteq> '''' \<Longrightarrow> is_absolute (p @ q) = is_absolute p"
  by (cases p) (auto simp: is_absolute_def starts_with_def)

lemma locate_append:
  assumes "\<not> is_absolute q"
  shows "locate cwd (path_append p q) = resolve (locate cwd p) (split_char (CHR ''/'') q)"
proof -
  consider (nil) "p = ''''" | (slash) p' where "p = p' @ ''/''"
    | (name) "p \<noteq> ''''" "last p \<noteq> CHR ''/''"
    by (metis append_butlast_last_id)
  then show ?thesis
  proof cases
    case nil
    with assms show ?thesis by (simp add: locate_def path_append_def)
  next
    case (slash p')
    have "split_char (CHR ''/'') (p' @ ''/'' @ q) =
        split_char (CHR ''/'') p' @ split_char (CHR ''/'') q"
      using split_char_sep [of "CHR ''/''" p' q] by simp
    moreover have "split_char (CHR ''/'') p = split_char (CHR ''/'') p' @ ['''']"
      using split_char_sep [of "CHR ''/''" p' "''''"] slash by simp
    ultimately show ?thesis
      using assms slash is_absolute_append [of p q]
      by (simp add: locate_def path_append_def resolve_append)
  next
    case name
    with assms show ?thesis
      using split_char_sep [of "CHR ''/''" p q] is_absolute_append [of p "''/'' @ q"]
      by (simp add: locate_def path_append_def resolve_append)
  qed
qed

lemma plain_name_split: "plain_name c \<Longrightarrow> split_char (CHR ''/'') c = [c]"
  by (simp add: plain_name_def contains_char_def split_char_no_sep)

lemma plain_name_relative: "plain_name c \<Longrightarrow> \<not> is_absolute c"
  by (cases c) (auto simp: plain_name_def contains_char_def is_absolute_def starts_with_def)

lemma locate_child: "plain_name c \<Longrightarrow> locate cwd (path_append p c) = locate cwd p @ [c]"
  by (simp add: locate_append plain_name_relative plain_name_split) (simp add: plain_name_def)

section \<open>A relative path that does not climb stays inside\<close>

text \<open>
  The accumulator of \<open>normal_comps\<close> has the shape \<open>.. .. .. a b c\<close>: some leading \<open>..\<close>
  and then names.
\<close>

definition climb_form :: "fpath \<Rightarrow> bool" where
  "climb_form acc \<longleftrightarrow>
     (\<exists>k ns. acc = replicate k ''..'' @ ns \<and>
        (\<forall>c \<in> set ns. c \<noteq> '''' \<and> c \<noteq> ''.'' \<and> c \<noteq> ''..''))"

lemma climb_form_Nil [simp]: "climb_form []"
  unfolding climb_form_def by (rule exI [of _ 0]) simp

lemma climb_form_snoc_name:
  "climb_form acc \<Longrightarrow> c \<noteq> '''' \<Longrightarrow> c \<noteq> ''.'' \<Longrightarrow> c \<noteq> ''..'' \<Longrightarrow> climb_form (acc @ [c])"
  unfolding climb_form_def by (metis append_assoc rotate1.simps(2) set_ConsD set_rotate1)

lemma climb_form_snoc_dots:
  assumes "climb_form acc" "acc = [] \<or> last acc = ''..''"
  shows "climb_form (acc @ [''..''])"
proof -
  from assms(1) obtain k ns where acc: "acc = replicate k ''..'' @ ns"
    and ns: "\<forall>c \<in> set ns. c \<noteq> '''' \<and> c \<noteq> ''.'' \<and> c \<noteq> ''..''"
    by (auto simp: climb_form_def)
  have "ns = []"
    using assms(2) acc ns by (cases ns rule: rev_cases) auto
  then have "acc @ [''..''] = replicate (Suc k) ''..'' @ []"
    using acc by (simp add: replicate_append_same)
  then show ?thesis unfolding climb_form_def by (metis empty_iff empty_set)
qed

lemma climb_form_butlast: "climb_form acc \<Longrightarrow> climb_form (butlast acc)"
proof -
  assume "climb_form acc"
  then obtain k ns where acc: "acc = replicate k ''..'' @ ns"
    and ns: "\<forall>c \<in> set ns. c \<noteq> '''' \<and> c \<noteq> ''.'' \<and> c \<noteq> ''..''"
    by (auto simp: climb_form_def)
  show "climb_form (butlast acc)"
  proof (cases "ns = []")
    case True
    then have "butlast acc = replicate (k - 1) ''..'' @ []"
      using acc by (simp add: butlast_conv_take)
    then show ?thesis unfolding climb_form_def by (metis empty_iff empty_set)
  next
    case False
    then have "butlast acc = replicate k ''..'' @ butlast ns"
      using acc by (simp add: butlast_append)
    then show ?thesis
      using ns unfolding climb_form_def by (metis in_set_butlastD)
  qed
qed

lemma resolve_dots_step:
  assumes "climb_form acc" "acc \<noteq> []" "last acc \<noteq> ''..''"
  shows "butlast (resolve base acc) = resolve base (butlast acc)"
proof -
  from assms(1) obtain k ns where acc: "acc = replicate k ''..'' @ ns"
    and ns: "\<forall>c \<in> set ns. c \<noteq> '''' \<and> c \<noteq> ''.'' \<and> c \<noteq> ''..''"
    by (auto simp: climb_form_def)
  have ne: "ns \<noteq> []"
  proof
    assume "ns = []"
    with acc assms(2) have "k \<noteq> 0" "acc = replicate k ''..''" by auto
    with assms(3) show False by (simp add: last_replicate)
  qed
  then have "butlast acc = replicate k ''..'' @ butlast ns"
    using acc by (simp add: butlast_append)
  moreover have "\<forall>c \<in> set (butlast ns). c \<noteq> '''' \<and> c \<noteq> ''.'' \<and> c \<noteq> ''..''"
    using ns by (auto dest: in_set_butlastD)
  ultimately show ?thesis
    using acc ns ne by (simp add: resolve_append resolve_plain butlast_append)
qed

lemma normal_comps_form: "climb_form acc \<Longrightarrow> climb_form (normal_comps False acc cs)"
proof (induction cs arbitrary: acc)
  case Nil
  then show ?case by simp
next
  case (Cons c cs)
  have dots: "climb_form [''..'']"
    using climb_form_snoc_dots [of "[]"] by simp
  show ?case
    using Cons.IH [OF Cons.prems] Cons.IH [OF dots]
      Cons.IH [OF climb_form_snoc_dots [OF Cons.prems]]
      Cons.IH [OF climb_form_butlast [OF Cons.prems]]
      Cons.IH [OF climb_form_snoc_name [OF Cons.prems, of c]]
    by (simp split: if_splits)
qed

lemma resolve_normal_comps:
  "climb_form acc \<Longrightarrow> resolve (resolve base acc) cs = resolve base (normal_comps False acc cs)"
proof (induction cs arbitrary: acc)
  case Nil
  then show ?case by simp
next
  case (Cons c cs)
  consider (skip) "c = '''' \<or> c = ''.''" | (climb) "c = ''..''" "acc = []"
    | (more) "c = ''..''" "acc \<noteq> []" "last acc = ''..''"
    | (cancel) "c = ''..''" "acc \<noteq> []" "last acc \<noteq> ''..''"
    | (name) "c \<noteq> ''''" "c \<noteq> ''.''" "c \<noteq> ''..''"
    by blast
  then show ?case
  proof cases
    case skip
    with Cons show ?thesis by auto
  next
    case climb
    with Cons.IH [of "[''..'']"] climb_form_snoc_dots [of "[]"] show ?thesis by simp
  next
    case more
    with Cons.IH [of "acc @ [''..'']"] Cons.prems climb_form_snoc_dots [of acc]
    show ?thesis by (simp add: resolve_append)
  next
    case cancel
    with Cons.IH [of "butlast acc"] Cons.prems show ?thesis
      by (simp add: climb_form_butlast resolve_dots_step)
  next
    case name
    with Cons.IH [of "acc @ [c]"] Cons.prems climb_form_snoc_name show ?thesis
      by (simp add: resolve_append)
  qed
qed

lemma locate_relative_inside:
  assumes rel: "\<not> is_absolute q" and beg: "path_begin (lexically_normal q) \<noteq> ''..''"
  shows "locate cwd (path_append p q) = locate cwd p @ snd (lexically_normal q)"
    and "\<forall>c \<in> set (snd (lexically_normal q)). c \<noteq> '''' \<and> c \<noteq> ''.'' \<and> c \<noteq> ''..''"
proof -
  let ?n = "normal_comps False [] (split_char (CHR ''/'') q)"
  have n: "snd (lexically_normal q) = ?n"
    using rel by (simp add: lexically_normal_def)
  obtain k ns where form: "?n = replicate k ''..'' @ ns"
    and ns: "\<forall>c \<in> set ns. c \<noteq> '''' \<and> c \<noteq> ''.'' \<and> c \<noteq> ''..''"
    using normal_comps_form [of "[]" "split_char (CHR ''/'') q"] by (auto simp: climb_form_def)
  have "k = 0"
    using beg rel n form by (cases k) (auto simp: path_begin_def lexically_normal_def)
  then have plain: "\<forall>c \<in> set ?n. c \<noteq> '''' \<and> c \<noteq> ''.'' \<and> c \<noteq> ''..''"
    using form ns by simp
  then show "\<forall>c \<in> set (snd (lexically_normal q)). c \<noteq> '''' \<and> c \<noteq> ''.'' \<and> c \<noteq> ''..''"
    using n by simp
  have "locate cwd (path_append p q) = resolve (locate cwd p) ?n"
    using resolve_normal_comps [of "[]" "locate cwd p"] rel by (simp add: locate_append)
  then show "locate cwd (path_append p q) = locate cwd p @ snd (lexically_normal q)"
    using plain n by (simp add: resolve_plain)
qed

end
