(* ===== verification/Machine.thy ===== *)
theory Machine
  imports Paths
begin

text \<open>
  The machine the agent runs on, as far as \<open>std::filesystem\<close>, the file streams and the clocks
  show it: a directory tree, an adversary that decides which system call fails, and the time.

  \<^item> The tree is an association list from positions to nodes. Its order stands for the
    unspecified order in which directory iterators return entries.
  \<^item> Every call that can fail takes the next entry of \<open>faults\<close>. \<open>Some f\<close> makes it fail with the
    reason \<open>f\<close> carries; a failing \<open>remove_all\<close> leaves the positions \<open>survivors f\<close> behind, and a
    failing write or copy may leave a torn file (\<open>torn f\<close>). An exhausted list means no further
    faults. Theorems quantify over the whole machine, hence over every fault plan.
  \<^item> \<open>mtimes\<close> is what \<open>last_write_time\<close> answers for a directory (\<open>None\<close> for an error).
  \<^item> \<open>steady\<close> is the steady clock in milliseconds; \<open>lags\<close> the extra time a sleep or a network
    call takes beyond what it was asked for. \<open>wall\<close> is the calendar clock in seconds.

  Later components extend the record by their own state, so each operation here is stated for
  every extension (\<open>'a machine_scheme\<close>), and \<open>files_step\<close> says that it touches nothing but the
  tree and the fault plan.
\<close>

datatype node = File string "12 word" | Directory | Symlink string

type_synonym tree = "(fpath \<times> node) list"

record fault =
  reason :: string
  survivors :: "fpath list"
  torn :: "string option"

record machine =
  cwd :: fpath
  files :: tree
  mtimes :: "fpath \<Rightarrow> int option"
  faults :: "fault option list"
  file_mode :: "12 word"
  wall :: int
  steady :: int
  lags :: "nat list"

definition take_fault :: "'a machine_scheme \<Rightarrow> fault option \<times> 'a machine_scheme" where
  "take_fault w = (case faults w of [] \<Rightarrow> (None, w) | f # fs \<Rightarrow> (f, w\<lparr>faults := fs\<rparr>))"

definition at :: "'a machine_scheme \<Rightarrow> string \<Rightarrow> fpath" where
  "at w s = locate (cwd w) s"

section \<open>The tree\<close>

definition lookup :: "tree \<Rightarrow> fpath \<Rightarrow> node option" where
  "lookup fs p = (if p = [] then Some Directory else map_of fs p)"

definition has_children :: "tree \<Rightarrow> fpath \<Rightarrow> bool" where
  "has_children fs p \<longleftrightarrow> (\<exists>e \<in> set fs. strict_prefix p (fst e))"

text \<open>The names in a directory, and the positions below it (parents before children).\<close>

definition children :: "tree \<Rightarrow> fpath \<Rightarrow> string list" where
  "children fs d = map (\<lambda>e. last (fst e)) (filter (\<lambda>e. fst e \<noteq> [] \<and> butlast (fst e) = d) fs)"

definition below :: "tree \<Rightarrow> fpath \<Rightarrow> fpath list" where
  "below fs d =
     sort_key length (map (\<lambda>e. drop (length d) (fst e)) (filter (\<lambda>e. strict_prefix d (fst e)) fs))"

definition put_node :: "fpath \<Rightarrow> node \<Rightarrow> tree \<Rightarrow> tree" where
  "put_node p n fs = AList.update p n fs"

definition drop_tree :: "fpath list \<Rightarrow> fpath \<Rightarrow> tree \<Rightarrow> tree" where
  "drop_tree keep p fs = filter (\<lambda>e. \<not> prefix p (fst e) \<or> (\<exists>s \<in> set keep. prefix (fst e) s)) fs"

definition missing_dirs :: "tree \<Rightarrow> fpath \<Rightarrow> fpath list" where
  "missing_dirs fs p =
     filter (\<lambda>q. lookup fs q = None) (map (\<lambda>n. take n p) [1..<Suc (length p)])"

definition make_dirs :: "fpath \<Rightarrow> tree \<Rightarrow> tree" where
  "make_dirs p fs = fs @ map (\<lambda>q. (q, Directory)) (missing_dirs fs p)"

definition dirs_blocked :: "tree \<Rightarrow> fpath \<Rightarrow> bool" where
  "dirs_blocked fs p \<longleftrightarrow>
     (\<exists>n \<in> set [0..<Suc (length p)]. lookup fs (take n p) \<notin> {None, Some Directory})"

definition move_path :: "fpath \<Rightarrow> fpath \<Rightarrow> fpath \<Rightarrow> fpath" where
  "move_path a b p = (if prefix a p then b @ drop (length a) p else p)"

definition move_tree :: "fpath \<Rightarrow> fpath \<Rightarrow> tree \<Rightarrow> tree" where
  "move_tree a b fs =
     map (\<lambda>e. (move_path a b (fst e), snd e)) (filter (\<lambda>e. \<not> prefix b (fst e)) fs)"

text \<open>\<open>rename(2)\<close>: \<open>Inl\<close> the error, \<open>Inr\<close> the new tree.\<close>

definition rename_tree :: "fpath \<Rightarrow> fpath \<Rightarrow> tree \<Rightarrow> tree expected" where
  "rename_tree a b fs =
     (case lookup fs a of
        None \<Rightarrow> Inl ''No such file or directory''
      | Some n \<Rightarrow>
          if a = b then Inr fs
          else if a = [] \<or> prefix a b then Inl ''Invalid argument''
          else if b = [] \<or> prefix b a then Inl ''Directory not empty''
          else if lookup fs (butlast b) \<noteq> Some Directory then Inl ''No such file or directory''
          else (case lookup fs b of
                  None \<Rightarrow> Inr (move_tree a b fs)
                | Some Directory \<Rightarrow>
                    if n \<noteq> Directory then Inl ''Is a directory''
                    else if has_children fs b then Inl ''Directory not empty''
                    else Inr (move_tree a b fs)
                | Some _ \<Rightarrow>
                    if n = Directory then Inl ''Not a directory''
                    else Inr (move_tree a b fs)))"

section \<open>\<open>std::filesystem\<close> and the file streams\<close>

definition fs_exists :: "fpath \<Rightarrow> 'a machine_scheme \<Rightarrow> bool \<times> 'a machine_scheme" where
  "fs_exists p w =
     (case take_fault w of
        (Some f, w1) \<Rightarrow> (False, w1)
      | (None, w1) \<Rightarrow> (lookup (files w1) p \<noteq> None, w1))"

definition fs_is_directory :: "fpath \<Rightarrow> 'a machine_scheme \<Rightarrow> bool \<times> 'a machine_scheme" where
  "fs_is_directory p w =
     (case take_fault w of
        (Some f, w1) \<Rightarrow> (False, w1)
      | (None, w1) \<Rightarrow> (lookup (files w1) p = Some Directory, w1))"

fun is_file :: "node option \<Rightarrow> bool" where
  "is_file (Some (File c m)) = True"
| "is_file _ = False"

definition fs_is_regular_file :: "fpath \<Rightarrow> 'a machine_scheme \<Rightarrow> bool \<times> 'a machine_scheme" where
  "fs_is_regular_file p w =
     (case take_fault w of
        (Some f, w1) \<Rightarrow> (False, w1)
      | (None, w1) \<Rightarrow> (is_file (lookup (files w1) p), w1))"

definition fs_create_directories ::
    "fpath \<Rightarrow> 'a machine_scheme \<Rightarrow> unit expected \<times> 'a machine_scheme" where
  "fs_create_directories p w =
     (case take_fault w of
        (Some f, w1) \<Rightarrow> (Inl (reason f), w1)
      | (None, w1) \<Rightarrow>
          if dirs_blocked (files w1) p then (Inl ''Not a directory'', w1)
          else (Inr (), w1\<lparr>files := make_dirs p (files w1)\<rparr>))"

definition fs_remove :: "fpath \<Rightarrow> 'a machine_scheme \<Rightarrow> unit expected \<times> 'a machine_scheme" where
  "fs_remove p w =
     (case take_fault w of
        (Some f, w1) \<Rightarrow> (Inl (reason f), w1)
      | (None, w1) \<Rightarrow>
          if has_children (files w1) p then (Inl ''Directory not empty'', w1)
          else (Inr (), w1\<lparr>files := drop_tree [] p (files w1)\<rparr>))"

definition fs_remove_all :: "fpath \<Rightarrow> 'a machine_scheme \<Rightarrow> unit expected \<times> 'a machine_scheme" where
  "fs_remove_all p w =
     (case take_fault w of
        (Some f, w1) \<Rightarrow> (Inl (reason f), w1\<lparr>files := drop_tree (survivors f) p (files w1)\<rparr>)
      | (None, w1) \<Rightarrow> (Inr (), w1\<lparr>files := drop_tree [] p (files w1)\<rparr>))"

definition fs_rename ::
    "fpath \<Rightarrow> fpath \<Rightarrow> 'a machine_scheme \<Rightarrow> unit expected \<times> 'a machine_scheme" where
  "fs_rename a b w =
     (case take_fault w of
        (Some f, w1) \<Rightarrow> (Inl (reason f), w1)
      | (None, w1) \<Rightarrow>
          (case rename_tree a b (files w1) of
             Inl e \<Rightarrow> (Inl e, w1)
           | Inr fs \<Rightarrow> (Inr (), w1\<lparr>files := fs\<rparr>)))"

text \<open>A file can be written at \<open>p\<close>: its directory exists and \<open>p\<close> is not a directory or link.\<close>

definition writable :: "tree \<Rightarrow> fpath \<Rightarrow> bool" where
  "writable fs p \<longleftrightarrow>
     p \<noteq> [] \<and> lookup fs (butlast p) = Some Directory \<and>
     (lookup fs p = None \<or> is_file (lookup fs p))"

definition fs_copy_file ::
    "fpath \<Rightarrow> fpath \<Rightarrow> 'a machine_scheme \<Rightarrow> unit expected \<times> 'a machine_scheme" where
  "fs_copy_file a b w =
     (case take_fault w of
        (fault, w1) \<Rightarrow>
          (case lookup (files w1) a of
             Some (File c m) \<Rightarrow>
               if \<not> writable (files w1) b then (Inl ''No such file or directory'', w1)
               else (case fault of
                       None \<Rightarrow> (Inr (), w1\<lparr>files := put_node b (File c m) (files w1)\<rparr>)
                     | Some f \<Rightarrow>
                         (case torn f of
                            None \<Rightarrow> (Inl (reason f), w1)
                          | Some t \<Rightarrow>
                              (Inl (reason f), w1\<lparr>files := put_node b (File t m) (files w1)\<rparr>)))
           | _ \<Rightarrow> (Inl ''No such file or directory'', w1)))"

definition fs_symlink ::
    "string \<Rightarrow> fpath \<Rightarrow> 'a machine_scheme \<Rightarrow> unit expected \<times> 'a machine_scheme" where
  "fs_symlink target p w =
     (case take_fault w of
        (Some f, w1) \<Rightarrow> (Inl (reason f), w1)
      | (None, w1) \<Rightarrow>
          if p \<noteq> [] \<and> lookup (files w1) p = None \<and> lookup (files w1) (butlast p) = Some Directory
          then (Inr (), w1\<lparr>files := put_node p (Symlink target) (files w1)\<rparr>)
          else (Inl ''File exists'', w1))"

text \<open>
  \<open>std::ofstream sink (path, binary | trunc); sink << text; sink.flush ()\<close>: not opened, opened
  but not written completely, or written.
\<close>

datatype write_result = NotOpened | NotWritten | Written

definition mode_at :: "'a machine_scheme \<Rightarrow> fpath \<Rightarrow> 12 word" where
  "mode_at w p = (case lookup (files w) p of Some (File c m) \<Rightarrow> m | _ \<Rightarrow> file_mode w)"

definition fs_write :: "fpath \<Rightarrow> string \<Rightarrow> 'a machine_scheme \<Rightarrow> write_result \<times> 'a machine_scheme" where
  "fs_write p s w =
     (case take_fault w of
        (fault, w1) \<Rightarrow>
          if \<not> writable (files w1) p then (NotOpened, w1)
          else (case fault of
                  None \<Rightarrow> (Written, w1\<lparr>files := put_node p (File s (mode_at w1 p)) (files w1)\<rparr>)
                | Some f \<Rightarrow>
                    (case torn f of
                       None \<Rightarrow> (NotOpened, w1)
                     | Some t \<Rightarrow>
                         (NotWritten, w1\<lparr>files := put_node p (File t (mode_at w1 p)) (files w1)\<rparr>))))"

text \<open>
  \<open>std::ifstream source (path, binary); buffer << source.rdbuf ()\<close>: \<open>None\<close> when the stream did
  not open. Opening a directory succeeds and reads nothing; a failing read may deliver a part.
\<close>

definition fs_read :: "fpath \<Rightarrow> 'a machine_scheme \<Rightarrow> string option \<times> 'a machine_scheme" where
  "fs_read p w =
     (case take_fault w of
        (Some f, w1) \<Rightarrow> (torn f, w1)
      | (None, w1) \<Rightarrow>
          (case lookup (files w1) p of
             Some (File c m) \<Rightarrow> (Some c, w1)
           | Some Directory \<Rightarrow> (Some '''', w1)
           | _ \<Rightarrow> (None, w1)))"

text \<open>A directory iterator: the error of its constructor, or the names it will deliver.\<close>

definition fs_list :: "fpath \<Rightarrow> 'a machine_scheme \<Rightarrow> string list expected \<times> 'a machine_scheme" where
  "fs_list d w =
     (case take_fault w of
        (Some f, w1) \<Rightarrow> (Inl (reason f), w1)
      | (None, w1) \<Rightarrow>
          if lookup (files w1) d = Some Directory then (Inr (children (files w1) d), w1)
          else (Inl ''Not a directory'', w1))"

definition fs_walk :: "fpath \<Rightarrow> 'a machine_scheme \<Rightarrow> fpath list expected \<times> 'a machine_scheme" where
  "fs_walk d w =
     (case take_fault w of
        (Some f, w1) \<Rightarrow> (Inl (reason f), w1)
      | (None, w1) \<Rightarrow>
          if lookup (files w1) d = Some Directory then (Inr (below (files w1) d), w1)
          else (Inl ''Not a directory'', w1))"

definition fs_last_write_time :: "fpath \<Rightarrow> 'a machine_scheme \<Rightarrow> int option" where
  "fs_last_write_time p w = mtimes w p"

lemmas fs_defs =
  fs_exists_def fs_is_directory_def fs_is_regular_file_def fs_create_directories_def
  fs_remove_def fs_remove_all_def fs_rename_def fs_copy_file_def fs_symlink_def fs_write_def
  fs_read_def fs_list_def fs_walk_def

section \<open>Time\<close>

definition elapse :: "int \<Rightarrow> 'a machine_scheme \<Rightarrow> 'a machine_scheme" where
  "elapse d w =
     (case lags w of
        [] \<Rightarrow> w\<lparr>steady := steady w + max 0 d\<rparr>
      | l # ls \<Rightarrow> w\<lparr>steady := steady w + max 0 d + int l, lags := ls\<rparr>)"

record tm =
  tm_year :: int
  tm_mon :: int
  tm_mday :: int
  tm_hour :: int
  tm_min :: int
  tm_sec :: int

text \<open>
  \<open>gmtime_r\<close> on the seconds since 1970-01-01: the proleptic Gregorian calendar by eras of 400
  years. \<open>tm_year\<close> counts from 1900 and \<open>tm_mon\<close> from 0, as in C.
\<close>

definition gmtime :: "int \<Rightarrow> tm" where
  "gmtime t =
     (let z = t div 86400 + 719468; secs = t mod 86400;
          era = z div 146097; doe = z mod 146097;
          yoe = (doe - doe div 1460 + doe div 36524 - doe div 146096) div 365;
          doy = doe - (365 * yoe + yoe div 4 - yoe div 100);
          mp = (5 * doy + 2) div 153;
          d = doy - (153 * mp + 2) div 5 + 1;
          m = (if mp < 10 then mp + 3 else mp - 9);
          y = yoe + era * 400 + (if m \<le> 2 then 1 else 0)
      in \<lparr>tm_year = y - 1900, tm_mon = m - 1, tm_mday = d,
          tm_hour = secs div 3600, tm_min = secs div 60 mod 60, tm_sec = secs mod 60\<rparr>)"

text \<open>The \<open>snprintf\<close> patterns print each field with a minimal width and zeros in front.\<close>

definition field_text :: "nat \<Rightarrow> int \<Rightarrow> string" where
  "field_text w i =
     (if i < 0 then CHR ''-'' # padded (w - 1) (nat (- i)) else padded w (nat i))"

definition iso_text :: "tm \<Rightarrow> string" where
  "iso_text t =
     field_text 4 (tm_year t + 1900) @ ''-'' @ field_text 2 (tm_mon t + 1) @ ''-'' @
     field_text 2 (tm_mday t) @ ''T'' @ field_text 2 (tm_hour t) @ '':'' @
     field_text 2 (tm_min t) @ '':'' @ field_text 2 (tm_sec t) @ ''Z''"

text \<open>An empty machine on 2026-08-08, for examples.\<close>

definition blank_machine :: machine where
  "blank_machine = \<lparr>cwd = [], files = [], mtimes = (\<lambda>_. None), faults = [], file_mode = 420,
     wall = 1786147200, steady = 0, lags = []\<rparr>"

end
