(* ===== verification/MachineFacts.thy ===== *)
theory MachineFacts
  imports Machine
begin

text \<open>
  Facts about the machine that every component uses: what a lookup gives after each change of
  the tree, that the tree stays a tree (\<open>wf_tree\<close>), that a file-system call changes nothing but
  the tree and the fault plan (\<open>files_step\<close>), and where in the tree it can change something
  (\<open>same_outside\<close>).
\<close>

section \<open>Lookup after a change of the tree\<close>

lemma strict_prefix_child [simp]: "strict_prefix p (p @ [c])"
  by (simp add: strict_prefix_def)

lemma lookup_Nil [simp]: "lookup fs [] = Some Directory"
  by (simp add: lookup_def)

lemma lookup_put_node:
  "p \<noteq> [] \<Longrightarrow> lookup (put_node p n fs) q = (if q = p then Some n else lookup fs q)"
  by (simp add: lookup_def put_node_def map_of_update_eq)

lemma lookup_drop_tree:
  "lookup (drop_tree keep p fs) q =
     (if q \<noteq> [] \<and> prefix p q \<and> \<not> (\<exists>s \<in> set keep. prefix q s) then None else lookup fs q)"
  unfolding lookup_def drop_tree_def
  using map_of_filter_fst [of "\<lambda>e. \<not> prefix p e \<or> (\<exists>s \<in> set keep. prefix e s)" fs q]
  by auto

lemma map_of_const: "map_of (map (\<lambda>q. (q, v)) qs) k = (if k \<in> set qs then Some v else None)"
  by (induction qs) auto

lemma set_missing_dirs:
  "set (missing_dirs fs p) = {q. lookup fs q = None \<and> prefix q p}"
proof -
  have "prefix q p \<longleftrightarrow> (\<exists>n \<in> {1..<Suc (length p)}. q = take n p)" if "lookup fs q = None" for q
  proof
    assume "prefix q p"
    then have "q = take (length q) p" "length q < Suc (length p)"
      by (auto simp: prefix_def)
    moreover have "q \<noteq> []" using that by auto
    ultimately show "\<exists>n \<in> {1..<Suc (length p)}. q = take n p"
      by (intro bexI [of _ "length q"]) (auto simp: Suc_le_eq)
  next
    assume "\<exists>n \<in> {1..<Suc (length p)}. q = take n p"
    then show "prefix q p" by (auto intro: take_is_prefix)
  qed
  moreover have "set (missing_dirs fs p) =
      {q. lookup fs q = None \<and> (\<exists>n \<in> {1..<Suc (length p)}. q = take n p)}"
    unfolding missing_dirs_def set_filter set_map set_upt by blast
  ultimately show ?thesis by blast
qed

lemma lookup_make_dirs:
  "lookup (make_dirs p fs) q =
     (if lookup fs q = None \<and> prefix q p then Some Directory else lookup fs q)"
proof (cases "q = []")
  case True
  then show ?thesis by simp
next
  case False
  have "q \<in> set (missing_dirs fs p) \<longleftrightarrow> lookup fs q = None \<and> prefix q p"
    by (simp add: set_missing_dirs)
  with False show ?thesis
    by (auto simp: lookup_def make_dirs_def map_add_def map_of_const split: option.splits)
qed

lemma lookup_make_dirs_self:
  "\<not> dirs_blocked fs p \<Longrightarrow> lookup (make_dirs p fs) p = Some Directory"
proof -
  assume "\<not> dirs_blocked fs p"
  then have "lookup fs (take (length p) p) \<in> {None, Some Directory}"
    unfolding dirs_blocked_def by (metis atLeastLessThan_iff le0 lessI set_upt)
  then show ?thesis by (auto simp: lookup_make_dirs)
qed

lemma move_path_iff:
  assumes "\<not> prefix a b" "\<not> prefix b a" "\<not> prefix b p"
  shows "move_path a b p = q \<longleftrightarrow>
    (if prefix b q then p = a @ drop (length b) q else \<not> prefix a q \<and> p = q)"
proof (cases "prefix a p")
  case True
  then obtain r where p: "p = a @ r" by (auto simp: prefix_def)
  then have m: "move_path a b p = b @ r" by (simp add: move_path_def)
  show ?thesis
  proof (cases "prefix b q")
    case True
    then obtain s where "q = b @ s" by (auto simp: prefix_def)
    with m p show ?thesis by auto
  next
    case False
    with m p show ?thesis by auto
  qed
next
  case False
  then have m: "move_path a b p = p" by (simp add: move_path_def)
  from False assms(3) show ?thesis unfolding m by (auto simp: prefix_def)
qed

lemma lookup_move_tree:
  assumes "\<not> prefix a b" "\<not> prefix b a"
  shows "lookup (move_tree a b fs) q =
    (if prefix b q then lookup fs (a @ drop (length b) q)
     else if prefix a q then None else lookup fs q)"
proof -
  have "a \<noteq> []" "b \<noteq> []" using assms by auto
  have "map_of (move_tree a b fs) q =
    (if prefix b q then map_of (filter (\<lambda>e. \<not> prefix b (fst e)) fs) (a @ drop (length b) q)
     else if prefix a q then None else map_of fs q)"
  proof (induction fs)
    case Nil
    then show ?case by (simp add: move_tree_def)
  next
    case (Cons e fs)
    show ?case
    proof (cases "prefix b (fst e)")
      case True
      with Cons assms show ?thesis
        by (auto simp: move_tree_def)
    next
      case False
      have iff: "move_path a b (fst e) = q \<longleftrightarrow>
          (if prefix b q then fst e = a @ drop (length b) q else \<not> prefix a q \<and> fst e = q)"
        by (rule move_path_iff [OF assms False])
      show ?thesis
        using Cons False iff by (cases "prefix b q"; cases "prefix a q") (auto simp: move_tree_def)
    qed
  qed
  moreover have "map_of (filter (\<lambda>e. \<not> prefix b (fst e)) fs) (a @ r) = map_of fs (a @ r)" for r
  proof -
    have "\<not> prefix b (a @ r)"
      using assms prefix_same_cases [of a "a @ r" b] by auto
    then show ?thesis using map_of_filter_fst [of "\<lambda>k. \<not> prefix b k" fs] by simp
  qed
  ultimately show ?thesis
    using \<open>a \<noteq> []\<close> \<open>b \<noteq> []\<close> by (auto simp: lookup_def)
qed

lemma rename_tree_cases:
  assumes "rename_tree a b fs = Inr fs'"
  shows "(a = b \<and> fs' = fs) \<or>
    (\<not> prefix a b \<and> \<not> prefix b a \<and> fs' = move_tree a b fs \<and>
     lookup fs (butlast b) = Some Directory \<and> \<not> has_children fs b)
    \<or> (\<not> prefix a b \<and> \<not> prefix b a \<and> fs' = move_tree a b fs \<and>
     lookup fs (butlast b) = Some Directory \<and> lookup fs b \<noteq> Some Directory)"
  using assms by (auto simp: rename_tree_def split: option.splits if_splits node.splits)

section \<open>The tree stays a tree\<close>

definition keys :: "tree \<Rightarrow> fpath set" where
  "keys fs = fst ` set fs"

definition wf_tree :: "tree \<Rightarrow> bool" where
  "wf_tree fs \<longleftrightarrow>
     distinct (map fst fs) \<and> [] \<notin> keys fs \<and>
     (\<forall>q \<in> keys fs. lookup fs (butlast q) = Some Directory)"

lemma keys_lookup: "q \<noteq> [] \<Longrightarrow> q \<in> keys fs \<longleftrightarrow> lookup fs q \<noteq> None"
  by (simp add: keys_def lookup_def map_of_eq_None_iff)

lemma wf_treeD:
  assumes "wf_tree fs" "lookup fs q \<noteq> None"
  shows "lookup fs (butlast q) = Some Directory"
  using assms keys_lookup [of q fs] by (cases "q = []") (auto simp: wf_tree_def)

lemma wf_tree_parents:
  "wf_tree fs \<Longrightarrow> lookup fs q \<noteq> None \<Longrightarrow> strict_prefix p q \<Longrightarrow> lookup fs p = Some Directory"
proof (induction q rule: rev_induct)
  case Nil
  then show ?case by simp
next
  case (snoc c q)
  from snoc.prems(1,2) have d: "lookup fs q = Some Directory"
    using wf_treeD by fastforce
  from snoc.prems(3) have "p = q \<or> strict_prefix p q"
    by (auto simp: strict_prefix_def)
  then show ?case using d snoc.IH [OF snoc.prems(1)] by auto
qed

lemma wf_tree_below:
  "wf_tree fs \<Longrightarrow> lookup fs p \<noteq> Some Directory \<Longrightarrow> strict_prefix p q \<Longrightarrow> lookup fs q = None"
  by (rule ccontr) (simp add: wf_tree_parents)

lemma has_children_lookup:
  "wf_tree fs \<Longrightarrow> has_children fs p \<longleftrightarrow> (\<exists>q. strict_prefix p q \<and> lookup fs q \<noteq> None)"
proof -
  have "has_children fs p \<longleftrightarrow> (\<exists>q \<in> keys fs. strict_prefix p q)"
    by (simp add: has_children_def keys_def)
  moreover have "q \<in> keys fs \<longleftrightarrow> lookup fs q \<noteq> None" if "strict_prefix p q" for q
    using that by (intro keys_lookup) auto
  ultimately show ?thesis by metis
qed

lemma wf_put_node:
  assumes "wf_tree fs" "p \<noteq> []" "lookup fs (butlast p) = Some Directory"
    and "n = Directory \<or> lookup fs p \<noteq> Some Directory"
  shows "wf_tree (put_node p n fs)"
proof -
  have k: "keys (put_node p n fs) = insert p (keys fs)"
    using keys_update [of p n fs] by (simp add: keys_def put_node_def)
  have "lookup (put_node p n fs) (butlast q) = Some Directory" if "q \<in> insert p (keys fs)" for q
  proof -
    have "lookup fs (butlast q) = Some Directory"
      using that assms(1,3) by (auto simp: wf_tree_def)
    then show ?thesis using assms(2,4) by (auto simp: lookup_put_node)
  qed
  then show ?thesis
    using assms(1,2) k distinct_keys_update [of fs p n]
    unfolding wf_tree_def put_node_def by auto
qed

lemma wf_drop_tree: "wf_tree fs \<Longrightarrow> wf_tree (drop_tree keep p fs)"
proof -
  assume wf: "wf_tree fs"
  have "distinct (map fst (drop_tree keep p fs))"
    using wf by (simp add: drop_tree_def wf_tree_def distinct_map_filter)
  moreover have "[] \<notin> keys (drop_tree keep p fs)"
    using wf by (auto simp: drop_tree_def wf_tree_def keys_def)
  moreover have "lookup (drop_tree keep p fs) (butlast q) = Some Directory"
    if q: "q \<in> keys (drop_tree keep p fs)" for q
  proof -
    from q have qf: "q \<in> keys fs" and keep: "\<not> prefix p q \<or> (\<exists>s \<in> set keep. prefix q s)"
      by (auto simp: drop_tree_def keys_def)
    have "lookup fs (butlast q) = Some Directory" using wf qf by (auto simp: wf_tree_def)
    moreover have "prefix (butlast q) q" by (rule prefixeq_butlast)
    then have "\<not> prefix p (butlast q) \<or> (\<exists>s \<in> set keep. prefix (butlast q) s)"
      using keep by (meson prefix_order.order_trans)
    ultimately show ?thesis by (auto simp: lookup_drop_tree)
  qed
  ultimately show ?thesis by (simp add: wf_tree_def)
qed

lemma wf_make_dirs:
  assumes wf: "wf_tree fs" and free: "\<not> dirs_blocked fs p"
  shows "wf_tree (make_dirs p fs)"
proof -
  let ?m = "missing_dirs fs p"
  have keys: "keys (make_dirs p fs) = keys fs \<union> set ?m"
    by (simp add: keys_def make_dirs_def image_Un image_image)
  have dist: "distinct (map fst (make_dirs p fs))"
  proof -
    have "distinct ?m"
      unfolding missing_dirs_def
      by (intro distinct_filter) (auto simp: distinct_map intro!: inj_onI dest: arg_cong [of _ _ length])
    moreover have "set (map fst fs) \<inter> set ?m = {}"
    proof -
      have False if "q \<in> keys fs" "q \<in> set ?m" for q
        using that keys_lookup [of q fs] by (cases "q = []") (auto simp: set_missing_dirs)
      then show ?thesis by (auto simp: keys_def)
    qed
    moreover have "map fst (make_dirs p fs) = map fst fs @ ?m"
      by (simp add: make_dirs_def comp_def)
    ultimately show ?thesis using wf by (simp add: wf_tree_def)
  qed
  have "lookup (make_dirs p fs) (butlast q) = Some Directory" if "q \<in> keys fs \<union> set ?m" for q
  proof (cases "q \<in> keys fs")
    case True
    then have "lookup fs (butlast q) = Some Directory" using wf by (simp add: wf_tree_def)
    then show ?thesis by (simp add: lookup_make_dirs)
  next
    case False
    with that have "prefix q p" by (simp add: set_missing_dirs)
    then have "prefix (butlast q) p"
      using prefixeq_butlast prefix_order.order_trans by blast
    then obtain n where n: "n < Suc (length p)" "butlast q = take n p"
      by (metis append_eq_conv_conj le_imp_less_Suc prefix_def prefix_length_le)
    with free have "lookup fs (butlast q) \<in> {None, Some Directory}"
      unfolding dirs_blocked_def by auto
    with \<open>prefix (butlast q) p\<close> show ?thesis by (auto simp: lookup_make_dirs)
  qed
  then show ?thesis
    using dist keys wf by (auto simp: wf_tree_def set_missing_dirs)
qed

lemma move_path_inj:
  assumes "\<not> prefix a b" "\<not> prefix b a"
  shows "inj_on (move_path a b) {p. \<not> prefix b p}"
proof (rule inj_onI)
  fix p q
  assume "p \<in> {p. \<not> prefix b p}" "q \<in> {p. \<not> prefix b p}" "move_path a b p = move_path a b q"
  then show "p = q"
    using move_path_iff [OF assms, of p "move_path a b q"] move_path_iff [OF assms, of q "move_path a b q"]
    by (auto split: if_splits)
qed

lemma wf_move_tree:
  assumes wf: "wf_tree fs" and ab: "\<not> prefix a b" "\<not> prefix b a"
    and parent: "lookup fs (butlast b) = Some Directory"
  shows "wf_tree (move_tree a b fs)"
proof -
  have ne: "a \<noteq> []" "b \<noteq> []" using ab by auto
  have mapfst: "map fst (move_tree a b fs) = map (move_path a b) (filter (\<lambda>p. \<not> prefix b p) (map fst fs))"
    by (simp add: move_tree_def filter_map comp_def)
  have "distinct (map fst (move_tree a b fs))"
    unfolding mapfst using wf move_path_inj [OF ab]
    by (auto simp: distinct_map wf_tree_def intro: inj_on_subset)
  moreover have "[] \<notin> keys (move_tree a b fs)"
  proof
    assume "[] \<in> keys (move_tree a b fs)"
    then obtain p where "p \<in> keys fs" "\<not> prefix b p" "move_path a b p = []"
      unfolding keys_def move_tree_def by fastforce
    then have "p = []" using ne by (auto simp: move_path_def split: if_splits)
    with \<open>p \<in> keys fs\<close> wf show False by (simp add: wf_tree_def)
  qed
  moreover have "lookup (move_tree a b fs) (butlast q) = Some Directory"
    if q: "q \<in> keys (move_tree a b fs)" for q
  proof -
    from q \<open>[] \<notin> keys (move_tree a b fs)\<close> have qne: "q \<noteq> []" by auto
    then have lq: "lookup (move_tree a b fs) q \<noteq> None" using q keys_lookup by blast
    have nab: "\<not> prefix a (butlast b)" "\<not> prefix b (butlast b)"
      using ab(1) prefixeq_butlast [of b] prefix_order.order_trans
        prefix_length_le [of b "butlast b"] ne(2)
      by (blast, cases b rule: rev_cases) auto
    consider (top) "q = b" | (in_b) r where "q = b @ r" "r \<noteq> []" | (other) "\<not> prefix b q"
      by (auto simp: prefix_def)
    then show ?thesis
    proof cases
      case top
      then show ?thesis using nab parent by (simp add: lookup_move_tree [OF ab])
    next
      case (in_b r)
      then have "lookup fs (a @ r) \<noteq> None" using lq by (simp add: lookup_move_tree [OF ab])
      then have "lookup fs (butlast (a @ r)) = Some Directory" using wf wf_treeD by blast
      then show ?thesis using in_b by (simp add: lookup_move_tree [OF ab] butlast_append)
    next
      case other
      then have nq: "\<not> prefix a q" "lookup fs q \<noteq> None"
        using lq by (auto simp: lookup_move_tree [OF ab] split: if_splits)
      have "\<not> prefix b (butlast q)" "\<not> prefix a (butlast q)"
        using other nq prefixeq_butlast [of q] prefix_order.order_trans by blast+
      then show ?thesis using nq wf wf_treeD by (simp add: lookup_move_tree [OF ab])
    qed
  qed
  ultimately show ?thesis by (simp add: wf_tree_def)
qed

section \<open>What a call can change\<close>

definition reads :: "'a machine_scheme \<Rightarrow> 'a machine_scheme \<Rightarrow> bool" where
  "reads w w' \<longleftrightarrow> w' = w\<lparr>faults := faults w'\<rparr>"

definition files_step :: "'a machine_scheme \<Rightarrow> 'a machine_scheme \<Rightarrow> bool" where
  "files_step w w' \<longleftrightarrow> w' = w\<lparr>files := files w', faults := faults w'\<rparr>"

definition same_outside :: "(fpath \<Rightarrow> bool) \<Rightarrow> tree \<Rightarrow> tree \<Rightarrow> bool" where
  "same_outside R fs fs' \<longleftrightarrow> (\<forall>q. \<not> R q \<longrightarrow> lookup fs' q = lookup fs q)"

text \<open>
  \<open>step_in R\<close>: only the tree and the fault plan change, the tree only inside the region \<open>R\<close>,
  and it stays a tree.
\<close>

definition step_in :: "(fpath \<Rightarrow> bool) \<Rightarrow> 'a machine_scheme \<Rightarrow> 'a machine_scheme \<Rightarrow> bool" where
  "step_in R w w' \<longleftrightarrow>
     files_step w w' \<and> same_outside R (files w) (files w') \<and>
     (wf_tree (files w) \<longrightarrow> wf_tree (files w'))"

lemma reads_refl [simp, intro]: "reads w w"
  by (cases w) (simp add: reads_def)

lemma reads_trans: "reads w w1 \<Longrightarrow> reads w1 w2 \<Longrightarrow> reads w w2"
  by (cases w; cases w1; cases w2) (simp add: reads_def)

lemma reads_files [simp]: "reads w w' \<Longrightarrow> files w' = files w"
  by (cases w; cases w') (simp add: reads_def)

lemma files_step_refl [simp, intro]: "files_step w w"
  by (cases w) (simp add: files_step_def)

lemma files_step_trans: "files_step w w1 \<Longrightarrow> files_step w1 w2 \<Longrightarrow> files_step w w2"
  by (cases w; cases w1; cases w2) (simp add: files_step_def)

lemma reads_step: "reads w w' \<Longrightarrow> step_in R w w'"
  by (cases w; cases w') (simp add: reads_def files_step_def step_in_def same_outside_def)

lemma files_step_fields:
  assumes "files_step w w'"
  shows "cwd w' = cwd w" "mtimes w' = mtimes w" "file_mode w' = file_mode w" "wall w' = wall w"
    "steady w' = steady w" "lags w' = lags w" "machine.more w' = machine.more w"
  using assms by (cases w; cases w'; simp add: files_step_def)+

lemma step_in_fields:
  assumes "step_in R w w'"
  shows "cwd w' = cwd w" "mtimes w' = mtimes w" "file_mode w' = file_mode w" "wall w' = wall w"
    "steady w' = steady w" "lags w' = lags w" "machine.more w' = machine.more w"
  using assms files_step_fields [of w w'] by (simp_all add: step_in_def)

lemma step_in_at [simp]: "step_in R w w' \<Longrightarrow> at w' s = at w s"
  by (simp add: at_def step_in_fields)

lemma reads_at [simp]: "reads w w' \<Longrightarrow> at w' s = at w s"
  using reads_step [of w w'] step_in_at by blast

lemma step_in_refl [simp, intro]: "step_in R w w"
  by (simp add: step_in_def same_outside_def)

lemma step_in_trans: "step_in R w w1 \<Longrightarrow> step_in R w1 w2 \<Longrightarrow> step_in R w w2"
  unfolding step_in_def same_outside_def by (metis files_step_trans)

lemma step_in_mono: "step_in R w w' \<Longrightarrow> (\<And>q. R q \<Longrightarrow> S q) \<Longrightarrow> step_in S w w'"
  unfolding step_in_def same_outside_def by blast

lemma step_in_lookup: "step_in R w w' \<Longrightarrow> \<not> R q \<Longrightarrow> lookup (files w') q = lookup (files w) q"
  by (simp add: step_in_def same_outside_def)

lemma step_in_wf: "step_in R w w' \<Longrightarrow> wf_tree (files w) \<Longrightarrow> wf_tree (files w')"
  by (simp add: step_in_def)

lemma take_fault_reads: "take_fault w = (f, w') \<Longrightarrow> reads w w'"
  by (cases w) (auto simp: take_fault_def reads_def split: list.splits)

lemma take_fault_none: "faults w = [] \<Longrightarrow> take_fault w = (None, w)"
  by (simp add: take_fault_def)

lemma set_files_step:
  "wf_tree (files w) \<longrightarrow> wf_tree fs \<Longrightarrow> same_outside R (files w) fs \<Longrightarrow>
     step_in R w (w\<lparr>files := fs\<rparr>)"
  by (cases w) (simp add: step_in_def files_step_def)

lemma reads_then_step: "reads w w1 \<Longrightarrow> step_in R w1 w2 \<Longrightarrow> step_in R w w2"
  using reads_step step_in_trans by blast

lemma exists_reads: "fs_exists p w = (r, w') \<Longrightarrow> reads w w'"
  by (auto simp: fs_exists_def dest: take_fault_reads split: prod.splits option.splits)

lemma is_directory_reads: "fs_is_directory p w = (r, w') \<Longrightarrow> reads w w'"
  by (auto simp: fs_is_directory_def dest: take_fault_reads split: prod.splits option.splits)

lemma is_regular_file_reads: "fs_is_regular_file p w = (r, w') \<Longrightarrow> reads w w'"
  by (auto simp: fs_is_regular_file_def dest: take_fault_reads split: prod.splits option.splits)

lemma read_reads: "fs_read p w = (r, w') \<Longrightarrow> reads w w'"
  by (auto simp: fs_read_def dest: take_fault_reads
      split: prod.splits option.splits node.splits)

lemma list_reads: "fs_list p w = (r, w') \<Longrightarrow> reads w w'"
  by (auto simp: fs_list_def dest: take_fault_reads split: prod.splits option.splits if_splits)

lemma walk_reads: "fs_walk p w = (r, w') \<Longrightarrow> reads w w'"
  by (auto simp: fs_walk_def dest: take_fault_reads split: prod.splits option.splits if_splits)

lemma create_directories_step:
  assumes "fs_create_directories p w = (r, w')"
  shows "step_in (\<lambda>q. prefix q p) w w'"
proof -
  obtain f w1 where t: "take_fault w = (f, w1)" by (cases "take_fault w")
  note go = reads_then_step [OF take_fault_reads [OF t]] reads_step [OF take_fault_reads [OF t]]
  have "step_in (\<lambda>q. prefix q p) w1 (w1\<lparr>files := make_dirs p (files w1)\<rparr>)"
    if "\<not> dirs_blocked (files w1) p"
    using that by (intro set_files_step) (auto simp: wf_make_dirs same_outside_def lookup_make_dirs)
  then show ?thesis
    using assms t by (auto simp: fs_create_directories_def intro: go split: option.splits if_splits)
qed

lemma drop_tree_step: "step_in (prefix p) w (w\<lparr>files := drop_tree keep p (files w)\<rparr>)"
  by (intro set_files_step) (auto simp: wf_drop_tree same_outside_def lookup_drop_tree)

lemma remove_step: "fs_remove p w = (r, w') \<Longrightarrow> step_in (prefix p) w w'"
  by (auto simp: fs_remove_def split: prod.splits option.splits if_splits
      intro: reads_then_step reads_step drop_tree_step dest: take_fault_reads)

lemma remove_all_step: "fs_remove_all p w = (r, w') \<Longrightarrow> step_in (prefix p) w w'"
  by (auto simp: fs_remove_all_def split: prod.splits option.splits
      intro: reads_then_step drop_tree_step dest: take_fault_reads)

lemma move_tree_step:
  assumes "\<not> prefix a b" "\<not> prefix b a" "lookup (files w) (butlast b) = Some Directory"
  shows "step_in (\<lambda>q. prefix a q \<or> prefix b q) w (w\<lparr>files := move_tree a b (files w)\<rparr>)"
  using assms
  by (intro set_files_step) (auto simp: wf_move_tree same_outside_def lookup_move_tree)

lemma rename_step:
  assumes "fs_rename a b w = (r, w')"
  shows "step_in (\<lambda>q. prefix a q \<or> prefix b q) w w'"
proof -
  obtain f w1 where t: "take_fault w = (f, w1)" by (cases "take_fault w")
  note go = reads_then_step [OF take_fault_reads [OF t]] reads_step [OF take_fault_reads [OF t]]
  have "step_in (\<lambda>q. prefix a q \<or> prefix b q) w1 (w1\<lparr>files := fs\<rparr>)"
    if "rename_tree a b (files w1) = Inr fs" for fs
    using rename_tree_cases [OF that] move_tree_step [of a b w1] by auto
  then show ?thesis
    using assms t by (auto simp: fs_rename_def intro: go split: option.splits sum.splits)
qed

lemma put_file_step:
  assumes "writable (files w) p"
  shows "step_in (\<lambda>q. q = p) w (w\<lparr>files := put_node p (File c m) (files w)\<rparr>)"
  using assms
  by (intro set_files_step)
    (auto simp: writable_def same_outside_def lookup_put_node intro!: wf_put_node)

lemma copy_file_step:
  assumes "fs_copy_file a b w = (r, w')"
  shows "step_in (\<lambda>q. q = b) w w'"
proof -
  obtain f w1 where t: "take_fault w = (f, w1)" by (cases "take_fault w")
  note go = reads_then_step [OF take_fault_reads [OF t]] reads_step [OF take_fault_reads [OF t]]
  show ?thesis
    using assms t put_file_step [of w1 b]
    by (auto simp: fs_copy_file_def intro: go split: option.splits if_splits node.splits)
qed

lemma symlink_step:
  assumes "fs_symlink s p w = (r, w')"
  shows "step_in (\<lambda>q. q = p) w w'"
proof -
  obtain f w1 where t: "take_fault w = (f, w1)" by (cases "take_fault w")
  note go = reads_then_step [OF take_fault_reads [OF t]] reads_step [OF take_fault_reads [OF t]]
  have "step_in (\<lambda>q. q = p) w1 (w1\<lparr>files := put_node p (Symlink s) (files w1)\<rparr>)"
    if "p \<noteq> []" "lookup (files w1) p = None" "lookup (files w1) (butlast p) = Some Directory"
    using that
    by (intro set_files_step) (auto simp: same_outside_def lookup_put_node intro!: wf_put_node)
  then show ?thesis
    using assms t by (auto simp: fs_symlink_def intro: go split: option.splits if_splits)
qed

lemma write_step:
  assumes "fs_write p s w = (r, w')"
  shows "step_in (\<lambda>q. q = p) w w'"
proof -
  obtain f w1 where t: "take_fault w = (f, w1)" by (cases "take_fault w")
  note go = reads_then_step [OF take_fault_reads [OF t]] reads_step [OF take_fault_reads [OF t]]
  show ?thesis
    using assms t put_file_step [of w1 p]
    by (auto simp: fs_write_def intro: go split: option.splits if_splits)
qed

lemmas reads_lemmas =
  exists_reads is_directory_reads is_regular_file_reads read_reads list_reads walk_reads
  take_fault_reads

lemmas step_lemmas =
  create_directories_step remove_step remove_all_step rename_step copy_file_step symlink_step
  write_step

section \<open>Without faults\<close>

text \<open>An exhausted fault plan stays exhausted.\<close>

lemma exists_calm: "fs_exists p w = (r, w') \<Longrightarrow> faults w = [] \<Longrightarrow> faults w' = []"
  by (auto simp: fs_exists_def take_fault_none split: if_splits option.splits sum.splits node.splits)

lemma is_directory_calm: "fs_is_directory p w = (r, w') \<Longrightarrow> faults w = [] \<Longrightarrow> faults w' = []"
  by (auto simp: fs_is_directory_def take_fault_none split: if_splits option.splits sum.splits node.splits)

lemma is_regular_file_calm: "fs_is_regular_file p w = (r, w') \<Longrightarrow> faults w = [] \<Longrightarrow> faults w' = []"
  by (auto simp: fs_is_regular_file_def take_fault_none split: if_splits option.splits sum.splits node.splits)

lemma create_directories_calm: "fs_create_directories p w = (r, w') \<Longrightarrow> faults w = [] \<Longrightarrow> faults w' = []"
  by (auto simp: fs_create_directories_def take_fault_none split: if_splits option.splits sum.splits node.splits)

lemma remove_calm: "fs_remove p w = (r, w') \<Longrightarrow> faults w = [] \<Longrightarrow> faults w' = []"
  by (auto simp: fs_remove_def take_fault_none split: if_splits option.splits sum.splits node.splits)

lemma remove_all_calm: "fs_remove_all p w = (r, w') \<Longrightarrow> faults w = [] \<Longrightarrow> faults w' = []"
  by (auto simp: fs_remove_all_def take_fault_none split: if_splits option.splits sum.splits node.splits)

lemma rename_calm: "fs_rename a b w = (r, w') \<Longrightarrow> faults w = [] \<Longrightarrow> faults w' = []"
  by (auto simp: fs_rename_def take_fault_none split: if_splits option.splits sum.splits node.splits)

lemma copy_file_calm: "fs_copy_file a b w = (r, w') \<Longrightarrow> faults w = [] \<Longrightarrow> faults w' = []"
  by (auto simp: fs_copy_file_def take_fault_none split: if_splits option.splits sum.splits node.splits)

lemma symlink_calm: "fs_symlink s p w = (r, w') \<Longrightarrow> faults w = [] \<Longrightarrow> faults w' = []"
  by (auto simp: fs_symlink_def take_fault_none split: if_splits option.splits sum.splits node.splits)

lemma write_calm: "fs_write p s w = (r, w') \<Longrightarrow> faults w = [] \<Longrightarrow> faults w' = []"
  by (auto simp: fs_write_def take_fault_none split: if_splits option.splits sum.splits node.splits)

lemma read_calm: "fs_read p w = (r, w') \<Longrightarrow> faults w = [] \<Longrightarrow> faults w' = []"
  by (auto simp: fs_read_def take_fault_none split: if_splits option.splits sum.splits node.splits)

lemma list_calm: "fs_list d w = (r, w') \<Longrightarrow> faults w = [] \<Longrightarrow> faults w' = []"
  by (auto simp: fs_list_def take_fault_none split: if_splits option.splits sum.splits node.splits)

lemma walk_calm: "fs_walk d w = (r, w') \<Longrightarrow> faults w = [] \<Longrightarrow> faults w' = []"
  by (auto simp: fs_walk_def take_fault_none split: if_splits option.splits sum.splits node.splits)

lemma remove_calm_snd [simp]: "faults w = [] \<Longrightarrow> faults (snd (fs_remove p w)) = []"
  by (metis prod.collapse remove_calm)

lemma remove_all_calm_snd [simp]: "faults w = [] \<Longrightarrow> faults (snd (fs_remove_all p w)) = []"
  by (metis prod.collapse remove_all_calm)

lemma rename_calm_snd [simp]: "faults w = [] \<Longrightarrow> faults (snd (fs_rename a b w)) = []"
  by (metis prod.collapse rename_calm)

lemma symlink_calm_snd [simp]: "faults w = [] \<Longrightarrow> faults (snd (fs_symlink s p w)) = []"
  by (metis prod.collapse symlink_calm)

lemmas calm_lemmas =
  exists_calm
  is_directory_calm
  is_regular_file_calm
  create_directories_calm
  remove_calm
  remove_all_calm
  rename_calm
  copy_file_calm
  symlink_calm
  write_calm
  read_calm
  list_calm
  walk_calm

section \<open>Printed times\<close>

definition id_char :: "char \<Rightarrow> bool" where
  "id_char c \<longleftrightarrow>
     (48 \<le> (of_char c :: nat) \<and> (of_char c :: nat) \<le> 57) \<or> c = CHR ''-'' \<or> c = CHR ''_'' \<or>
     c \<in> set ''rel''"

lemma field_text_chars: "c \<in> set (field_text k i) \<Longrightarrow> id_char c"
  using padded_decimal [of "k - 1" "nat (- i)"] padded_decimal [of k "nat i"]
  by (auto simp: field_text_def is_decimal_def id_char_def split: if_splits)

lemma id_char_plain: "id_char c \<Longrightarrow> (of_char c :: nat) < 128 \<and> c \<noteq> CHR 0x00 \<and> c \<noteq> CHR ''/'' \<and> c \<noteq> CHR 0x5C"
  by (auto simp: id_char_def)

lemma field_text_plain [simp]: "plain_text (field_text k i)"
  using field_text_chars id_char_plain by (auto simp: plain_text_def is_ascii_def no_nul_def)

lemma iso_text_plain [simp]: "plain_text (iso_text t)"
  by (simp add: iso_text_def)

end
