(* ===== verification/Json.thy ===== *)
theory Json
  imports Prelude "HOL-Library.Countable"
begin

text \<open>
  \<open>boost::json\<close> values and the library the source calls on them.

  The value type is the library's: its six kinds, with the three number kinds apart because
  the source asks for \<open>is_int64 ()\<close> only. A number is its 64-bit pattern. An object is the
  sequence of its members in insertion order, which is how the library keeps it.

  Parsing, serialising and comparing are third-party code, so they are the fields of a record
  that every definition using them takes as an argument. What the source relies on is
  \<open>boost_json\<close>: text made by \<open>serialize\<close> parses back to the same value, where an unsigned
  number that fits a signed one comes back signed. It is claimed only for values the library
  documents this for: ASCII strings, distinct member names, no floating-point number and at
  most the parser's default nesting depth of 32. \<open>unary_json\<close> is a library that satisfies it.
\<close>

datatype json =
    JNull
  | JBool bool
  | JInt64 "64 word"
  | JUint64 "64 word"
  | JDouble "64 word"
  | JString string
  | JArray "json list"
  | JObject "(string \<times> json) list"

type_synonym json_object = "(string \<times> json) list"

record json_lib =
  parse_text :: "string \<Rightarrow> json expected"
  serialize_value :: "json \<Rightarrow> string"
  values_equal :: "json \<Rightarrow> json \<Rightarrow> bool"

section \<open>Typed access to the members of an object\<close>

text \<open>
  \<open>object.contains (key) && object.at (key).is_string ()\<close> followed by
  \<open>as_string ().c_str ()\<close>, and the same pattern at the other kinds.
\<close>

definition string_field :: "json_object \<Rightarrow> string \<Rightarrow> string option" where
  "string_field obj key =
     (case map_of obj key of Some (JString s) \<Rightarrow> Some (c_str s) | _ \<Rightarrow> None)"

definition int64_field :: "json_object \<Rightarrow> string \<Rightarrow> 64 word option" where
  "int64_field obj key = (case map_of obj key of Some (JInt64 n) \<Rightarrow> Some n | _ \<Rightarrow> None)"

definition bool_field :: "json_object \<Rightarrow> string \<Rightarrow> bool option" where
  "bool_field obj key = (case map_of obj key of Some (JBool b) \<Rightarrow> Some b | _ \<Rightarrow> None)"

definition array_field :: "json_object \<Rightarrow> string \<Rightarrow> json list option" where
  "array_field obj key = (case map_of obj key of Some (JArray xs) \<Rightarrow> Some xs | _ \<Rightarrow> None)"

definition object_field :: "json_object \<Rightarrow> string \<Rightarrow> json_object option" where
  "object_field obj key = (case map_of obj key of Some (JObject o') \<Rightarrow> Some o' | _ \<Rightarrow> None)"

lemmas field_defs =
  string_field_def int64_field_def bool_field_def array_field_def object_field_def

section \<open>What parsing a serialised value gives\<close>

primrec canon :: "json \<Rightarrow> json" where
  "canon JNull = JNull"
| "canon (JBool b) = JBool b"
| "canon (JInt64 n) = JInt64 n"
| "canon (JUint64 n) = (if unat n < 2 ^ 63 then JInt64 n else JUint64 n)"
| "canon (JDouble d) = JDouble d"
| "canon (JString s) = JString s"
| "canon (JArray xs) = JArray (map canon xs)"
| "canon (JObject kvs) = JObject (map (map_prod id canon) kvs)"

primrec json_plain :: "json \<Rightarrow> bool" where
  "json_plain JNull = True"
| "json_plain (JBool b) = True"
| "json_plain (JInt64 n) = True"
| "json_plain (JUint64 n) = True"
| "json_plain (JDouble d) = False"
| "json_plain (JString s) = is_ascii s"
| "json_plain (JArray xs) = (\<forall>b \<in> set (map json_plain xs). b)"
| "json_plain (JObject kvs) =
     (distinct (map fst kvs) \<and>
      (\<forall>kb \<in> set (map (map_prod id json_plain) kvs). is_ascii (fst kb) \<and> snd kb))"

primrec json_depth :: "json \<Rightarrow> nat" where
  "json_depth JNull = 0"
| "json_depth (JBool b) = 0"
| "json_depth (JInt64 n) = 0"
| "json_depth (JUint64 n) = 0"
| "json_depth (JDouble d) = 0"
| "json_depth (JString s) = 0"
| "json_depth (JArray xs) = Suc (fold max (map json_depth xs) 0)"
| "json_depth (JObject kvs) = Suc (fold max (map snd (map (map_prod id json_depth) kvs)) 0)"

definition boost_json :: "json_lib \<Rightarrow> bool" where
  "boost_json L \<longleftrightarrow>
     (\<forall>v. json_plain v \<longrightarrow> json_depth v \<le> 32 \<longrightarrow>
        parse_text L (serialize_value L v) = Inr (canon v))"

lemma boost_json_parse:
  "boost_json L \<Longrightarrow> json_plain v \<Longrightarrow> json_depth v \<le> 32 \<Longrightarrow>
     parse_text L (serialize_value L v) = Inr (canon v)"
  by (simp add: boost_json_def)

lemma canon_string_field:
  "string_field (map (map_prod id canon) obj) key = string_field obj key"
proof -
  have "map_of (map (map_prod id canon) obj) key = map_option canon (map_of obj key)"
    by (induction obj) auto
  moreover have "(case canon v of JString s \<Rightarrow> Some (c_str s) | _ \<Rightarrow> None) =
      (case v of JString s \<Rightarrow> Some (c_str s) | _ \<Rightarrow> None)" for v
    by (cases v) auto
  ultimately show ?thesis
    by (auto simp: string_field_def split: option.splits)
qed

section \<open>A library with that behaviour\<close>

instance json :: countable
  by countable_datatype

definition unary_json :: json_lib where
  "unary_json =
     \<lparr>parse_text = (\<lambda>s. Inr (canon (from_nat (length s)))),
      serialize_value = (\<lambda>v. replicate (to_nat v) CHR ''x''),
      values_equal = (=)\<rparr>"

lemma boost_json_unary: "boost_json unary_json"
  by (simp add: boost_json_def unary_json_def)

end
