(* ===== verification/ReleaseInstaller.thy ===== *)
theory ReleaseInstaller
  imports MachineFacts Json
begin

text \<open>
  \<open>RolloutKit/Install/ReleaseInstaller.cpp\<close>: the installed releases under
  \<open><service_root>/releases\<close> and the activation state in \<open><service_root>/state.json\<close>.

  The class keeps no state of its own beyond its options; everything it knows is on disk. Each
  member function is a definition from the options, the JSON library where it is used, and the
  machine, to a result and the machine after it. Errors are the source's messages.

  The \<open>++\<close> of the range \<open>for\<close> in \<open>sweep_retired\<close> throws on an I/O error instead of reporting an
  error code; that exception is outside the model, which lets that iteration succeed.
\<close>

record install_options =
  service_root :: string
  keep_previous_releases :: int

record activation_state =
  active :: string
  previous :: string
  updated_at :: string

definition kStagingPrefix :: string where "kStagingPrefix = ''.staging-''"

definition kRetiredPrefix :: string where "kRetiredPrefix = ''.retired-''"

definition is_internal_name :: "string \<Rightarrow> bool" where
  "is_internal_name name \<longleftrightarrow> starts_with kStagingPrefix name \<or> starts_with kRetiredPrefix name"

definition install_validate_release_id :: "string \<Rightarrow> unit expected" where
  "install_validate_release_id release_id =
     (if release_id = '''' then Inl ''release_id is required''
      else if contains_char (CHR ''/'') release_id \<or> contains_char (CHR 0x5C) release_id then
        Inl (''release_id must not contain a path separator: '' @ quoted release_id)
      else if release_id = ''.'' \<or> release_id = ''..'' \<or> is_internal_name release_id then
        Inl (''release_id must not be a path reference or an internal name: '' @ quoted release_id)
      else if length release_id \<ge> 2 \<and> release_id ! 1 = CHR '':'' then
        Inl (''release_id must not be a drive path: '' @ quoted release_id)
      else Inr ())"

definition relative_has_parent_reference :: "fpath \<Rightarrow> bool" where
  "relative_has_parent_reference relative \<longleftrightarrow> list_ex (\<lambda>element. element = ''..'') relative"

definition utc_now :: "'a machine_scheme \<Rightarrow> string" where
  "utc_now w = iso_text (gmtime (wall w))"

section \<open>Paths\<close>

definition releases_root :: "install_options \<Rightarrow> string" where
  "releases_root opts = path_append (service_root opts) ''releases''"

definition state_path :: "install_options \<Rightarrow> string" where
  "state_path opts = path_append (service_root opts) ''state.json''"

definition release_directory :: "install_options \<Rightarrow> string \<Rightarrow> string" where
  "release_directory opts release_id = path_append (releases_root opts) release_id"

definition retired_directory :: "install_options \<Rightarrow> string \<Rightarrow> string" where
  "retired_directory opts release_id = path_append (releases_root opts) (kRetiredPrefix @ release_id)"

definition staging_directory :: "install_options \<Rightarrow> string \<Rightarrow> string" where
  "staging_directory opts release_id = path_append (releases_root opts) (kStagingPrefix @ release_id)"

section \<open>The activation state\<close>

definition empty_activation :: activation_state where
  "empty_activation = \<lparr>active = '''', previous = '''', updated_at = ''''\<rparr>"

definition read_activation :: "json_object \<Rightarrow> activation_state" where
  "read_activation root =
     \<lparr>active = (case string_field root ''active'' of Some s \<Rightarrow> s | None \<Rightarrow> ''''),
      previous = (case string_field root ''previous'' of Some s \<Rightarrow> s | None \<Rightarrow> ''''),
      updated_at = (case string_field root ''updated_at'' of Some s \<Rightarrow> s | None \<Rightarrow> '''')\<rparr>"

definition installer_state ::
    "json_lib \<Rightarrow> install_options \<Rightarrow> 'a machine_scheme \<Rightarrow> activation_state expected \<times> 'a machine_scheme" where
  "installer_state L opts w =
     (case fs_exists (at w (state_path opts)) w of
        (False, w1) \<Rightarrow> (Inr empty_activation, w1)
      | (True, w1) \<Rightarrow>
          (case fs_read (at w1 (state_path opts)) w1 of
             (None, w2) \<Rightarrow> (Inl (''cannot open '' @ quoted (state_path opts)), w2)
           | (Some text, w2) \<Rightarrow>
               (case parse_text L text of
                  Inl e \<Rightarrow> (Inl (''cannot parse '' @ quoted (state_path opts) @ '': '' @ e), w2)
                | Inr (JObject root) \<Rightarrow> (Inr (read_activation root), w2)
                | Inr _ \<Rightarrow> (Inl (quoted (state_path opts) @ '' root is not a JSON object''), w2))))"

definition activation_json :: "activation_state \<Rightarrow> json" where
  "activation_json next =
     JObject [(''active'', JString (active next)), (''previous'', JString (previous next)),
              (''updated_at'', JString (updated_at next))]"

definition write_state ::
    "json_lib \<Rightarrow> install_options \<Rightarrow> activation_state \<Rightarrow> 'a machine_scheme \<Rightarrow>
       unit expected \<times> 'a machine_scheme" where
  "write_state L opts next w =
     (case fs_create_directories (at w (service_root opts)) w of
        (Inl e, w1) \<Rightarrow> (Inl (''cannot create '' @ quoted (service_root opts) @ '': '' @ e), w1)
      | (Inr _, w1) \<Rightarrow>
          let temporary = state_path opts @ ''.tmp'' in
          (case fs_write (at w1 temporary) (serialize_value L (activation_json next)) w1 of
             (NotOpened, w2) \<Rightarrow> (Inl (''cannot write '' @ quoted temporary), w2)
           | (NotWritten, w2) \<Rightarrow> (Inl (''cannot write '' @ quoted temporary), w2)
           | (Written, w2) \<Rightarrow>
               (case fs_rename (at w2 temporary) (at w2 (state_path opts)) w2 of
                  (Inl e, w3) \<Rightarrow>
                    (Inl (''cannot publish '' @ quoted (state_path opts) @ '': '' @ e),
                     snd (fs_remove (at w3 temporary) w3))
                | (Inr _, w3) \<Rightarrow> (Inr (), w3))))"

definition refresh_current_link ::
    "install_options \<Rightarrow> string \<Rightarrow> 'a machine_scheme \<Rightarrow> 'a machine_scheme" where
  "refresh_current_link opts release_id w =
     (let link = path_append (service_root opts) ''current'';
          w1 = snd (fs_remove (at w link) w)
      in snd (fs_symlink (path_append ''releases'' release_id) (at w1 link) w1))"

section \<open>Installing\<close>

definition place_entry ::
    "fpath \<Rightarrow> fpath \<Rightarrow> fpath \<Rightarrow> 32 word \<Rightarrow> 'a machine_scheme \<Rightarrow> 32 word expected \<times> 'a machine_scheme" where
  "place_entry source staging relative copied w =
     (let destination = staging @ relative in
      if lookup (files w) (source @ relative) = Some Directory then
        (case fs_create_directories destination w of
           (Inl e, w1) \<Rightarrow> (Inl e, w1)
         | (Inr _, w1) \<Rightarrow> (Inr copied, w1))
      else
        (case fs_create_directories (butlast destination) w of
           (Inl e, w1) \<Rightarrow> (Inl e, w1)
         | (Inr _, w1) \<Rightarrow>
             (case fs_copy_file (source @ relative) destination w1 of
                (Inl e, w2) \<Rightarrow> (Inl e, w2)
              | (Inr _, w2) \<Rightarrow> (Inr (copied + 1), w2))))"

text \<open>
  The copy loop over the entries the recursive iterator delivers, as positions relative to the
  source. \<open>std::filesystem::relative\<close> and the increment of the iterator can fail like any call.
\<close>

fun copy_entries ::
    "string \<Rightarrow> fpath \<Rightarrow> fpath \<Rightarrow> fpath list \<Rightarrow> 32 word \<Rightarrow> 'a machine_scheme \<Rightarrow>
       32 word expected \<times> 'a machine_scheme" where
  "copy_entries source_directory source staging [] copied w = (Inr copied, w)"
| "copy_entries source_directory source staging (relative # rest) copied w =
     (case take_fault w of
        (Some f, w1) \<Rightarrow>
          (Inl (''cannot resolve '' @ quoted (path_append source_directory (path_text relative)) @
                '': '' @ reason f), w1)
      | (None, w1) \<Rightarrow>
          if relative_has_parent_reference relative then
            (Inl (''release file escapes the install root: '' @ quoted (path_text relative)), w1)
          else
            (case place_entry source staging relative copied w1 of
               (Inl e, w2) \<Rightarrow>
                 (Inl (''cannot place '' @ quoted (path_text relative) @ '': '' @ e), w2)
             | (Inr copied', w2) \<Rightarrow>
                 (case take_fault w2 of
                    (Some f, w3) \<Rightarrow>
                      (Inl (''cannot walk '' @ quoted source_directory @ '': '' @ reason f), w3)
                  | (None, w3) \<Rightarrow> copy_entries source_directory source staging rest copied' w3)))"

fun remove_each :: "fpath list \<Rightarrow> 'a machine_scheme \<Rightarrow> 'a machine_scheme" where
  "remove_each [] w = w"
| "remove_each (p # ps) w = remove_each ps (snd (fs_remove_all p w))"

definition sweep_retired :: "install_options \<Rightarrow> 'a machine_scheme \<Rightarrow> 'a machine_scheme" where
  "sweep_retired opts w =
     (case fs_list (at w (releases_root opts)) w of
        (Inl e, w1) \<Rightarrow> w1
      | (Inr names, w1) \<Rightarrow>
          remove_each
            (map (\<lambda>name. at w1 (releases_root opts) @ [name]) (filter (starts_with kRetiredPrefix) names))
            w1)"

text \<open>
  \<open>set_aside\<close> is the \<open>if (replacing)\<close> block of \<open>publish_staging\<close>; \<open>clean_up\<close> what follows the
  publishing rename.
\<close>

definition set_aside ::
    "install_options \<Rightarrow> string \<Rightarrow> 'a machine_scheme \<Rightarrow> unit expected \<times> 'a machine_scheme" where
  "set_aside opts release_id w =
     (let target = release_directory opts release_id; retired = retired_directory opts release_id in
      case fs_remove_all (at w retired) w of
        (Inl e, w1) \<Rightarrow> (Inl (''cannot clear '' @ quoted retired @ '': '' @ e), w1)
      | (Inr _, w1) \<Rightarrow>
          (case fs_rename (at w1 target) (at w1 retired) w1 of
             (Inl e, w2) \<Rightarrow> (Inl (''cannot set '' @ quoted target @ '' aside: '' @ e), w2)
           | (Inr _, w2) \<Rightarrow> (Inr (), w2)))"

definition clean_up :: "install_options \<Rightarrow> string \<Rightarrow> 'a machine_scheme \<Rightarrow> 'a machine_scheme" where
  "clean_up opts release_id w =
     (let retired = retired_directory opts release_id in
      case fs_remove_all (at w retired) w of
        (Inr _, w1) \<Rightarrow> w1
      | (Inl e, w1) \<Rightarrow>
          snd (fs_rename (at w1 retired) (at w1 (retired @ ''.'' @ int_text (steady w1 * 1000000))) w1))"

definition publish_staging ::
    "install_options \<Rightarrow> string \<Rightarrow> string \<Rightarrow> 'a machine_scheme \<Rightarrow> unit expected \<times> 'a machine_scheme" where
  "publish_staging opts staging release_id w =
     (let target = release_directory opts release_id; retired = retired_directory opts release_id;
          w1 = sweep_retired opts w in
      case fs_exists (at w1 target) w1 of
        (replacing, w2) \<Rightarrow>
          (case (if replacing then set_aside opts release_id w2 else (Inr (), w2)) of
             (Inl e, w3) \<Rightarrow> (Inl e, w3)
           | (Inr _, w3) \<Rightarrow>
               (case fs_rename (at w3 staging) (at w3 target) w3 of
                  (Inr _, w4) \<Rightarrow> (Inr (), clean_up opts release_id w4)
                | (Inl e, w4) \<Rightarrow>
                    if \<not> replacing then (Inl (''cannot publish '' @ quoted target @ '': '' @ e), w4)
                    else
                      (case fs_rename (at w4 retired) (at w4 target) w4 of
                         (Inr _, w5) \<Rightarrow> (Inl (''cannot publish '' @ quoted target @ '': '' @ e), w5)
                       | (Inl restore, w5) \<Rightarrow>
                           (Inl (''cannot publish '' @ quoted target @ '': '' @ e @
                                 '' (the release it replaces is left at '' @ quoted retired @ '')''),
                            w5)))))"

definition discard :: "string \<Rightarrow> 'a machine_scheme \<Rightarrow> 'a machine_scheme" where
  "discard staging w = snd (fs_remove_all (at w staging) w)"

definition install ::
    "install_options \<Rightarrow> string \<Rightarrow> string \<Rightarrow> 'a machine_scheme \<Rightarrow> unit expected \<times> 'a machine_scheme" where
  "install opts release_id source_directory w =
     (if service_root opts = '''' then (Inl ''service_root is not configured'', w)
      else (case install_validate_release_id release_id of
        Inl e \<Rightarrow> (Inl e, w)
      | Inr _ \<Rightarrow>
          (case fs_is_directory (at w source_directory) w of
             (False, w1) \<Rightarrow>
               (Inl (''release '' @ quoted release_id @ '' is not downloaded (expected '' @
                     quoted source_directory @ '')''), w1)
           | (True, w1) \<Rightarrow>
               let staging = staging_directory opts release_id;
                   w2 = snd (fs_remove_all (at w1 staging) w1) in
               (case fs_create_directories (at w2 staging) w2 of
                  (Inl e, w3) \<Rightarrow>
                    (Inl (''cannot create staging directory '' @ quoted staging @ '': '' @ e), w3)
                | (Inr _, w3) \<Rightarrow>
                    (case fs_walk (at w3 source_directory) w3 of
                       (Inl e, w4) \<Rightarrow>
                         (Inl (''cannot list '' @ quoted source_directory @ '': '' @ e),
                          discard staging w4)
                     | (Inr entries, w4) \<Rightarrow>
                         (case copy_entries source_directory (at w4 source_directory) (at w4 staging)
                                 entries 0 w4 of
                            (Inl e, w5) \<Rightarrow> (Inl e, discard staging w5)
                          | (Inr copied, w5) \<Rightarrow>
                              if copied = 0 then
                                (Inl (''release '' @ quoted release_id @ '' has no files to install''),
                                 discard staging w5)
                              else
                                (case publish_staging opts staging release_id w5 of
                                   (Inl e, w6) \<Rightarrow> (Inl e, discard staging w6)
                                 | (Inr _, w6) \<Rightarrow> (Inr (), w6))))))))"

section \<open>Activating, rolling back\<close>

definition activate ::
    "json_lib \<Rightarrow> install_options \<Rightarrow> string \<Rightarrow> 'a machine_scheme \<Rightarrow> unit expected \<times> 'a machine_scheme" where
  "activate L opts release_id w =
     (case install_validate_release_id release_id of
        Inl e \<Rightarrow> (Inl e, w)
      | Inr _ \<Rightarrow>
          (case fs_is_directory (at w (release_directory opts release_id)) w of
             (False, w1) \<Rightarrow>
               (Inl (''release '' @ quoted release_id @ '' is not installed (expected '' @
                     quoted (release_directory opts release_id) @ '')''), w1)
           | (True, w1) \<Rightarrow>
               (case installer_state L opts w1 of
                  (Inl e, w2) \<Rightarrow> (Inl e, w2)
                | (Inr current, w2) \<Rightarrow>
                    let next = \<lparr>active = release_id,
                                previous = (if active current = release_id then previous current
                                            else active current),
                                updated_at = utc_now w2\<rparr> in
                    (case write_state L opts next w2 of
                       (Inl e, w3) \<Rightarrow> (Inl e, w3)
                     | (Inr _, w3) \<Rightarrow> (Inr (), refresh_current_link opts release_id w3)))))"

definition rollback ::
    "json_lib \<Rightarrow> install_options \<Rightarrow> 'a machine_scheme \<Rightarrow> string expected \<times> 'a machine_scheme" where
  "rollback L opts w =
     (case installer_state L opts w of
        (Inl e, w1) \<Rightarrow> (Inl e, w1)
      | (Inr current, w1) \<Rightarrow>
          if previous current = '''' then (Inl ''no previous release to roll back to'', w1)
          else
            let target = previous current in
            (case fs_is_directory (at w1 (release_directory opts target)) w1 of
               (False, w2) \<Rightarrow>
                 (Inl (''previous release '' @ quoted target @ '' is no longer installed''), w2)
             | (True, w2) \<Rightarrow>
                 let next = \<lparr>active = target, previous = active current, updated_at = utc_now w2\<rparr> in
                 (case write_state L opts next w2 of
                    (Inl e, w3) \<Rightarrow> (Inl e, w3)
                  | (Inr _, w3) \<Rightarrow> (Inr target, refresh_current_link opts target w3))))"

section \<open>Listing and pruning\<close>

fun collect_installed ::
    "install_options \<Rightarrow> string list \<Rightarrow> (int \<times> string) list \<Rightarrow> 'a machine_scheme \<Rightarrow>
       (int \<times> string) list expected \<times> 'a machine_scheme" where
  "collect_installed opts [] found w = (Inr found, w)"
| "collect_installed opts (name # names) found w =
     (let p = at w (releases_root opts) @ [name];
          found' =
            (if lookup (files w) p = Some Directory \<and> \<not> is_internal_name name
             then found @ [(case fs_last_write_time p w of Some t \<Rightarrow> t | None \<Rightarrow> 0, name)]
             else found)
      in case take_fault w of
           (Some f, w1) \<Rightarrow>
             (Inl (''cannot walk '' @ quoted (releases_root opts) @ '': '' @ reason f), w1)
         | (None, w1) \<Rightarrow> collect_installed opts names found' w1)"

definition installed ::
    "install_options \<Rightarrow> 'a machine_scheme \<Rightarrow> string list expected \<times> 'a machine_scheme" where
  "installed opts w =
     (case fs_is_directory (at w (releases_root opts)) w of
        (False, w1) \<Rightarrow> (Inr [], w1)
      | (True, w1) \<Rightarrow>
          (case fs_list (at w1 (releases_root opts)) w1 of
             (Inl e, w2) \<Rightarrow> (Inl (''cannot list '' @ quoted (releases_root opts) @ '': '' @ e), w2)
           | (Inr names, w2) \<Rightarrow>
               (case collect_installed opts names [] w2 of
                  (Inl e, w3) \<Rightarrow> (Inl e, w3)
                | (Inr found, w3) \<Rightarrow> (Inr (map snd (sort_key (\<lambda>e. - fst e) found)), w3))))"

fun prune_loop ::
    "install_options \<Rightarrow> activation_state \<Rightarrow> int \<Rightarrow> string list \<Rightarrow> int \<Rightarrow> 32 word \<Rightarrow> 'a machine_scheme \<Rightarrow>
       32 word expected \<times> 'a machine_scheme" where
  "prune_loop opts current keep [] retained removed w = (Inr removed, w)"
| "prune_loop opts current keep (name # names) retained removed w =
     (if name = active current \<or> name = previous current then
        prune_loop opts current keep names retained removed w
      else if retained < keep then
        prune_loop opts current keep names (retained + 1) removed w
      else
        (case fs_remove_all (at w (release_directory opts name)) w of
           (Inl e, w1) \<Rightarrow>
             (Inl (''cannot remove '' @ quoted (release_directory opts name) @ '': '' @ e), w1)
         | (Inr _, w1) \<Rightarrow> prune_loop opts current keep names retained (removed + 1) w1))"

definition prune ::
    "json_lib \<Rightarrow> install_options \<Rightarrow> 'a machine_scheme \<Rightarrow> 32 word expected \<times> 'a machine_scheme" where
  "prune L opts w =
     (case installer_state L opts w of
        (Inl e, w1) \<Rightarrow> (Inl e, w1)
      | (Inr current, w1) \<Rightarrow>
          (case installed opts w1 of
             (Inl e, w2) \<Rightarrow> (Inl e, w2)
           | (Inr releases, w2) \<Rightarrow>
               let keep = (if keep_previous_releases opts < 0 then 0 else keep_previous_releases opts) in
               prune_loop opts current keep releases 0 0 w2))"

section \<open>An example device\<close>

text \<open>Releases \<open>v0\<close> and \<open>v1\<close> are installed, a new build of \<open>v1\<close> is downloaded.\<close>

definition served_options :: install_options where
  "served_options = \<lparr>service_root = ''/srv'', keep_previous_releases = 1\<rparr>"

definition served_machine :: machine where
  "served_machine = blank_machine\<lparr>files :=
     [([''srv''], Directory), ([''srv'', ''releases''], Directory),
      ([''srv'', ''releases'', ''v1''], Directory),
      ([''srv'', ''releases'', ''v1'', ''app''], File ''one'' 493),
      ([''srv'', ''releases'', ''v0''], Directory),
      ([''dl''], Directory), ([''dl'', ''v1''], Directory),
      ([''dl'', ''v1'', ''app''], File ''two'' 493), ([''dl'', ''v1'', ''etc''], Directory),
      ([''dl'', ''v1'', ''etc'', ''conf''], File ''c'' 420)]\<rparr>"

definition io_error :: "fault option" where
  "io_error = Some \<lparr>reason = ''Input/output error'', survivors = [], torn = None\<rparr>"

text \<open>A library that writes every value as an empty object and parses nothing.\<close>

definition blunt_json :: json_lib where
  "blunt_json = \<lparr>parse_text = (\<lambda>s. Inl ''syntax error''), serialize_value = (\<lambda>v. ''{}''),
     values_equal = (=)\<rparr>"

end
