(* ===== verification/InstallerFacts.thy ===== *)
theory InstallerFacts
  imports ReleaseInstaller
begin

text \<open>
  What \<open>ReleaseInstaller\<close> guarantees. With \<open>root\<close> the position of the service root:

  \<^item> \<open>write_state_effect\<close>: whatever fails, \<open>state.json\<close> holds the old or the whole new document.
  \<^item> activating and rolling back, and reading the state back afterwards;
  \<^item> installing: what it may touch, what a failure leaves, what a success produces;
  \<^item> pruning: what it may remove.
\<close>

section \<open>Positions\<close>

abbreviation root_at :: "'a machine_scheme \<Rightarrow> install_options \<Rightarrow> fpath" where
  "root_at w opts \<equiv> at w (service_root opts)"

abbreviation releases_at :: "'a machine_scheme \<Rightarrow> install_options \<Rightarrow> fpath" where
  "releases_at w opts \<equiv> root_at w opts @ [''releases'']"

lemma path_append_suffix: "q \<noteq> '''' \<Longrightarrow> path_append p q @ s = path_append p (q @ s)"
  by (simp add: path_append_def)

lemma at_releases_root [simp]: "at w (releases_root opts) = releases_at w opts"
  by (simp add: at_def releases_root_def locate_child plain_name_def contains_char_def)

lemma at_state_path [simp]: "at w (state_path opts) = root_at w opts @ [''state.json'']"
  by (simp add: at_def state_path_def locate_child plain_name_def contains_char_def)

lemma at_state_temporary [simp]:
  "at w (state_path opts @ ''.tmp'') = root_at w opts @ [''state.json.tmp'']"
  by (simp add: at_def state_path_def path_append_suffix locate_child plain_name_def
      contains_char_def)

lemma at_current [simp]:
  "at w (path_append (service_root opts) ''current'') = root_at w opts @ [''current'']"
  by (simp add: at_def locate_child plain_name_def contains_char_def)

lemma at_child: "plain_name c \<Longrightarrow> at w (path_append p c) = at w p @ [c]"
  by (simp add: at_def locate_child)

lemma accepted_id:
  assumes "install_validate_release_id release_id = Inr u"
  shows "plain_name release_id" "\<not> is_internal_name release_id"
  using assms
  by (auto simp: install_validate_release_id_def plain_name_def split: if_splits)

lemma internal_plain:
  assumes "install_validate_release_id release_id = Inr u"
  shows "plain_name (kStagingPrefix @ release_id)" "plain_name (kRetiredPrefix @ release_id)"
  using accepted_id [OF assms]
  by (auto simp: plain_name_def contains_char_def kStagingPrefix_def kRetiredPrefix_def)

lemma at_release:
  assumes "install_validate_release_id release_id = Inr u"
  shows "at w (release_directory opts release_id) = releases_at w opts @ [release_id]"
    and "at w (staging_directory opts release_id) = releases_at w opts @ [kStagingPrefix @ release_id]"
    and "at w (retired_directory opts release_id) = releases_at w opts @ [kRetiredPrefix @ release_id]"
  using accepted_id(1) [OF assms] internal_plain [OF assms]
  by (simp_all add: release_directory_def staging_directory_def retired_directory_def at_child)

section \<open>Writing the state\<close>

definition state_text :: "json_lib \<Rightarrow> activation_state \<Rightarrow> string" where
  "state_text L s = serialize_value L (activation_json s)"

definition state_region :: "fpath \<Rightarrow> fpath \<Rightarrow> bool" where
  "state_region root q \<longleftrightarrow>
     prefix q root \<or> prefix (root @ [''state.json'']) q \<or> prefix (root @ [''state.json.tmp'']) q"

lemma write_publishes:
  assumes "fs_write p s w = (Written, w')"
  shows "\<exists>m. lookup (files w') p = Some (File s m)"
  using assms
  by (auto simp: fs_write_def writable_def lookup_put_node split: prod.splits if_splits option.splits)

lemma rename_publishes:
  assumes "fs_rename a b w = (Inr u, w')" "a \<noteq> b"
  shows "lookup (files w') q =
    (if prefix b q then lookup (files w) (a @ drop (length b) q)
     else if prefix a q then None else lookup (files w) q)"
proof -
  obtain w1 where t: "take_fault w = (None, w1)" and r: "rename_tree a b (files w1) = Inr (files w')"
    using assms(1) by (auto simp: fs_rename_def split: prod.splits option.splits sum.splits)
  have f: "files w1 = files w" using take_fault_reads [OF t] by simp
  from rename_tree_cases [OF r] assms(2) show ?thesis
    by (auto simp: f lookup_move_tree)
qed

lemma rename_failed: "fs_rename a b w = (Inl e, w') \<Longrightarrow> reads w w'"
  by (auto simp: fs_rename_def dest: take_fault_reads split: prod.splits option.splits sum.splits)

lemma write_state_step:
  assumes "write_state L opts next w = (r, w')"
  shows "step_in (state_region (root_at w opts)) w w'"
proof -
  let ?R = "state_region (root_at w opts)"
  have mk: "step_in ?R w w1" if "fs_create_directories (root_at w opts) w = (x, w1)" for x w1
    using step_in_mono [OF create_directories_step [OF that]] by (simp add: state_region_def)
  have wr: "step_in ?R w1 w2" if "fs_write (root_at w opts @ [''state.json.tmp'']) s w1 = (x, w2)"
    for w1 w2 x s
    using step_in_mono [OF write_step [OF that], of ?R] by (simp add: state_region_def)
  have mv: "step_in ?R w2 w3"
    if "fs_rename (root_at w opts @ [''state.json.tmp'']) (root_at w opts @ [''state.json'']) w2 = (x, w3)"
    for w2 w3 x
    using step_in_mono [OF rename_step [OF that], of ?R] by (auto simp: state_region_def)
  have rm: "step_in ?R w3 w4" if "fs_remove (root_at w opts @ [''state.json.tmp'']) w3 = (x, w4)"
    for w3 w4 x
    using step_in_mono [OF remove_step [OF that], of ?R] by (auto simp: state_region_def)
  obtain x1 w1 where c: "fs_create_directories (root_at w opts) w = (x1, w1)" by fastforce
  note s1 = mk [OF c]
  obtain x2 w2 where c2:
    "fs_write (root_at w opts @ [''state.json.tmp'']) (serialize_value L (activation_json next)) w1 = (x2, w2)"
    by fastforce
  note s2 = step_in_trans [OF s1 wr [OF c2]]
  obtain x3 w3 where c3:
    "fs_rename (root_at w opts @ [''state.json.tmp'']) (root_at w opts @ [''state.json'']) w2 = (x3, w3)"
    by fastforce
  note s3 = step_in_trans [OF s2 mv [OF c3]]
  obtain x4 w4 where c4: "fs_remove (root_at w opts @ [''state.json.tmp'']) w3 = (x4, w4)" by fastforce
  note s4 = step_in_trans [OF s3 rm [OF c4]]
  show ?thesis
    using assms c c2 c3 c4 s1 s2 s3 s4
    by (auto simp: write_state_def Let_def split: sum.splits write_result.splits)
qed

lemma write_state_effect:
  assumes "write_state L opts next w = (r, w')"
  defines "P \<equiv> root_at w opts @ [''state.json'']"
  shows "case r of
      Inl e \<Rightarrow> lookup (files w') P = lookup (files w) P
    | Inr u \<Rightarrow> \<exists>m. lookup (files w') P = Some (File (state_text L next) m)"
proof -
  let ?T = "root_at w opts @ [''state.json.tmp'']"
  obtain x1 w1 where c: "fs_create_directories (root_at w opts) w = (x1, w1)" by fastforce
  note s1 = create_directories_step [OF c]
  obtain x2 w2 where c2: "fs_write ?T (serialize_value L (activation_json next)) w1 = (x2, w2)"
    by fastforce
  note s2 = write_step [OF c2]
  obtain x3 w3 where c3: "fs_rename ?T P w2 = (x3, w3)" by fastforce
  obtain x4 w4 where c4: "fs_remove ?T w3 = (x4, w4)" by fastforce
  have l1: "lookup (files w1) P = lookup (files w) P"
    using step_in_lookup [OF s1] by (simp add: P_def)
  have l2: "lookup (files w2) P = lookup (files w) P"
    using step_in_lookup [OF s2, of P] l1 by (simp add: P_def)
  have l4: "lookup (files w4) P = lookup (files w) P" if "x3 = Inl e" for e
    using step_in_lookup [OF remove_step [OF c4], of P] rename_failed [of ?T P w2] c3 that l2
    by (simp add: P_def)
  have l3: "\<exists>m. lookup (files w3) P = Some (File (state_text L next) m)"
    if "x2 = Written" "x3 = Inr u" for u
    using rename_publishes [of ?T P w2 u w3 P] write_publishes [of ?T _ w1 w2] c2 c3 that
    by (simp add: P_def state_text_def)
  have e: "at w1 s = at w s" "at w2 s = at w s" "at w3 s = at w s" for s
    using step_in_at [OF s1] step_in_at [OF s2] step_in_at [OF rename_step [OF c3]] by simp_all
  show ?thesis
    using assms(1) c c2 c3 c4 l1 l2 l3 l4
    by (auto simp: write_state_def Let_def P_def e
        split: sum.splits write_result.splits)
qed

section \<open>Reading the state\<close>

definition stored_state ::
    "json_lib \<Rightarrow> install_options \<Rightarrow> 'a machine_scheme \<Rightarrow> activation_state expected" where
  "stored_state L opts w = fst (installer_state L opts (w\<lparr>faults := []\<rparr>))"

definition plain_state :: "activation_state \<Rightarrow> bool" where
  "plain_state s \<longleftrightarrow> plain_text (active s) \<and> plain_text (previous s) \<and> plain_text (updated_at s)"

lemma installer_state_reads: "installer_state L opts w = (r, w') \<Longrightarrow> reads w w'"
  by (auto simp: installer_state_def dest!: exists_reads read_reads intro: reads_trans
      split: prod.splits bool.splits option.splits sum.splits json.splits)

lemma installer_state_calm:
  assumes "faults w = []"
  shows "installer_state L opts w = (stored_state L opts w, w)"
proof -
  have e: "w\<lparr>faults := []\<rparr> = w" using assms by (cases w) simp
  obtain r w' where i: "installer_state L opts w = (r, w')" by fastforce
  have "faults w' = []"
    using i assms
    by (auto simp: installer_state_def dest!: exists_calm read_calm
        split: prod.splits bool.splits option.splits sum.splits json.splits)
  then have "w' = w" using installer_state_reads [OF i] assms by (cases w; cases w') (simp add: reads_def)
  then show ?thesis using i by (simp add: stored_state_def e)
qed

lemma read_activation_plain:
  "plain_state s \<Longrightarrow> read_activation [(''active'', JString (active s)),
      (''previous'', JString (previous s)), (''updated_at'', JString (updated_at s))] = s"
  by (cases s) (simp add: read_activation_def string_field_def plain_state_def)

lemma parse_state_text:
  assumes "boost_json L" "plain_state s"
  shows "parse_text L (state_text L s) = Inr (activation_json s)"
proof -
  have "json_plain (activation_json s)" "json_depth (activation_json s) \<le> 32"
    using assms(2) by (simp_all add: activation_json_def plain_state_def plain_text_def is_ascii_def)
  then have "parse_text L (state_text L s) = Inr (canon (activation_json s))"
    using boost_json_parse [OF assms(1)] by (simp add: state_text_def)
  then show ?thesis by (simp add: activation_json_def)
qed

lemma stored_state_file:
  assumes "boost_json L" "plain_state s"
    and "lookup (files w) (root_at w opts @ [''state.json'']) = Some (File (state_text L s) m)"
  shows "stored_state L opts w = Inr s"
proof -
  have a: "at (w\<lparr>faults := []\<rparr>) p = at w p" for p by (simp add: at_def)
  have "parse_text L (state_text L s) = Inr (activation_json s)"
    by (rule parse_state_text [OF assms(1,2)])
  then show ?thesis
    using assms(3) read_activation_plain [OF assms(2)]
    by (simp add: stored_state_def installer_state_def fs_exists_def fs_read_def take_fault_none a
        activation_json_def)
qed

lemma stored_state_file_exists:
  assumes "stored_state L opts w = Inr s" "s \<noteq> empty_activation"
  shows "lookup (files w) (root_at w opts @ [''state.json'']) \<noteq> None"
proof -
  have a: "at (w\<lparr>faults := []\<rparr>) p = at w p" for p by (simp add: at_def)
  show ?thesis
    using assms
    by (auto simp: stored_state_def installer_state_def fs_exists_def take_fault_none a
        split: if_splits bool.splits)
qed

section \<open>Activating and rolling back\<close>

lemma refresh_current_link_step:
  "step_in (prefix (root_at w opts @ [''current''])) w (refresh_current_link opts release_id w)"
proof -
  let ?l = "root_at w opts @ [''current'']"
  obtain x w1 where r: "fs_remove ?l w = (x, w1)" by fastforce
  note s1 = remove_step [OF r]
  obtain y w2 where l: "fs_symlink (path_append ''releases'' release_id) ?l w1 = (y, w2)" by fastforce
  have s2: "step_in (prefix ?l) w1 w2" using step_in_mono [OF symlink_step [OF l]] by simp
  show ?thesis
    using step_in_trans [OF s1 s2] r l step_in_at [OF s1]
    by (simp add: refresh_current_link_def Let_def)
qed

definition activation_region :: "fpath \<Rightarrow> fpath \<Rightarrow> bool" where
  "activation_region root q \<longleftrightarrow> state_region root q \<or> prefix (root @ [''current'']) q"

text \<open>The tail that \<open>activate\<close> and \<open>rollback\<close> share: write the state, then move the link.\<close>

lemma write_then_link:
  assumes w: "write_state L opts next w = (r, w1)"
    and r: "w' = (case r of Inl e \<Rightarrow> w1 | Inr u \<Rightarrow> refresh_current_link opts release_id w1)"
  defines "P \<equiv> root_at w opts @ [''state.json'']"
  shows "step_in (activation_region (root_at w opts)) w w' \<and>
    (case r of
       Inl e \<Rightarrow> lookup (files w') P = lookup (files w) P
     | Inr u \<Rightarrow> \<exists>m. lookup (files w') P = Some (File (state_text L next) m))"
proof -
  let ?R = "activation_region (root_at w opts)"
  note s1 = write_state_step [OF w]
  have s1': "step_in ?R w w1" using step_in_mono [OF s1] by (simp add: activation_region_def)
  note s2 = refresh_current_link_step [of w1 opts release_id]
  have s2': "step_in ?R w1 (refresh_current_link opts release_id w1)"
    using step_in_mono [OF s2, of ?R] step_in_at [OF s1] by (simp add: activation_region_def)
  have "lookup (files (refresh_current_link opts release_id w1)) P = lookup (files w1) P"
    using step_in_lookup [OF s2, of P] step_in_at [OF s1] by (simp add: P_def)
  then show ?thesis
    using write_state_effect [OF w] r step_in_trans [OF s1' s2'] s1'
    by (auto simp: P_def split: sum.splits)
qed

definition next_activation :: "string \<Rightarrow> activation_state \<Rightarrow> string \<Rightarrow> activation_state" where
  "next_activation release_id current now =
     \<lparr>active = release_id,
      previous = (if active current = release_id then previous current else active current),
      updated_at = now\<rparr>"

lemma activate_cases:
  assumes "activate L opts release_id w = (r, w')"
  obtains
    (refused) e where "r = Inl e" "reads w w'"
  | (attempted) current w1 w2 x w3 where
      "install_validate_release_id release_id = Inr ()"
      "reads w w1" "installer_state L opts w1 = (Inr current, w2)" "reads w w2"
      "write_state L opts (next_activation release_id current (utc_now w2)) w2 = (x, w3)"
      "r = x" "w' = (case x of Inl e \<Rightarrow> w3 | Inr u \<Rightarrow> refresh_current_link opts release_id w3)"
proof (cases "install_validate_release_id release_id")
  case (Inl e)
  then show ?thesis using assms refused [of e] by (simp add: activate_def)
next
  case (Inr u)
  obtain b w1 where d: "fs_is_directory (at w (release_directory opts release_id)) w = (b, w1)"
    by fastforce
  note r1 = is_directory_reads [OF d]
  obtain y w2 where i: "installer_state L opts w1 = (y, w2)" by fastforce
  note r2 = reads_trans [OF r1 installer_state_reads [OF i]]
  show ?thesis
  proof (cases "b \<and> is_ok y")
    case True
    then obtain current where y: "y = Inr current" by (cases y) auto
    obtain x w3 where
      w: "write_state L opts (next_activation release_id current (utc_now w2)) w2 = (x, w3)"
      by fastforce
    show ?thesis
      using assms d i r1 r2 w True Inr y
      by (intro attempted [of w1 current w2 x w3])
        (auto simp: activate_def Let_def next_activation_def split: sum.splits)
  next
    case False
    then have "\<exists>e. r = Inl e \<and> reads w w'"
      using assms d i r1 r2 Inr by (cases b; cases y) (auto simp: activate_def)
    then show ?thesis using refused by blast
  qed
qed

text \<open>
  C16: Activation is atomic, whatever call fails: \<open>activate\<close> either fails and leaves
  \<open>state.json\<close> exactly as it was, or succeeds with \<open>state.json\<close> holding the whole new document,
  in which the requested release is the active one. In both cases it touches nothing but
  \<open>state.json\<close>, its temporary file and the \<open>current\<close> link (and the missing ancestors of the
  service root); in particular no installed release changes.
\<close>

theorem activate_atomic:
  assumes "activate L opts release_id w = (r, w')"
  shows "(case r of
      Inl e \<Rightarrow> lookup (files w') (root_at w opts @ [''state.json'']) =
                 lookup (files w) (root_at w opts @ [''state.json''])
    | Inr u \<Rightarrow> \<exists>s m. active s = release_id \<and>
        lookup (files w') (root_at w opts @ [''state.json'']) =
          Some (File (serialize_value L (activation_json s)) m)) \<and>
    (\<forall>q. \<not> prefix q (root_at w opts) \<longrightarrow> \<not> prefix (root_at w opts @ [''state.json'']) q \<longrightarrow>
       \<not> prefix (root_at w opts @ [''state.json.tmp'']) q \<longrightarrow>
       \<not> prefix (root_at w opts @ [''current'']) q \<longrightarrow>
       lookup (files w') q = lookup (files w) q)"
  using assms
proof (cases rule: activate_cases)
  case (refused e)
  then show ?thesis by simp
next
  case (attempted current w1 w2 x w3)
  have t: "step_in (activation_region (root_at w opts)) w2 w'"
    "case r of
       Inl e \<Rightarrow> lookup (files w') (root_at w opts @ [''state.json'']) =
                 lookup (files w) (root_at w opts @ [''state.json''])
     | Inr u \<Rightarrow> \<exists>m. lookup (files w') (root_at w opts @ [''state.json'']) =
          Some (File (state_text L (next_activation release_id current (utc_now w2))) m)"
    using write_then_link [OF attempted(5,7)] attempted(4,6) by (auto split: sum.splits)
  have "active (next_activation release_id current (utc_now w2)) = release_id"
    by (simp add: next_activation_def)
  moreover have "lookup (files w') q = lookup (files w) q"
    if "\<not> activation_region (root_at w opts) q" for q
    using step_in_lookup [OF t(1) that] attempted(4) by simp
  ultimately show ?thesis
    using t(2) by (auto simp: state_text_def activation_region_def state_region_def split: sum.splits)
qed

section \<open>Without faults\<close>

lemma write_state_calm:
  "write_state L opts next w = (r, w') \<Longrightarrow> faults w = [] \<Longrightarrow> faults w' = []"
  by (auto simp: write_state_def Let_def dest!: create_directories_calm write_calm rename_calm
      split: prod.splits sum.splits write_result.splits)

lemma refresh_current_link_calm:
  "faults w = [] \<Longrightarrow> faults (refresh_current_link opts release_id w) = []"
  by (simp add: refresh_current_link_def Let_def)

text \<open>A file can be put at \<open>p\<close>: nothing is there, or a file.\<close>

definition free_or_file :: "tree \<Rightarrow> fpath \<Rightarrow> bool" where
  "free_or_file fs p \<longleftrightarrow> lookup fs p = None \<or> is_file (lookup fs p)"

lemma is_file_iff: "is_file n \<longleftrightarrow> (\<exists>c m. n = Some (File c m))"
  by (cases n rule: is_file.cases) auto

lemma write_state_succeeds:
  assumes calm: "faults w = []" and free: "\<not> dirs_blocked (files w) (root_at w opts)"
    and tmp: "free_or_file (files w) (root_at w opts @ [''state.json.tmp''])"
    and json: "free_or_file (files w) (root_at w opts @ [''state.json''])"
  shows "\<exists>w'. write_state L opts next w = (Inr (), w')"
proof -
  let ?r = "root_at w opts" and ?T = "root_at w opts @ [''state.json.tmp'']"
    and ?P = "root_at w opts @ [''state.json'']"
  define w1 where "w1 = w\<lparr>files := make_dirs ?r (files w)\<rparr>"
  have mk: "fs_create_directories ?r w = (Inr (), w1)"
    using calm free by (simp add: fs_create_directories_def take_fault_none w1_def)
  have f1: "faults w1 = []" "at w1 s = at w s" for s using calm by (simp_all add: w1_def at_def)
  have d1: "lookup (files w1) ?r = Some Directory" "free_or_file (files w1) ?T" "free_or_file (files w1) ?P"
    using lookup_make_dirs_self [OF free] tmp json
    by (auto simp: w1_def free_or_file_def lookup_make_dirs)
  define w2 where
    "w2 = w1\<lparr>files := put_node ?T (File (serialize_value L (activation_json next)) (mode_at w1 ?T)) (files w1)\<rparr>"
  have wr: "fs_write ?T (serialize_value L (activation_json next)) w1 = (Written, w2)"
    using f1 d1 by (simp add: fs_write_def take_fault_none writable_def free_or_file_def w2_def)
  have f2: "faults w2 = []" "at w2 s = at w s" for s using f1 by (simp_all add: w2_def at_def)
  have d2: "lookup (files w2) ?r = Some Directory" "is_file (lookup (files w2) ?T)"
      "free_or_file (files w2) ?P"
    using d1 by (auto simp: w2_def lookup_put_node free_or_file_def)
  have "\<exists>fs. rename_tree ?T ?P (files w2) = Inr fs"
    using d2 by (auto simp: rename_tree_def is_file_iff free_or_file_def)
  then have "\<exists>w3. fs_rename ?T ?P w2 = (Inr (), w3)"
    using f2 by (auto simp: fs_rename_def take_fault_none)
  then show ?thesis
    using mk wr f1 f2 by (auto simp: write_state_def Let_def)
qed

text \<open>
  Without I/O errors a successful activation of \<open>id\<close> is what the state reads back as:
  \<open>id\<close> is active, the release that was active is the previous one (unless \<open>id\<close> was active
  already, which keeps the previous one), and the time is the current one. \<open>id\<close> was an installed
  directory.
\<close>

theorem activate_records:
  assumes "boost_json L" "faults w = []" "activate L opts release_id w = (Inr (), w')"
    and "stored_state L opts w = Inr current" "plain_state current" "plain_text release_id"
  shows "stored_state L opts w' = Inr \<lparr>active = release_id,
      previous = (if active current = release_id then previous current else active current),
      updated_at = utc_now w\<rparr> \<and>
    lookup (files w) (releases_at w opts @ [release_id]) = Some Directory"
proof -
  let ?next = "next_activation release_id current (utc_now w)"
  have ok: "install_validate_release_id release_id = Inr ()"
    using assms(3) by (auto simp: activate_def split: sum.splits)
  have d: "fs_is_directory (at w (release_directory opts release_id)) w =
      (lookup (files w) (releases_at w opts @ [release_id]) = Some Directory, w)"
    using assms(2) at_release(1) [OF ok, of w opts] by (simp add: fs_is_directory_def take_fault_none)
  have i: "installer_state L opts w = (Inr current, w)"
    using installer_state_calm [OF assms(2)] assms(4) by simp
  obtain x w3 where w: "write_state L opts ?next w = (x, w3)" by fastforce
  have dir: "lookup (files w) (releases_at w opts @ [release_id]) = Some Directory"
    and x: "x = Inr ()" "w' = refresh_current_link opts release_id w3"
    using assms(3) ok d i w
    by (auto simp: activate_def Let_def next_activation_def split: bool.splits sum.splits)
  have "plain_state ?next"
    using assms(5,6) by (simp add: plain_state_def next_activation_def utc_now_def)
  moreover obtain m where
    "lookup (files w') (root_at w opts @ [''state.json'']) = Some (File (state_text L ?next) m)"
    using write_then_link [OF w, of w' release_id] x by auto
  moreover have "at w' s = at w s" for s
    using write_then_link [OF w, of w' release_id] x step_in_at by (metis sum.simps(6))
  ultimately have "stored_state L opts w' = Inr ?next"
    using stored_state_file [OF assms(1), of ?next w' opts m] by simp
  then show ?thesis using dir by (simp add: next_activation_def)
qed

definition swapped :: "activation_state \<Rightarrow> string \<Rightarrow> activation_state" where
  "swapped s now = \<lparr>active = previous s, previous = active s, updated_at = now\<rparr>"

text \<open>What a rollback needs of the disk: the state file and both releases it names.\<close>

definition rollback_ready :: "install_options \<Rightarrow> activation_state \<Rightarrow> 'a machine_scheme \<Rightarrow> bool" where
  "rollback_ready opts s w \<longleftrightarrow>
     faults w = [] \<and> wf_tree (files w) \<and>
     is_file (lookup (files w) (root_at w opts @ [''state.json''])) \<and>
     free_or_file (files w) (root_at w opts @ [''state.json.tmp'']) \<and>
     (\<forall>r \<in> {active s, previous s}. install_validate_release_id r = Inr () \<and>
        lookup (files w) (releases_at w opts @ [r]) = Some Directory)"

lemma wf_tree_not_blocked:
  assumes "wf_tree fs" "lookup fs q \<noteq> None" "strict_prefix p q"
  shows "\<not> dirs_blocked fs p"
  using wf_tree_parents [OF assms(1,2)] assms(3)
  unfolding dirs_blocked_def by (metis insertCI prefix_order.le_less_trans take_is_prefix)

lemma write_state_tmp:
  assumes "write_state L opts next w = (Inr u, w')"
  shows "lookup (files w') (root_at w opts @ [''state.json.tmp'']) = None"
proof -
  let ?T = "root_at w opts @ [''state.json.tmp'']" and ?P = "root_at w opts @ [''state.json'']"
  obtain x1 w1 where c: "fs_create_directories (root_at w opts) w = (x1, w1)" by fastforce
  obtain x2 w2 where c2: "fs_write ?T (serialize_value L (activation_json next)) w1 = (x2, w2)"
    by fastforce
  obtain x3 w3 where c3: "fs_rename ?T ?P w2 = (x3, w3)" by fastforce
  have e: "at w1 s = at w s" "at w2 s = at w s" for s
    using step_in_at [OF create_directories_step [OF c]] step_in_at [OF write_step [OF c2]]
    by simp_all
  have x3: "x3 = Inr ()" "w' = w3"
    using assms c c2 c3
    by (auto simp: write_state_def Let_def e split: sum.splits write_result.splits)
  then show ?thesis using rename_publishes [of ?T ?P w2 "()" w3 ?T] c3 by simp
qed

lemma rollback_once:
  assumes "boost_json L" "rollback_ready opts s w" "stored_state L opts w = Inr s" "plain_state s"
  shows "\<exists>w'. rollback L opts w = (Inr (previous s), w') \<and>
    stored_state L opts w' = Inr (swapped s (utc_now w)) \<and>
    rollback_ready opts (swapped s (utc_now w)) w' \<and> step_in (activation_region (root_at w opts)) w w'"
proof -
  let ?next = "swapped s (utc_now w)" and ?r = "root_at w opts"
  have ready: "faults w = []" "wf_tree (files w)" "is_file (lookup (files w) (?r @ [''state.json'']))"
      "free_or_file (files w) (?r @ [''state.json.tmp''])"
      "install_validate_release_id (previous s) = Inr ()"
      "lookup (files w) (releases_at w opts @ [previous s]) = Some Directory"
    using assms(2) by (simp_all add: rollback_ready_def)
  have i: "installer_state L opts w = (Inr s, w)"
    using installer_state_calm [OF ready(1)] assms(3) by simp
  have d: "fs_is_directory (at w (release_directory opts (previous s))) w = (True, w)"
    using ready at_release(1) [OF ready(5), of w opts] by (simp add: fs_is_directory_def take_fault_none)
  have free: "\<not> dirs_blocked (files w) ?r"
    using wf_tree_not_blocked [OF ready(2), of "?r @ [''state.json'']" ?r] ready(3)
    by (auto simp: is_file_iff)
  obtain w1 where w: "write_state L opts ?next w = (Inr (), w1)"
    using write_state_succeeds [OF ready(1) free ready(4)] ready(3)
    by (auto simp: free_or_file_def)
  define w' where "w' = refresh_current_link opts (previous s) w1"
  have link: "step_in (activation_region ?r) w w'"
    "\<exists>m. lookup (files w') (?r @ [''state.json'']) = Some (File (state_text L ?next) m)"
    using write_then_link [OF w, of w' "previous s"] by (simp_all add: w'_def)
  have "previous s \<noteq> ''''" using ready(5) by (auto simp: install_validate_release_id_def)
  then have run: "rollback L opts w = (Inr (previous s), w')"
    using i d w by (simp add: rollback_def Let_def swapped_def w'_def)
  have plain: "plain_state ?next"
    using assms(4) by (simp add: plain_state_def swapped_def utc_now_def)
  note at' = step_in_at [OF link(1)]
  have stored: "stored_state L opts w' = Inr ?next"
    using link(2) stored_state_file [OF assms(1) plain, of w' opts] at' by auto
  have calm: "faults w' = []"
    using write_state_calm [OF w ready(1)] by (simp add: w'_def refresh_current_link_calm)
  have rel: "lookup (files w') (releases_at w opts @ [x]) = lookup (files w) (releases_at w opts @ [x])"
    for x
    using step_in_lookup [OF link(1), of "releases_at w opts @ [x]"]
    by (auto simp: activation_region_def state_region_def)
  have tmp: "free_or_file (files w') (?r @ [''state.json.tmp''])"
    using write_state_tmp [OF w] step_in_lookup [OF refresh_current_link_step, of w1 opts "?r @ [''state.json.tmp'']" "previous s"]
      step_in_at [OF write_state_step [OF w]]
    by (simp add: w'_def free_or_file_def)
  have "rollback_ready opts ?next w'"
    using assms(2) calm rel tmp link step_in_wf [OF link(1) ready(2)] at'
    by (auto simp: rollback_ready_def swapped_def)
  then show ?thesis using run stored link(1) by blast
qed

text \<open>
  C32: Rolling back swaps the two releases, and rolling back twice returns to where one was.
  When the state names two installed releases and nothing stands in the way on disk, \<open>rollback\<close>
  succeeds and reports the previous release, the state then reads back with the two exchanged,
  and a second \<open>rollback\<close> succeeds too and makes the first release active again. No file outside
  the state, its temporary file and the \<open>current\<close> link changes.
\<close>

theorem rollback_twice:
  assumes "boost_json L" "rollback_ready opts s w" "stored_state L opts w = Inr s" "plain_state s"
  shows "\<exists>w1 w2. rollback L opts w = (Inr (previous s), w1) \<and>
    stored_state L opts w1 = Inr \<lparr>active = previous s, previous = active s, updated_at = utc_now w\<rparr> \<and>
    rollback L opts w1 = (Inr (active s), w2) \<and>
    stored_state L opts w2 = Inr \<lparr>active = active s, previous = previous s, updated_at = utc_now w\<rparr> \<and>
    (\<forall>id q. prefix (releases_at w opts @ [id]) q \<longrightarrow> lookup (files w2) q = lookup (files w) q)"
proof -
  let ?n = "swapped s (utc_now w)"
  obtain w1 where one: "rollback L opts w = (Inr (previous s), w1)"
    "stored_state L opts w1 = Inr ?n" "rollback_ready opts ?n w1"
    "step_in (activation_region (root_at w opts)) w w1"
    using rollback_once [OF assms] by blast
  have "plain_state ?n" using assms(4) by (simp add: plain_state_def swapped_def utc_now_def)
  then obtain w2 where two: "rollback L opts w1 = (Inr (previous ?n), w2)"
    "stored_state L opts w2 = Inr (swapped ?n (utc_now w1))"
    "step_in (activation_region (root_at w1 opts)) w1 w2"
    using rollback_once [OF assms(1) one(3,2)] by blast
  have time: "utc_now w1 = utc_now w" using step_in_fields [OF one(4)] by (simp add: utc_now_def)
  have both: "step_in (activation_region (root_at w opts)) w w2"
    using step_in_trans [OF one(4)] two(3) step_in_at [OF one(4)] by simp
  have keep: "lookup (files w2) q = lookup (files w) q" if "prefix (releases_at w opts @ [id]) q" for id q
  proof -
    have "\<not> activation_region (root_at w opts) q"
      using that by (auto simp: activation_region_def state_region_def prefix_def)
    then show ?thesis using step_in_lookup [OF both] by simp
  qed
  show ?thesis
    by (rule exI [of _ w1], rule exI [of _ w2])
      (use one(1,2) two(1,2) time keep in \<open>simp add: swapped_def\<close>)
qed

section \<open>On the example device\<close>

lemma served_calm: "faults served_machine = []"
  by (simp add: served_machine_def blank_machine_def)

lemma served_wf: "wf_tree (files served_machine)"
  by (simp add: served_machine_def blank_machine_def wf_tree_def keys_def lookup_def)

lemma served_root: "root_at served_machine served_options = [''srv'']"
  by code_simp

lemma served_state: "stored_state L served_options served_machine = Inr empty_activation"
  by (simp add: stored_state_def installer_state_def fs_exists_def take_fault_none lookup_def
      served_machine_def blank_machine_def served_root [unfolded served_machine_def blank_machine_def])

lemma served_activates: "\<exists>w'. activate L served_options ''v1'' served_machine = (Inr (), w')"
proof -
  let ?next = "next_activation ''v1'' empty_activation (utc_now served_machine)"
  have "\<not> dirs_blocked (files served_machine) [''srv'']"
    "free_or_file (files served_machine) [''srv'', ''state.json.tmp'']"
    "free_or_file (files served_machine) [''srv'', ''state.json'']"
    by code_simp+
  then obtain w1 where w1: "write_state L served_options ?next served_machine = (Inr (), w1)"
    using write_state_succeeds [OF served_calm, of served_options] by (auto simp: served_root)
  have "lookup (files served_machine) (at served_machine (release_directory served_options ''v1'')) = Some Directory"
    by code_simp
  then have d: "fs_is_directory (at served_machine (release_directory served_options ''v1'')) served_machine
      = (True, served_machine)"
    by (simp add: fs_is_directory_def take_fault_none served_calm)
  have id: "install_validate_release_id ''v1'' = Inr ()" by code_simp
  show ?thesis
    using w1 d installer_state_calm [OF served_calm, of L served_options] served_state [of L]
    by (simp add: activate_def id Let_def next_activation_def)
qed

theorem activate_atomic_witness:
  "\<exists>w'. activate blunt_json served_options ''v1'' served_machine = (Inr (), w') \<and>
     lookup (files w') [''srv'', ''releases'', ''v1'', ''app''] = Some (File ''one'' 493)"
proof -
  obtain w' where a: "activate blunt_json served_options ''v1'' served_machine = (Inr (), w')"
    using served_activates by blast
  have before: "lookup (files served_machine) [''srv'', ''releases'', ''v1'', ''app''] = Some (File ''one'' 493)"
    by code_simp
  show ?thesis using activate_atomic [OF a] a before unfolding served_root by simp
qed

theorem activate_records_witness:
  "\<exists>w'. activate unary_json served_options ''v1'' served_machine = (Inr (), w') \<and>
     stored_state unary_json served_options w' =
       Inr \<lparr>active = ''v1'', previous = '''', updated_at = utc_now served_machine\<rparr>"
proof -
  obtain w' where a: "activate unary_json served_options ''v1'' served_machine = (Inr (), w')"
    using served_activates by blast
  have "plain_state empty_activation" "plain_text ''v1''"
    by (simp_all add: plain_state_def empty_activation_def)
  then show ?thesis
    using a activate_records [OF boost_json_unary served_calm a served_state]
    by (simp add: empty_activation_def)
qed

definition two_releases :: activation_state where
  "two_releases = \<lparr>active = ''v1'', previous = ''v0'', updated_at = ''2026-08-08T00:00:00Z''\<rparr>"

definition rolled_machine :: machine where
  "rolled_machine = served_machine\<lparr>files :=
     put_node [''srv'', ''state.json''] (File (state_text unary_json two_releases) 420) (files served_machine)\<rparr>"

theorem rollback_twice_witness:
  "\<exists>w1 w2. rollback unary_json served_options rolled_machine = (Inr ''v0'', w1) \<and>
     rollback unary_json served_options w1 = (Inr ''v1'', w2)"
proof -
  have root: "root_at rolled_machine served_options = [''srv'']"
    using served_root by (simp add: rolled_machine_def at_def)
  have plain: "plain_state two_releases" by (simp add: plain_state_def two_releases_def)
  have look: "lookup (files rolled_machine) q =
      (if q = [''srv'', ''state.json''] then Some (File (state_text unary_json two_releases) 420)
       else lookup (files served_machine) q)" for q
    by (simp add: rolled_machine_def lookup_put_node)
  have "lookup (files served_machine) [''srv''] = Some Directory"
    "lookup (files served_machine) [''srv'', ''state.json''] = None"
    "lookup (files served_machine) [''srv'', ''state.json.tmp''] = None"
    "lookup (files served_machine) [''srv'', ''releases'', ''v1''] = Some Directory"
    "lookup (files served_machine) [''srv'', ''releases'', ''v0''] = Some Directory"
    "install_validate_release_id ''v1'' = Inr ()" "install_validate_release_id ''v0'' = Inr ()"
    by code_simp+
  note facts = this
  have "wf_tree (files rolled_machine)"
    unfolding rolled_machine_def
    using facts wf_put_node [OF served_wf, of "[''srv'', ''state.json'']"] by simp
  then have ready: "rollback_ready served_options two_releases rolled_machine"
    using facts served_calm
    by (simp add: rollback_ready_def root look free_or_file_def two_releases_def rolled_machine_def [THEN arg_cong, of faults])
  have st: "stored_state unary_json served_options rolled_machine = Inr two_releases"
    by (rule stored_state_file [OF boost_json_unary plain]) (simp add: root look)
  show ?thesis
    using rollback_twice [OF boost_json_unary ready st plain] by (auto simp: two_releases_def)
qed

end
