(* ===== verification/PruneFacts.thy ===== *)
theory PruneFacts
  imports InstallerFacts
begin

text \<open>
  Listing and pruning the installed releases: the list holds each release directory once, newest
  first; pruning never removes the active or the previous release once it has read which they are,
  and without faults removes exactly the releases beyond the \<open>keep_previous_releases\<close> newest
  others. A failing \<open>exists\<close> on \<open>state.json\<close> makes it forget them.
\<close>

definition proper_names :: "tree \<Rightarrow> bool" where
  "proper_names fs \<longleftrightarrow> (\<forall>e \<in> set fs. list_all plain_name (fst e))"

lemma children_proper:
  assumes "proper_names fs" "name \<in> set (children fs d)"
  shows "plain_name name"
  using assms by (auto simp: proper_names_def children_def list_all_iff)

lemma set_children: "set (children fs d) = {name. d @ [name] \<in> keys fs}"
proof -
  have "name \<in> set (children fs d) \<longleftrightarrow> (\<exists>k \<in> keys fs. k \<noteq> [] \<and> butlast k = d \<and> last k = name)" for name
    by (auto simp: children_def keys_def)
  moreover have "k \<noteq> [] \<and> butlast k = d \<and> last k = name \<longleftrightarrow> k = d @ [name]" for k name
    by (auto simp: butlast_append)
  ultimately show ?thesis by auto
qed

lemma distinct_children: "distinct (map fst fs) \<Longrightarrow> distinct (children fs d)"
proof -
  assume "distinct (map fst fs)"
  let ?ks = "filter (\<lambda>k. k \<noteq> [] \<and> butlast k = d) (map fst fs)"
  have "inj_on last (set ?ks)"
    by (intro inj_onI) (auto, metis append_butlast_last_id)
  then have "distinct (map last ?ks)" using \<open>distinct (map fst fs)\<close> by (simp add: distinct_map)
  then show ?thesis by (simp add: children_def filter_map comp_def)
qed

section \<open>The list of releases\<close>

definition is_release :: "tree \<Rightarrow> fpath \<Rightarrow> string \<Rightarrow> bool" where
  "is_release fs rels name \<longleftrightarrow> lookup fs (rels @ [name]) = Some Directory \<and> \<not> is_internal_name name"

definition written_at :: "'a machine_scheme \<Rightarrow> fpath \<Rightarrow> int" where
  "written_at w p = (case fs_last_write_time p w of Some t \<Rightarrow> t | None \<Rightarrow> 0)"

lemma collect_installed_reads:
  "collect_installed opts names found w = (r, w') \<Longrightarrow> reads w w'"
proof (induction names arbitrary: found w)
  case Nil
  then show ?case by simp
next
  case (Cons name names)
  obtain f w1 where t: "take_fault w = (f, w1)" by fastforce
  have "f = None \<Longrightarrow> reads w1 w'" using Cons t by (auto simp: Let_def)
  then show ?case
    using Cons.prems t take_fault_reads [OF t] reads_trans
    by (cases f) (auto simp: Let_def)
qed

lemma installed_reads: "installed opts w = (r, w') \<Longrightarrow> reads w w'"
  by (auto simp: installed_def dest!: is_directory_reads list_reads collect_installed_reads
      intro: reads_trans split: prod.splits bool.splits sum.splits)

lemma collect_installed_found:
  "collect_installed opts names found w = (Inr found', w') \<Longrightarrow>
     found' = found @ map (\<lambda>name. (written_at w (releases_at w opts @ [name]), name))
                (filter (is_release (files w) (releases_at w opts)) names)"
proof (induction names arbitrary: found w)
  case Nil
  then show ?case by simp
next
  case (Cons name names)
  obtain f w1 where t: "take_fault w = (f, w1)" by fastforce
  note r = take_fault_reads [OF t]
  have m: "mtimes w1 = mtimes w" using step_in_fields(2) [OF reads_step [OF r]] by simp
  have same: "files w1 = files w" "at w1 s = at w s" "written_at w1 p = written_at w p" for s p
    using r m by (simp_all add: written_at_def fs_last_write_time_def)
  have f: "f = None" using Cons.prems t by (cases f) (auto simp: Let_def)
  let ?p = "releases_at w opts @ [name]"
  let ?found = "if is_release (files w) (releases_at w opts) name
    then found @ [(written_at w ?p, name)] else found"
  have "collect_installed opts names ?found w1 = (Inr found', w')"
    using Cons.prems t f
    by (auto simp: Let_def is_release_def written_at_def fs_last_write_time_def split: if_split_asm)
  then show ?case using Cons.IH [of ?found w1] by (simp add: same)
qed

text \<open>
  \<open>installed\<close> lists the release directories and nothing else: every name it returns is a
  directory under \<open>releases\<close> that is not a staging or retired directory, each such directory is
  returned exactly once, and the names come newest first by the directories' write times.
\<close>

theorem installed_exact:
  assumes "installed opts w = (Inr names, w')" "faults w = []" "wf_tree (files w)"
  shows "set names = {name. lookup (files w) (releases_at w opts @ [name]) = Some Directory \<and>
      \<not> starts_with ''.staging-'' name \<and> \<not> starts_with ''.retired-'' name} \<and>
    distinct names \<and>
    sorted_wrt (\<lambda>a b. written_at w (releases_at w opts @ [b]) \<le> written_at w (releases_at w opts @ [a])) names"
proof -
  let ?rels = "releases_at w opts"
  let ?f = "\<lambda>name. (written_at w (?rels @ [name]), name)"
  let ?kids = "filter (is_release (files w) ?rels) (children (files w) ?rels)"
  have isdir: "fs_is_directory ?rels w = (lookup (files w) ?rels = Some Directory, w)"
    and lst: "lookup (files w) ?rels = Some Directory \<Longrightarrow> fs_list ?rels w = (Inr (children (files w) ?rels), w)"
    using assms(2) by (simp_all add: fs_is_directory_def fs_list_def take_fault_none)
  have kids: "set ?kids = {name. lookup (files w) (?rels @ [name]) = Some Directory \<and> \<not> is_internal_name name}"
    by (auto simp: is_release_def set_children keys_lookup)
  have internal: "is_internal_name name \<longleftrightarrow>
      starts_with ''.staging-'' name \<or> starts_with ''.retired-'' name" for name
    by (simp add: is_internal_name_def kStagingPrefix_def kRetiredPrefix_def)
  show ?thesis
  proof (cases "lookup (files w) ?rels = Some Directory")
    case True
    then obtain found w2 where c: "collect_installed opts (children (files w) ?rels) [] w = (Inr found, w2)"
      "names = map snd (sort_key (\<lambda>e. - fst e) found)"
      using assms(1) isdir lst by (auto simp: installed_def split: prod.splits sum.splits)
    have found: "found = map ?f ?kids" using collect_installed_found [OF c(1)] by simp
    have "set names = set ?kids" unfolding c(2) found by (simp add: image_image)
    moreover have "distinct names"
    proof -
      have "distinct (map snd found)" using assms(3) unfolding found
        by (simp add: comp_def wf_tree_def distinct_children)
      then show ?thesis unfolding c(2) by (simp add: distinct_map)
    qed
    moreover have "sorted_wrt (\<lambda>a b. written_at w (?rels @ [b]) \<le> written_at w (?rels @ [a])) names"
    proof -
      have here: "fst e = written_at w (?rels @ [snd e])" if "e \<in> set (sort_key (\<lambda>e. - fst e) found)" for e
        using that unfolding found by auto
      have "sorted_wrt (\<lambda>a b. - fst a \<le> - fst b) (sort_key (\<lambda>e. - fst e) found)"
        using sorted_sort_key [of "\<lambda>e. - fst e" found] by (simp add: sorted_map)
      then show ?thesis
        unfolding c(2) sorted_wrt_map by (rule sorted_wrt_mono_rel [rotated]) (simp add: here)
    qed
    ultimately show ?thesis using kids internal by simp
  next
    case False
    then have n: "names = []" using assms(1) isdir by (auto simp: installed_def)
    have "lookup (files w) (?rels @ [name]) = None" for name
      using wf_tree_below [OF assms(3) False, of "?rels @ [name]"] by (simp add: strict_prefix_def)
    with n show ?thesis by simp
  qed
qed

section \<open>Pruning\<close>

lemma at_named: "plain_name name \<Longrightarrow> at w (release_directory opts name) = releases_at w opts @ [name]"
  by (simp add: release_directory_def at_child)

definition prunable :: "activation_state \<Rightarrow> fpath \<Rightarrow> string list \<Rightarrow> fpath \<Rightarrow> bool" where
  "prunable current rels names q \<longleftrightarrow>
     (\<exists>name \<in> set names. name \<noteq> active current \<and> name \<noteq> previous current \<and> prefix (rels @ [name]) q)"

lemma prune_loop_step:
  "prune_loop opts current keep names retained removed w = (r, w') \<Longrightarrow>
     list_all plain_name names \<Longrightarrow>
     step_in (prunable current (releases_at w opts) names) w w'"
proof (induction names arbitrary: retained removed w)
  case Nil
  then show ?case by simp
next
  case (Cons name names)
  let ?R = "\<lambda>names. prunable current (releases_at w opts) names"
  have more: "step_in (?R (name # names)) u v" if "step_in (?R names) u v" for u v
    by (rule step_in_mono [OF that]) (auto simp: prunable_def)
  consider (skip) retained' where
      "prune_loop opts current keep names retained' removed w = (r, w')"
    | (remove) "name \<noteq> active current" "name \<noteq> previous current" "\<not> retained < keep"
    using Cons.prems(1) by (auto split: if_splits)
  then show ?case
  proof cases
    case skip
    have "list_all plain_name names" using Cons.prems(2) by simp
    then show ?thesis by (rule more [OF Cons.IH [OF skip]])
  next
    case remove
    obtain x w1 where rm: "fs_remove_all (releases_at w opts @ [name]) w = (x, w1)" by fastforce
    have s1: "step_in (?R (name # names)) w w1"
      by (rule step_in_mono [OF remove_all_step [OF rm]]) (use remove in \<open>auto simp: prunable_def\<close>)
    have "at w1 s = at w s" for s using step_in_at [OF s1] by simp
    then have "step_in (?R (name # names)) w1 w'" if "x = Inr u" for u
      using Cons.IH [of retained "removed + 1" w1] Cons.prems that remove rm more
        at_named [of name w opts] by simp
    then show ?thesis
      using Cons.prems remove rm s1 at_named [of name w opts] step_in_trans [OF s1]
      by (cases x) auto
  qed
qed

lemma installed_names_plain:
  fixes w :: "'a machine_scheme"
  assumes "installed opts w = (Inr names, w')" "proper_names (files w)"
  shows "list_all plain_name names" "\<forall>name \<in> set names. \<not> is_internal_name name"
proof -
  have "names = [] \<or> (\<exists>found (w1 :: 'a machine_scheme) w2. files w1 = files w \<and> at w1 = at w \<and>
      collect_installed opts (children (files w) (releases_at w opts)) [] w1 = (Inr found, w2) \<and>
      set names = snd ` set found)"
  proof -
    obtain b w1 where d: "fs_is_directory (releases_at w opts) w = (b, w1)" by fastforce
    obtain y w2 where l: "fs_list (releases_at w opts) w1 = (y, w2)" by fastforce
    note r1 = is_directory_reads [OF d] and r2 = reads_trans [OF is_directory_reads [OF d] list_reads [OF l]]
    have y: "y = Inr (children (files w) (releases_at w opts))" if "is_ok y"
      using l that r1 by (auto simp: fs_list_def dest: take_fault_reads
          split: prod.splits option.splits if_splits)
    have a2: "at w2 = at w" by (rule ext) (rule reads_at [OF r2])
    show ?thesis
    proof (cases "b \<and> is_ok y")
      case False
      then show ?thesis using assms(1) d l r1 by (cases b; cases y) (auto simp: installed_def)
    next
      case True
      obtain x w3 where c: "collect_installed opts (children (files w) (releases_at w opts)) [] w2 = (x, w3)"
        by fastforce
      then obtain found where "x = Inr found" "names = map snd (sort_key (\<lambda>e. - fst e) found)"
        using assms(1) d l y True r1 by (cases x) (auto simp: installed_def)
      then show ?thesis using c a2 r2
        by - (rule disjI2, rule exI [of _ found], rule exI [of _ w2], rule exI [of _ w3], simp)
    qed
  qed
  then have "\<forall>name \<in> set names. name \<in> set (children (files w) (releases_at w opts)) \<and>
      \<not> is_internal_name name"
    using collect_installed_found by (fastforce simp: is_release_def)
  then show "list_all plain_name names" "\<forall>name \<in> set names. \<not> is_internal_name name"
    using children_proper [OF assms(2)] by (auto simp: list_all_iff)
qed

lemma prune_step:
  assumes "prune L opts w = (r, w')" "installer_state L opts w = (Inr current, w1)"
    and "proper_names (files w)"
  shows "\<exists>names. step_in (prunable current (releases_at w opts) names) w w' \<and>
      (\<forall>name \<in> set names. \<not> is_internal_name name)"
proof -
  note r1 = installer_state_reads [OF assms(2)]
  obtain y w2 where i: "installed opts w1 = (y, w2)" by fastforce
  note r2 = reads_trans [OF r1 installed_reads [OF i]]
  have a2: "at w2 s = at w s" for s using r2 by simp
  show ?thesis
  proof (cases y)
    case (Inl e)
    then have "w' = w2" using assms(1,2) i by (simp add: prune_def)
    then show ?thesis using reads_step [OF r2] by (intro exI [of _ "[]"]) simp
  next
    case (Inr names)
    let ?keep = "if keep_previous_releases opts < 0 then 0 else keep_previous_releases opts"
    have loop: "prune_loop opts current ?keep names 0 0 w2 = (r, w')"
      using assms(1,2) i Inr by (simp add: prune_def Let_def)
    have names: "list_all plain_name names" "\<forall>name \<in> set names. \<not> is_internal_name name"
      using installed_names_plain [of opts w1 names w2] i Inr r1 assms(3) by auto
    have "step_in (prunable current (releases_at w opts) names) w w'"
      using reads_then_step [OF r2] prune_loop_step [OF loop names(1)] a2 by simp
    then show ?thesis using names(2) by blast
  qed
qed

lemma prune_below_releases:
  assumes "prune L opts w = (r, w')" "proper_names (files w)"
  shows "step_in (strict_prefix (releases_at w opts)) w w'"
proof -
  obtain x w1 where i: "installer_state L opts w = (x, w1)" by fastforce
  show ?thesis
  proof (cases x)
    case (Inl e)
    then show ?thesis
      using assms(1) i reads_step [OF installer_state_reads [OF i]] by (simp add: prune_def)
  next
    case (Inr current)
    then obtain names where "step_in (prunable current (releases_at w opts) names) w w'"
      using prune_step assms i by blast
    then show ?thesis
      by (rule step_in_mono) (auto simp: prunable_def strict_prefix_def prefix_def)
  qed
qed

lemma installer_state_read:
  assumes "set (take 2 (faults w)) \<subseteq> {None}"
  shows "\<exists>w1. installer_state L opts w = (stored_state L opts w, w1)"
proof -
  have a: "at (w\<lparr>faults := fs\<rparr>) p = at w p" for fs p by (simp add: at_def)
  have e: "\<exists>fs. fs_exists p w = (lookup (files w) p \<noteq> None, w\<lparr>faults := fs\<rparr>) \<and>
      set (take 1 fs) \<subseteq> {None}" for p
    using assms
    by (cases w; cases "faults w"; cases "tl (faults w)") (auto simp: fs_exists_def take_fault_def)
  have r: "\<exists>fs'. fs_read p (w\<lparr>faults := fs\<rparr>) = (fst (fs_read p (w\<lparr>faults := []\<rparr>)), w\<lparr>faults := fs'\<rparr>)"
    if "set (take 1 fs) \<subseteq> {None}" for fs p
    using that by (cases fs) (auto simp: fs_read_def take_fault_def split: option.splits node.splits)
  let ?p = "at w (state_path opts)"
  obtain fs where fs: "fs_exists ?p w = (lookup (files w) ?p \<noteq> None, w\<lparr>faults := fs\<rparr>)"
    "set (take 1 fs) \<subseteq> {None}" using e by blast
  obtain fs' where r': "fs_read ?p (w\<lparr>faults := fs\<rparr>) = (fst (fs_read ?p (w\<lparr>faults := []\<rparr>)), w\<lparr>faults := fs'\<rparr>)"
    using r [OF fs(2)] by blast
  have "snd (fs_read ?p (w\<lparr>faults := []\<rparr>)) = w\<lparr>faults := []\<rparr>"
    by (simp add: fs_read_def take_fault_def split: option.splits node.splits)
  then obtain x where x: "fs_read ?p (w\<lparr>faults := []\<rparr>) = (x, w\<lparr>faults := []\<rparr>)"
    by (metis prod.collapse)
  have calm: "fs_exists ?p (w\<lparr>faults := []\<rparr>) = (lookup (files w) ?p \<noteq> None, w\<lparr>faults := []\<rparr>)"
    by (simp add: fs_exists_def take_fault_def)
  show ?thesis
  proof (cases "lookup (files w) ?p = None")
    case True
    then show ?thesis using fs calm by (simp add: stored_state_def installer_state_def a)
  next
    case False
    then show ?thesis using fs(1) r' x calm
      by (auto simp: stored_state_def installer_state_def a
          split: option.splits sum.splits json.splits)
  qed
qed

lemma prune_step_internal:
  assumes "prune L opts w = (r, w')" "proper_names (files w)"
    and "is_internal_name name" "prefix (releases_at w opts @ [name]) q"
  shows "lookup (files w') q = lookup (files w) q"
proof -
  obtain x w1 where i: "installer_state L opts w = (x, w1)" by fastforce
  show ?thesis
  proof (cases x)
    case (Inl e)
    then show ?thesis using assms(1) i installer_state_reads [OF i] by (auto simp: prune_def)
  next
    case (Inr current)
    then obtain names where s: "step_in (prunable current (releases_at w opts) names) w w'"
      "\<forall>name \<in> set names. \<not> is_internal_name name" using prune_step assms(1,2) i by blast
    have "\<not> prunable current (releases_at w opts) names q"
      using assms(3,4) s(2) by (auto simp: prunable_def prefix_def)
    then show ?thesis by (rule step_in_lookup [OF s(1)])
  qed
qed

text \<open>
  C20: Pruning removes installed releases only, and never one that \<open>state.json\<close> names. Whatever
  calls fail, nothing outside the entries of \<open>releases\<close> changes (\<open>state.json\<close> among it), nor a
  staging or retired directory. When the two calls that read \<open>state.json\<close> succeed, every file of
  the active and of the previous release recorded there is as it was before, whatever fails
  later; \<open>prune_forgets_active\<close> shows that this condition is needed.
\<close>

theorem prune_keeps_active:
  assumes "prune L opts w = (r, w')" "proper_names (files w)"
  shows "(\<forall>q. \<not> strict_prefix (releases_at w opts) q \<longrightarrow> lookup (files w') q = lookup (files w) q) \<and>
    (\<forall>name q. is_internal_name name \<longrightarrow> prefix (releases_at w opts @ [name]) q \<longrightarrow>
      lookup (files w') q = lookup (files w) q) \<and>
    (\<forall>s id q. set (take 2 (faults w)) \<subseteq> {None} \<longrightarrow> stored_state L opts w = Inr s \<longrightarrow>
      id = active s \<or> id = previous s \<longrightarrow> prefix (releases_at w opts @ [id]) q \<longrightarrow>
      lookup (files w') q = lookup (files w) q)"
proof -
  have named: "lookup (files w') q = lookup (files w) q"
    if st: "set (take 2 (faults w)) \<subseteq> {None}" "stored_state L opts w = Inr s"
      and q: "prefix (releases_at w opts @ [id]) q" "id = active s \<or> id = previous s" for s id q
  proof -
    obtain w1 where "installer_state L opts w = (Inr s, w1)"
      using installer_state_read [OF st(1), of L opts] st(2) by auto
    then obtain names where s: "step_in (prunable s (releases_at w opts) names) w w'"
      using prune_step assms by blast
    have "\<not> prunable s (releases_at w opts) names q" using q by (auto simp: prunable_def prefix_def)
    then show ?thesis by (rule step_in_lookup [OF s])
  qed
  have "lookup (files w') q = lookup (files w) q" if "\<not> strict_prefix (releases_at w opts) q" for q
    using step_in_lookup [OF prune_below_releases [OF assms] that] .
  then show ?thesis using named prune_step_internal [OF assms] by blast
qed

section \<open>Pruning without faults\<close>

lemma collect_installed_calm:
  "collect_installed opts names found w = (r, w') \<Longrightarrow> faults w = [] \<Longrightarrow> faults w' = []"
  by (induction names arbitrary: found w) (auto simp: take_fault_none Let_def)

definition other_releases :: "activation_state \<Rightarrow> string list \<Rightarrow> string list" where
  "other_releases current names =
     filter (\<lambda>name. name \<noteq> active current \<and> name \<noteq> previous current) names"

lemma prune_loop_calm:
  "faults w = [] \<Longrightarrow> list_all plain_name names \<Longrightarrow> 0 \<le> retained \<Longrightarrow>
     prune_loop opts current keep names retained removed w = (r, w') \<Longrightarrow>
     r = Inr (removed + of_nat (length (other_releases current names) - nat (keep - retained))) \<and>
     (\<forall>q. lookup (files w') q =
       (if \<exists>name \<in> set (drop (nat (keep - retained)) (other_releases current names)).
             prefix (releases_at w opts @ [name]) q
        then None else lookup (files w) q))"
proof (induction names arbitrary: retained removed w)
  case Nil
  then show ?case by (simp add: other_releases_def)
next
  case (Cons name names)
  consider (skip) "name = active current \<or> name = previous current"
    | (keep) "name \<noteq> active current" "name \<noteq> previous current" "retained < keep"
    | (remove) "name \<noteq> active current" "name \<noteq> previous current" "\<not> retained < keep"
    by blast
  then show ?case
  proof cases
    case skip
    then have "prune_loop opts current keep names retained removed w = (r, w')"
      using Cons.prems(4) by auto
    then show ?thesis using Cons.IH [OF Cons.prems(1) _ Cons.prems(3)] Cons.prems(2) skip
      by (auto simp: other_releases_def)
  next
    case keep
    then have run: "prune_loop opts current keep names (retained + 1) removed w = (r, w')"
      using Cons.prems(4) by simp
    have "nat (keep - retained) = Suc (nat (keep - (retained + 1)))" using keep by linarith
    then show ?thesis using Cons.IH [OF Cons.prems(1) _ _ run] Cons.prems(2,3) keep
      by (auto simp: other_releases_def)
  next
    case remove
    define w1 where "w1 = w\<lparr>files := drop_tree [] (releases_at w opts @ [name]) (files w)\<rparr>"
    have rm: "fs_remove_all (at w (release_directory opts name)) w = (Inr (), w1)"
      using Cons.prems(1,2) at_named [of name w opts]
      by (simp add: fs_remove_all_def take_fault_none w1_def)
    have run: "prune_loop opts current keep names retained (removed + 1) w1 = (r, w')"
      using Cons.prems(4) remove rm by simp
    have w1: "faults w1 = []" "at w1 s = at w s" for s
      using Cons.prems(1) by (simp_all add: w1_def at_def)
    have zero: "nat (keep - retained) = 0" using remove by simp
    note ih = Cons.IH [OF w1(1) _ Cons.prems(3) run, unfolded zero w1(2)]
    have "lookup (files w1) q = (if prefix (releases_at w opts @ [name]) q then None else lookup (files w) q)" for q
      by (auto simp: w1_def lookup_drop_tree)
    then show ?thesis using ih Cons.prems(2) remove zero
      by (auto simp: algebra_simps other_releases_def)
  qed
qed

lemma installed_calm:
  assumes "faults w = []" "installed opts w = (r, w1)"
  shows "w1 = w"
proof -
  have "faults w1 = []"
    using assms collect_installed_calm
    by (auto simp: installed_def dest!: is_directory_calm list_calm
        split: prod.splits bool.splits sum.splits)
  then show ?thesis
    using installed_reads [OF assms(2)] assms(1) by (cases w; cases w1) (simp add: reads_def)
qed

lemma installed_calm_ok:
  "faults w = [] \<Longrightarrow> \<exists>names. installed opts w = (Inr names, w)"
proof -
  assume calm: "faults w = []"
  have c: "\<exists>found' w'. collect_installed opts names found w = (Inr found', w')" for names found
    using calm by (induction names arbitrary: found) (auto simp: take_fault_none Let_def)
  obtain found w' where "collect_installed opts (children (files w) (releases_at w opts)) [] w = (Inr found, w')"
    using c by blast
  then have "\<exists>names w'. installed opts w = (Inr names, w')"
    using calm by (cases "lookup (files w) (releases_at w opts) = Some Directory")
      (simp_all add: installed_def fs_is_directory_def fs_list_def take_fault_none)
  then show ?thesis using installed_calm [OF calm] by blast
qed

text \<open>The releases that may go: installed, and neither active nor previous.\<close>

definition candidates :: "activation_state \<Rightarrow> tree \<Rightarrow> fpath \<Rightarrow> string set" where
  "candidates current fs rels =
     {name. is_release fs rels name \<and> name \<noteq> active current \<and> name \<noteq> previous current}"

text \<open>
  A run of \<open>prune\<close> in which no call fails after the state was read, by what it leaves: the
  \<open>removed\<close> releases are gone and the others are there, as many as asked for, none older than a
  removed one.
\<close>

definition keeps_newest ::
    "int \<Rightarrow> string set \<Rightarrow> fpath \<Rightarrow> 'a machine_scheme \<Rightarrow> 32 word expected \<Rightarrow> 'a machine_scheme \<Rightarrow> bool" where
  "keeps_newest keep cands rels w r w' \<longleftrightarrow>
     (\<exists>removed \<subseteq> cands.
        r = Inr (of_nat (card removed)) \<and>
        card (cands - removed) = min (nat keep) (card cands) \<and>
        (\<forall>old \<in> removed. \<forall>new \<in> cands - removed.
           written_at w (rels @ [old]) \<le> written_at w (rels @ [new])) \<and>
        (\<forall>q. lookup (files w') q =
          (if \<exists>name \<in> removed. prefix (rels @ [name]) q then None else lookup (files w) q)))"

lemma finite_candidates: "finite (candidates current fs rels)"
proof (rule finite_subset)
  show "candidates current fs rels \<subseteq> set (children fs rels)"
    by (auto simp: candidates_def is_release_def set_children keys_lookup)
qed simp

lemma newest_split:
  assumes "distinct names" "sorted_wrt newer names"
  shows "card (set (drop k names)) = length names - k"
    and "card (set names - set (drop k names)) = min k (card (set names))"
    and "\<forall>old \<in> set (drop k names). \<forall>new \<in> set names - set (drop k names). newer new old"
proof -
  have "set names = set (take k names) \<union> set (drop k names)"
    by (metis append_take_drop_id set_append)
  moreover have "set (take k names) \<inter> set (drop k names) = {}"
    using assms(1) by (rule set_take_disj_set_drop_if_distinct) simp
  ultimately have kept: "set names - set (drop k names) = set (take k names)" by blast
  show "card (set (drop k names)) = length names - k"
    using assms(1) by (simp add: distinct_card)
  show "card (set names - set (drop k names)) = min k (card (set names))"
    unfolding kept using assms(1) by (simp add: distinct_card)
  have "sorted_wrt newer (take k names @ drop k names)" using assms(2) by simp
  then show "\<forall>old \<in> set (drop k names). \<forall>new \<in> set names - set (drop k names). newer new old"
    unfolding kept sorted_wrt_append by blast
qed

lemma prune_newest:
  assumes "installer_state L opts w = (Inr current, w0)" "faults w0 = []"
    and "proper_names (files w)" "wf_tree (files w)" "prune L opts w = (r, w')"
  defines "rels \<equiv> releases_at w opts"
  shows "keeps_newest (keep_previous_releases opts) (candidates current (files w) rels) rels w r w'"
proof -
  let ?keep = "if keep_previous_releases opts < 0 then 0 else keep_previous_releases opts"
  note r0 = installer_state_reads [OF assms(1)]
  have m: "mtimes w0 = mtimes w" using step_in_fields(2) [OF reads_step [OF r0]] by simp
  have same: "files w0 = files w" "at w0 s = at w s" "written_at w0 p = written_at w p" for s p
    using r0 m by (simp_all add: written_at_def fs_last_write_time_def)
  obtain names where i: "installed opts w0 = (Inr names, w0)" using installed_calm_ok [OF assms(2)] by blast
  define others where "others = other_releases current names"
  have keep: "nat ?keep = nat (keep_previous_releases opts)" by simp
  have loop: "prune_loop opts current ?keep names 0 0 w0 = (r, w')"
    using assms(1,5) i by (simp add: prune_def Let_def)
  have plain: "list_all plain_name names" using installed_names_plain(1) [OF i] assms(3) same by simp
  note effect = prune_loop_calm [OF assms(2) plain _ loop, folded others_def, unfolded same, folded rels_def]
  note ex = installed_exact [OF i assms(2), unfolded same, OF assms(4), folded rels_def]
  have set: "set others = candidates current (files w) rels"
    using ex by (auto simp: others_def other_releases_def candidates_def is_release_def
        is_internal_name_def kStagingPrefix_def kRetiredPrefix_def)
  have "distinct others"
    "sorted_wrt (\<lambda>a b. written_at w (rels @ [b]) \<le> written_at w (rels @ [a])) others"
    using ex by (simp_all add: others_def other_releases_def sorted_wrt_filter)
  note split = newest_split [OF this, of "nat (keep_previous_releases opts)"]
  have "set (drop (nat (keep_previous_releases opts)) others) \<subseteq> set others" by (rule set_drop_subset)
  then show ?thesis
    unfolding keeps_newest_def using effect split keep unfolding set
    by (intro exI [of _ "set (drop (nat (keep_previous_releases opts)) others)"]) simp
qed

text \<open>
  C33: Without I/O errors pruning keeps exactly what was asked for. Of the installed releases
  (the directories below \<open>releases\<close> that are not staging or retired ones) that are neither active
  nor previous, \<open>keep_previous_releases\<close> stay, or all when there are fewer; no removed one was
  written later than one that stays; the removed ones are gone with all their files, nothing else
  changes, and the result is their number.
\<close>

theorem prune_keeps_newest:
  assumes "faults w = []" "proper_names (files w)" "wf_tree (files w)"
    and "stored_state L opts w = Inr current" "prune L opts w = (r, w')"
  defines "rels \<equiv> releases_at w opts"
  defines "cands \<equiv> {name. lookup (files w) (rels @ [name]) = Some Directory \<and>
      \<not> starts_with ''.staging-'' name \<and> \<not> starts_with ''.retired-'' name \<and>
      name \<noteq> active current \<and> name \<noteq> previous current}"
  shows "\<exists>removed \<subseteq> cands.
    r = Inr (of_nat (card removed)) \<and>
    card (cands - removed) = min (nat (keep_previous_releases opts)) (card cands) \<and>
    (\<forall>old \<in> removed. \<forall>new \<in> cands - removed.
      written_at w (rels @ [old]) \<le> written_at w (rels @ [new])) \<and>
    (\<forall>q. lookup (files w') q =
      (if \<exists>name \<in> removed. prefix (rels @ [name]) q then None else lookup (files w) q))"
proof -
  have i: "installer_state L opts w = (Inr current, w)"
    using installer_state_calm [OF assms(1)] assms(4) by simp
  have c: "cands = candidates current (files w) rels"
    by (auto simp: cands_def candidates_def is_release_def is_internal_name_def kStagingPrefix_def
        kRetiredPrefix_def)
  show ?thesis
    using prune_newest [OF i assms(1-3,5)] by (simp add: keeps_newest_def c rels_def)
qed

text \<open>
  C38: One failing \<open>exists\<close> on \<open>state.json\<close> makes pruning remove releases in use. \<open>state\<close> takes the
  error for \<open>no state yet\<close>, so no release counts as active or previous: every installed release
  that \<open>keep_previous_releases\<close> others were written after is removed, the one \<open>state.json\<close> names
  as active included, and the call succeeds.
\<close>

theorem prune_forgets_active:
  assumes "faults w = [Some f]" "proper_names (files w)" "wf_tree (files w)"
    and "stored_state L opts w = Inr current"
    and "lookup (files w) (releases_at w opts @ [active current]) = Some Directory"
    and "\<not> is_internal_name (active current)"
    and "nat (keep_previous_releases opts) \<le>
      card {name. lookup (files w) (releases_at w opts @ [name]) = Some Directory \<and>
        \<not> is_internal_name name \<and>
        written_at w (releases_at w opts @ [active current]) < written_at w (releases_at w opts @ [name])}"
    and "prune L opts w = (r, w')"
  shows "is_ok r \<and> (\<forall>q. prefix (releases_at w opts @ [active current]) q \<longrightarrow> lookup (files w') q = None)"
proof -
  let ?rels = "releases_at w opts" and ?k = "nat (keep_previous_releases opts)"
  let ?cands = "candidates empty_activation (files w) ?rels"
  let ?newer = "{name. lookup (files w) (?rels @ [name]) = Some Directory \<and> \<not> is_internal_name name \<and>
    written_at w (?rels @ [active current]) < written_at w (?rels @ [name])}"
  have i: "installer_state L opts w = (Inr empty_activation, w\<lparr>faults := []\<rparr>)"
    using assms(1) by (simp add: installer_state_def fs_exists_def take_fault_def)
  have named: "name \<noteq> ''''" if "lookup (files w) (?rels @ [name]) = Some Directory" for name
    using that assms(2) by (auto simp: lookup_def proper_names_def plain_name_def dest!: map_of_SomeD)
  have cands: "?newer \<subseteq> ?cands" "active current \<in> ?cands"
    using assms(5,6) named by (auto simp: candidates_def is_release_def empty_activation_def)
  have "keeps_newest (keep_previous_releases opts) ?cands ?rels w r w'"
    by (rule prune_newest [OF i _ assms(2,3,8)]) simp
  then obtain removed where removed: "removed \<subseteq> ?cands" "r = Inr (of_nat (card removed))"
      "card (?cands - removed) = min ?k (card ?cands)"
      "\<forall>old \<in> removed. \<forall>new \<in> ?cands - removed. written_at w (?rels @ [old]) \<le> written_at w (?rels @ [new])"
      "\<forall>q. lookup (files w') q =
        (if \<exists>name \<in> removed. prefix (?rels @ [name]) q then None else lookup (files w) q)"
    unfolding keeps_newest_def by (elim exE conjE) (rule that)
  note kept = removed(3) and old = removed(4)
  have "active current \<in> removed"
  proof (rule ccontr)
    assume stays: "active current \<notin> removed"
    have "?newer \<subseteq> ?cands - removed"
    proof
      fix name assume new: "name \<in> ?newer"
      have "name \<notin> removed"
        using old [rule_format, of name "active current"] stays cands(2) new by auto
      then show "name \<in> ?cands - removed" using new cands(1) by blast
    qed
    then have sub: "insert (active current) ?newer \<subseteq> ?cands - removed" using cands stays by blast
    have fin: "finite (?cands - removed)" by (simp add: finite_candidates)
    have "card (insert (active current) ?newer) \<le> card (?cands - removed)"
      by (rule card_mono [OF fin sub])
    moreover have "finite (insert (active current) ?newer)" using sub fin by (rule finite_subset)
    moreover have "active current \<notin> ?newer" by simp
    ultimately have "Suc (card ?newer) \<le> ?k" unfolding kept by simp
    then have "Suc (card ?newer) \<le> card ?newer" using assms(7) by (rule le_trans)
    then show False by simp
  qed
  then show ?thesis using removed(2,5) by auto
qed

section \<open>On the example device\<close>

theorem installed_exact_witness:
  "\<exists>names w'. installed served_options served_machine = (Inr names, w') \<and> set names = {''v0'', ''v1''}"
proof -
  have "is_ok (fst (installed served_options served_machine))" by code_simp
  then obtain names w' where i: "installed served_options served_machine = (Inr names, w')"
    by (cases "installed served_options served_machine"; cases "fst (installed served_options served_machine)") auto
  have n: "fst (installed served_options served_machine) = Inr [''v1'', ''v0'']" by code_simp
  have "set names = {name. lookup (files served_machine) [''srv'', ''releases'', name] = Some Directory \<and>
      \<not> starts_with ''.staging-'' name \<and> \<not> starts_with ''.retired-'' name}"
    using installed_exact [OF i served_calm served_wf] by (simp add: served_root)
  then show ?thesis using i n by auto
qed

text \<open>
  Four releases, the oldest active and the newest the previous one.
\<close>

definition crowded_state :: activation_state where
  "crowded_state = \<lparr>active = ''v0'', previous = ''v3'', updated_at = ''''\<rparr>"

definition crowded_machine :: machine where
  "crowded_machine = served_machine\<lparr>
     files := files served_machine @
       [([''srv'', ''releases'', ''v2''], Directory), ([''srv'', ''releases'', ''v3''], Directory),
        ([''srv'', ''state.json''], File (state_text unary_json crowded_state) 420)],
     mtimes := [[''srv'', ''releases'', ''v0''] \<mapsto> 10, [''srv'', ''releases'', ''v1''] \<mapsto> 20,
       [''srv'', ''releases'', ''v2''] \<mapsto> 30, [''srv'', ''releases'', ''v3''] \<mapsto> 40]\<rparr>"

lemma crowded_root: "root_at (crowded_machine\<lparr>faults := fs\<rparr>) served_options = [''srv'']"
  by (simp add: at_def locate_def served_options_def crowded_machine_def served_machine_def
      blank_machine_def is_absolute_def starts_with_def)

lemma crowded_releases:
  "lookup (files crowded_machine) [''srv'', ''releases'', name] = Some Directory \<longleftrightarrow>
     name \<in> {''v0'', ''v1'', ''v2'', ''v3''}"
  by (auto simp: crowded_machine_def served_machine_def lookup_def)

lemma crowded_tree: "proper_names (files crowded_machine)" "wf_tree (files crowded_machine)"
  by (simp_all add: crowded_machine_def served_machine_def proper_names_def plain_name_def
      wf_tree_def contains_char_def keys_def lookup_def)

lemma crowded_stored:
  "stored_state unary_json served_options (crowded_machine\<lparr>faults := fs\<rparr>) = Inr crowded_state"
proof (rule stored_state_file [OF boost_json_unary])
  show "plain_state crowded_state"
    by (simp add: plain_state_def crowded_state_def plain_text_def is_ascii_def no_nul_def)
  show "lookup (files (crowded_machine\<lparr>faults := fs\<rparr>))
      (root_at (crowded_machine\<lparr>faults := fs\<rparr>) served_options @ [''state.json'']) =
    Some (File (state_text unary_json crowded_state) 420)"
    unfolding crowded_root by (simp add: crowded_machine_def served_machine_def lookup_def)
qed

lemma crowded_written: "written_at (crowded_machine\<lparr>faults := fs\<rparr>) [''srv'', ''releases'', name] =
    (if name = ''v0'' then 10 else if name = ''v1'' then 20 else if name = ''v2'' then 30
     else if name = ''v3'' then 40 else 0)"
  by (simp add: written_at_def fs_last_write_time_def crowded_machine_def)

text \<open>The removal of a release fails half way; the two releases in use are untouched.\<close>

theorem prune_keeps_active_witness:
  "\<exists>r w'. prune unary_json served_options
       (crowded_machine\<lparr>faults := [None, None, None, None, None, None, None, None, io_error]\<rparr>) = (r, w') \<and>
     lookup (files w') [''srv'', ''releases'', ''v0''] = Some Directory \<and>
     lookup (files w') [''srv'', ''releases'', ''v3''] = Some Directory \<and>
     lookup (files w') [''srv'', ''state.json''] = Some (File (state_text unary_json crowded_state) 420)"
proof -
  let ?w = "crowded_machine\<lparr>faults := [None, None, None, None, None, None, None, None, io_error]\<rparr>"
  obtain r w' where p: "prune unary_json served_options ?w = (r, w')" by fastforce
  note k = prune_keeps_active [OF p, unfolded crowded_root]
  have n: "proper_names (files ?w)" using crowded_tree by simp
  have same: "lookup (files w') [''srv'', ''releases'', id] = lookup (files crowded_machine) [''srv'', ''releases'', id]"
    if "id = ''v0'' \<or> id = ''v3''" for id
    using k [OF n, THEN conjunct2, THEN conjunct2, rule_format, OF _ crowded_stored, of id] that
    by (auto simp: crowded_state_def)
  have "lookup (files w') [''srv'', ''state.json''] = lookup (files crowded_machine) [''srv'', ''state.json'']"
    using k [OF n, THEN conjunct1] by (simp add: strict_prefix_def)
  then have "lookup (files w') [''srv'', ''state.json''] = Some (File (state_text unary_json crowded_state) 420)"
    by (simp add: crowded_machine_def served_machine_def lookup_def)
  then show ?thesis using p same crowded_releases by auto
qed

theorem prune_keeps_newest_witness:
  "\<exists>w'. prune unary_json served_options crowded_machine = (Inr 1, w') \<and>
     lookup (files w') [''srv'', ''releases'', ''v2''] = Some Directory \<and>
     lookup (files w') [''srv'', ''releases'', ''v1''] = None"
proof -
  have calm: "faults crowded_machine = []" "crowded_machine = crowded_machine\<lparr>faults := []\<rparr>"
    by (simp_all add: crowded_machine_def served_machine_def blank_machine_def)
  obtain r w' where p: "prune unary_json served_options crowded_machine = (r, w')" by fastforce
  have c: "{name. lookup (files crowded_machine) ([''srv'', ''releases''] @ [name]) = Some Directory \<and>
      \<not> starts_with ''.staging-'' name \<and> \<not> starts_with ''.retired-'' name \<and>
      name \<noteq> active crowded_state \<and> name \<noteq> previous crowded_state} = {''v1'', ''v2''}"
    by (auto simp: crowded_releases crowded_state_def starts_with_def)
  have root: "root_at crowded_machine served_options = [''srv'']" using crowded_root [of "[]"] calm(2) by simp
  have st: "stored_state unary_json served_options crowded_machine = Inr crowded_state"
    using crowded_stored [of "[]"] calm(2) by simp
  have wr: "written_at crowded_machine [''srv'', ''releases'', ''v1''] = 20"
    "written_at crowded_machine [''srv'', ''releases'', ''v2''] = 30"
    using crowded_written [of "[]"] calm(2) by simp_all
  obtain removed where rm: "removed \<subseteq> {''v1'', ''v2''}" "r = Inr (of_nat (card removed))"
      "card ({''v1'', ''v2''} - removed) = 1"
      "\<forall>old \<in> removed. \<forall>new \<in> {''v1'', ''v2''} - removed.
        written_at crowded_machine [''srv'', ''releases'', old] \<le> written_at crowded_machine [''srv'', ''releases'', new]"
      "\<forall>q. lookup (files w') q = (if \<exists>name \<in> removed. prefix [''srv'', ''releases'', name] q
        then None else lookup (files crowded_machine) q)"
    using prune_keeps_newest [OF calm(1) crowded_tree st p]
    unfolding root append.simps c [unfolded append.simps]
    by (elim exE conjE) (rule that, assumption, assumption, simp add: served_options_def, assumption+)
  consider "removed = {}" | "removed = {''v1''}" | "removed = {''v2''}" | "removed = {''v1'', ''v2''}"
    using rm(1) by blast
  then have "removed = {''v1''}"
  proof cases
    case 1
    then show ?thesis using rm(3) by simp
  next
    case 3
    have "written_at crowded_machine [''srv'', ''releases'', ''v2''] \<le>
      written_at crowded_machine [''srv'', ''releases'', ''v1'']"
      by (rule rm(4) [rule_format]) (simp_all add: 3)
    then show ?thesis using wr by simp
  next
    case 4
    then show ?thesis using rm(3) by simp
  qed
  then show ?thesis using p rm(2,5) crowded_releases by simp
qed

theorem prune_forgets_active_witness:
  "\<exists>r w'. prune unary_json served_options (crowded_machine\<lparr>faults := [io_error]\<rparr>) = (r, w') \<and> is_ok r \<and>
     lookup (files w') [''srv'', ''releases'', ''v0''] = None"
proof -
  let ?w = "crowded_machine\<lparr>faults := [io_error]\<rparr>"
  obtain r w' where p: "prune unary_json served_options ?w = (r, w')" by fastforce
  obtain f where f: "faults ?w = [Some f]" by (simp add: io_error_def)
  have newer: "{name. lookup (files ?w) [''srv'', ''releases'', name] = Some Directory \<and>
      \<not> is_internal_name name \<and>
      written_at ?w [''srv'', ''releases'', ''v0''] < written_at ?w [''srv'', ''releases'', name]} =
    {''v1'', ''v2'', ''v3''}"
    by (auto simp: crowded_releases crowded_written is_internal_name_def kStagingPrefix_def
        kRetiredPrefix_def starts_with_def)
  have "is_ok r \<and> (\<forall>q. prefix (releases_at ?w served_options @ [active crowded_state]) q \<longrightarrow> lookup (files w') q = None)"
    by (rule prune_forgets_active [OF f _ _ crowded_stored _ _ _ p])
      (simp_all only: crowded_root newer crowded_state_def activation_state.simps append.simps,
       simp_all add: crowded_tree crowded_releases is_internal_name_def kStagingPrefix_def
        kRetiredPrefix_def starts_with_def served_options_def newer)
  then show ?thesis using p by (simp add: crowded_root crowded_state_def)
qed

end
