(* ===== verification/InstallFacts.thy ===== *)
theory InstallFacts
  imports InstallerFacts
begin

text \<open>
  Installing a release: which part of the disk it may touch (\<open>install_frame\<close>), what a failure
  leaves of the release it was to replace (\<open>install_failure_keeps_release\<close>), and what a success
  without I/O errors produces (\<open>install_exact_copy\<close>).
\<close>

section \<open>Where installing writes\<close>

definition install_region :: "fpath \<Rightarrow> string \<Rightarrow> fpath \<Rightarrow> bool" where
  "install_region rels release_id q \<longleftrightarrow>
     prefix q rels \<or> prefix (rels @ [kStagingPrefix @ release_id]) q \<or> prefix (rels @ [release_id]) q \<or>
     (\<exists>name. starts_with kRetiredPrefix name \<and> prefix (rels @ [name]) q)"

definition staging_region :: "fpath \<Rightarrow> fpath \<Rightarrow> bool" where
  "staging_region staging q \<longleftrightarrow> prefix q staging \<or> prefix staging q"

lemma prefix_below: "prefix q (s @ r) \<Longrightarrow> prefix q s \<or> prefix s q"
  using prefix_same_cases [of q "s @ r" s] by auto

lemma place_entry_step:
  assumes "place_entry source staging relative copied w = (r, w')"
  shows "step_in (staging_region staging) w w'"
proof -
  let ?R = "staging_region staging"
  have mk: "step_in ?R w w1" if "fs_create_directories d w = (x, w1)" "prefix d (staging @ relative)"
    for d x w1
    using step_in_mono [OF create_directories_step [OF that(1)], of ?R] that(2)
      prefix_below prefix_order.order_trans by (auto simp: staging_region_def) blast
  have cp: "step_in ?R w1 w2" if "fs_copy_file a (staging @ relative) w1 = (x, w2)" for a w1 x w2
    using step_in_mono [OF copy_file_step [OF that], of ?R] by (simp add: staging_region_def)
  have b: "prefix (butlast (staging @ relative)) (staging @ relative)" by (rule prefixeq_butlast)
  show ?thesis
    using assms
    by (auto simp: place_entry_def Let_def intro: mk [OF _ b] mk step_in_trans [OF mk [OF _ b] cp]
        split: prod.splits sum.splits if_splits)
qed

lemma copy_entries_step:
  "copy_entries source_directory source staging entries copied w = (r, w') \<Longrightarrow>
     step_in (staging_region staging) w w'"
proof (induction entries arbitrary: copied w)
  case Nil
  then show ?case by simp
next
  case (Cons relative rest)
  let ?R = "staging_region staging"
  obtain f w1 where t: "take_fault w = (f, w1)" by fastforce
  have s1: "step_in ?R w w1" by (rule reads_step [OF take_fault_reads [OF t]])
  obtain x w2 where p: "place_entry source staging relative copied w1 = (x, w2)" by fastforce
  have s2: "step_in ?R w w2" by (rule step_in_trans [OF s1 place_entry_step [OF p]])
  obtain g w3 where t3: "take_fault w2 = (g, w3)" by fastforce
  have s3: "step_in ?R w w3" by (rule step_in_trans [OF s2 reads_step [OF take_fault_reads [OF t3]]])
  show ?case
    using Cons.prems t p t3 s1 s2 s3 step_in_trans [OF s3 Cons.IH [of _ w3]]
    by (auto split: option.splits sum.splits if_splits)
qed

lemma remove_each_step:
  "(\<And>p q. p \<in> set ps \<Longrightarrow> prefix p q \<Longrightarrow> R q) \<Longrightarrow> step_in R w (remove_each ps w)"
proof (induction ps arbitrary: w)
  case Nil
  then show ?case by simp
next
  case (Cons p ps)
  obtain x w1 where r: "fs_remove_all p w = (x, w1)" by fastforce
  have "step_in R w w1" 
    by (rule step_in_mono [OF remove_all_step [OF r]]) (rule Cons.prems [of p], simp_all)
  moreover have "step_in R w1 (remove_each ps w1)"
    by (rule Cons.IH) (rule Cons.prems, simp_all)
  ultimately show ?case using r step_in_trans by simp
qed

definition retired_region :: "fpath \<Rightarrow> fpath \<Rightarrow> bool" where
  "retired_region rels q \<longleftrightarrow> (\<exists>name. starts_with kRetiredPrefix name \<and> prefix (rels @ [name]) q)"

lemma sweep_retired_step: "step_in (retired_region (releases_at w opts)) w (sweep_retired opts w)"
proof -
  let ?R = "retired_region (releases_at w opts)"
  obtain x w1 where l: "fs_list (releases_at w opts) w = (x, w1)" by fastforce
  note r1 = list_reads [OF l]
  have "step_in ?R w1 (remove_each (map (\<lambda>name. releases_at w opts @ [name])
      (filter (starts_with kRetiredPrefix) names)) w1)" for names
    by (rule remove_each_step) (auto simp: retired_region_def)
  then show ?thesis
    using l r1 reads_step [OF r1] reads_then_step [OF r1]
    by (auto simp: sweep_retired_def split: sum.splits)
qed

lemma remove_each_calm: "faults w = [] \<Longrightarrow> faults (remove_each ps w) = []"
  by (induction ps arbitrary: w) auto

lemma sweep_retired_calm: "faults w = [] \<Longrightarrow> faults (sweep_retired opts w) = []"
  by (auto simp: sweep_retired_def remove_each_calm dest: list_calm split: prod.splits sum.splits)

text \<open>The four directories of a release under \<open>releases\<close> do not overlap.\<close>

lemma retired_name: "starts_with kRetiredPrefix (kRetiredPrefix @ s)"
  by simp

lemma staging_not_retired: "\<not> starts_with kRetiredPrefix (kStagingPrefix @ s)"
  by (simp add: kStagingPrefix_def kRetiredPrefix_def starts_with_def)

lemma release_not_retired:
  "install_validate_release_id release_id = Inr u \<Longrightarrow> \<not> starts_with kRetiredPrefix release_id"
  "install_validate_release_id release_id = Inr u \<Longrightarrow> release_id \<noteq> kStagingPrefix @ s"
  using accepted_id(2) [of release_id u] by (auto simp: is_internal_name_def)

lemma not_retired_region:
  "\<not> starts_with kRetiredPrefix name \<Longrightarrow> \<not> retired_region rels (rels @ name # r)"
  by (auto simp: retired_region_def)

lemma set_aside_effect:
  assumes "set_aside opts release_id w = (r, w')" "install_validate_release_id release_id = Inr u"
  defines "T \<equiv> releases_at w opts @ [release_id]"
    and "R \<equiv> releases_at w opts @ [kRetiredPrefix @ release_id]"
  shows "step_in (\<lambda>q. prefix T q \<or> prefix R q) w w' \<and>
    (\<forall>q. case r of
       Inl e \<Rightarrow> lookup (files w') (T @ q) = lookup (files w) (T @ q)
     | Inr v \<Rightarrow> lookup (files w') (T @ q) = None \<and> lookup (files w') (R @ q) = lookup (files w) (T @ q))"
proof -
  have apart: "\<not> prefix R (T @ q)" "\<not> prefix T (R @ q)" "R \<noteq> T" "\<not> prefix R T" for q
    using release_not_retired(1) [OF assms(2)] 
    by (auto simp: T_def R_def kRetiredPrefix_def starts_with_def)
  obtain x w1 where c: "fs_remove_all R w = (x, w1)" by fastforce
  obtain y w2 where m: "fs_rename T R w1 = (y, w2)" by fastforce
  note s1 = remove_all_step [OF c]
  have s1': "step_in (\<lambda>q. prefix T q \<or> prefix R q) w w1" using step_in_mono [OF s1] by simp
  have s2: "step_in (\<lambda>q. prefix T q \<or> prefix R q) w w2"
    by (rule step_in_trans [OF s1' rename_step [OF m]])
  have k1: "lookup (files w1) (T @ q) = lookup (files w) (T @ q)" for q
    using step_in_lookup [OF s1] apart by simp
  have ok: "lookup (files w2) (T @ q) = None \<and> lookup (files w2) (R @ q) = lookup (files w) (T @ q)"
    if "y = Inr v" for v q
    using rename_publishes [of T R w1 v w2] m that apart k1 by simp
  have bad: "lookup (files w2) (T @ q) = lookup (files w) (T @ q)" if "y = Inl e" for e q
    using rename_failed [of T R w1 e w2] m that k1 by simp
  show ?thesis
    using assms(1) c m at_release [OF assms(2), of w1 opts] at_release [OF assms(2), of w opts]
      step_in_at [OF s1] s1' s2 k1 ok bad
    by (auto simp: set_aside_def Let_def T_def R_def split: sum.splits)
qed

lemma int_text_no_slash: "CHR ''/'' \<notin> set (int_text i)"
  using nat_text_decimal [of "nat i"] nat_text_decimal [of "nat (- i)"]
  by (auto simp: int_text_def is_decimal_def)

lemma at_aside:
  assumes "install_validate_release_id release_id = Inr u"
  shows "at w (retired_directory opts release_id @ ''.'' @ int_text i) =
    releases_at w opts @ [kRetiredPrefix @ release_id @ ''.'' @ int_text i]"
proof -
  let ?n = "kRetiredPrefix @ release_id"
  have p: "plain_name ?n" by (rule internal_plain(2) [OF assms])
  have "plain_name (?n @ ''.'' @ int_text i)"
    using p int_text_no_slash [of i]
    by (auto simp: plain_name_def contains_char_def kRetiredPrefix_def)
  moreover have "retired_directory opts release_id @ s = path_append (releases_root opts) (?n @ s)" for s
    using p by (simp add: retired_directory_def path_append_suffix plain_name_def)
  ultimately show ?thesis by (simp add: at_child)
qed

lemma clean_up_step:
  assumes "install_validate_release_id release_id = Inr u"
  shows "step_in (retired_region (releases_at w opts)) w (clean_up opts release_id w)"
proof -
  let ?R = "retired_region (releases_at w opts)" and ?d = "releases_at w opts @ [kRetiredPrefix @ release_id]"
  let ?e = "\<lambda>i. releases_at w opts @ [kRetiredPrefix @ release_id @ ''.'' @ int_text i]"
  have sub: "?R q" if "prefix ?d q \<or> prefix (?e i) q" for q i
    using that retired_name [of "release_id"] retired_name [of "release_id @ ''.'' @ int_text i"]
    unfolding retired_region_def by metis
  obtain x w1 where c: "fs_remove_all ?d w = (x, w1)" by fastforce
  note s1 = step_in_mono [OF remove_all_step [OF c], of ?R]
  have s1': "step_in ?R w w1" by (rule s1) (use sub in blast)
  have a: "at w1 s = at w s" for s using step_in_at [OF s1'] by simp
  have mv: "step_in ?R w1 w2" if "fs_rename ?d (?e i) w1 = (y, w2)" for i y w2
    by (rule step_in_mono [OF rename_step [OF that]]) (use sub in blast)
  have s2: "step_in ?R w (snd (fs_rename ?d (?e i) w1))" for i
    by (rule step_in_trans [OF s1' mv [of i "fst (fs_rename ?d (?e i) w1)"]]) simp
  show ?thesis
    using c s1' s2 at_release(3) [OF assms, of w opts] at_aside [OF assms, of w opts]
    by (auto simp: clean_up_def Let_def a split: sum.splits)
qed

section \<open>Publishing\<close>

abbreviation target_at :: "'a machine_scheme \<Rightarrow> install_options \<Rightarrow> string \<Rightarrow> fpath" where
  "target_at w opts release_id \<equiv> releases_at w opts @ [release_id]"

abbreviation retired_at :: "'a machine_scheme \<Rightarrow> install_options \<Rightarrow> string \<Rightarrow> fpath" where
  "retired_at w opts release_id \<equiv> releases_at w opts @ [kRetiredPrefix @ release_id]"

abbreviation staging_at :: "'a machine_scheme \<Rightarrow> install_options \<Rightarrow> string \<Rightarrow> fpath" where
  "staging_at w opts release_id \<equiv> releases_at w opts @ [kStagingPrefix @ release_id]"

lemma release_names_differ:
  assumes "install_validate_release_id release_id = Inr u"
  shows "release_id \<noteq> kStagingPrefix @ release_id" "release_id \<noteq> kRetiredPrefix @ release_id"
    "kStagingPrefix @ release_id \<noteq> kRetiredPrefix @ release_id"
  by (simp_all add: kStagingPrefix_def kRetiredPrefix_def)

lemma install_region_parts:
  "retired_region rels q \<Longrightarrow> install_region rels release_id q"
  "prefix (rels @ [release_id]) q \<Longrightarrow> install_region rels release_id q"
  "prefix (rels @ [kRetiredPrefix @ release_id]) q \<Longrightarrow> install_region rels release_id q"
  "prefix (rels @ [kStagingPrefix @ release_id]) q \<Longrightarrow> install_region rels release_id q"
  using retired_name [of release_id] unfolding install_region_def retired_region_def by blast+

lemma same_positions:
  assumes "install_validate_release_id release_id = Inr u" "\<And>s. at v s = at w s"
  shows "at v (staging_directory opts release_id) = staging_at w opts release_id"
    and "at v (release_directory opts release_id) = target_at w opts release_id"
    and "at v (retired_directory opts release_id) = retired_at w opts release_id"
  using at_release [OF assms(1), of w opts] assms(2) by simp_all

text \<open>The part of \<open>publish_staging\<close> before the publishing rename.\<close>

definition make_way ::
    "install_options \<Rightarrow> string \<Rightarrow> bool \<Rightarrow> 'a machine_scheme \<Rightarrow> unit expected \<times> 'a machine_scheme" where
  "make_way opts release_id replacing w =
     (if replacing then set_aside opts release_id w else (Inr (), w))"

lemma make_way_effect:
  assumes "make_way opts release_id replacing w = (r, w')"
    and id: "install_validate_release_id release_id = Inr u"
  shows "step_in (install_region (releases_at w opts) release_id) w w' \<and>
    (\<forall>q. lookup (files w') (staging_at w opts release_id @ q) =
         lookup (files w) (staging_at w opts release_id @ q)) \<and>
    (if replacing \<and> is_ok r then
       \<forall>q. lookup (files w') (target_at w opts release_id @ q) = None \<and>
           lookup (files w') (retired_at w opts release_id @ q) =
           lookup (files w) (target_at w opts release_id @ q)
     else \<forall>q. lookup (files w') (target_at w opts release_id @ q) =
              lookup (files w) (target_at w opts release_id @ q))"
proof (cases replacing)
  case True
  then have "set_aside opts release_id w = (r, w')" using assms(1) by (simp add: make_way_def)
  note e = set_aside_effect [OF this id]
  have st: "step_in (\<lambda>q. prefix (target_at w opts release_id) q \<or> prefix (retired_at w opts release_id) q) w w'"
    using e by blast
  have "lookup (files w') (staging_at w opts release_id @ q) =
      lookup (files w) (staging_at w opts release_id @ q)" for q
    using step_in_lookup [OF st, of "staging_at w opts release_id @ q"] release_names_differ [OF id]
    by auto
  moreover have "step_in (install_region (releases_at w opts) release_id) w w'"
    by (rule step_in_mono [OF st]) (auto intro: install_region_parts)
  ultimately show ?thesis using e True by (cases r) auto
next
  case False
  then show ?thesis using assms(1) by (simp add: make_way_def)
qed

text \<open>The publishing rename and what follows it.\<close>

definition swap_in ::
    "install_options \<Rightarrow> string \<Rightarrow> bool \<Rightarrow> 'a machine_scheme \<Rightarrow> bool \<times> 'a machine_scheme" where
  "swap_in opts release_id replacing w =
     (case fs_rename (staging_at w opts release_id) (target_at w opts release_id) w of
        (Inr _, w1) \<Rightarrow> (True, clean_up opts release_id w1)
      | (Inl e, w1) \<Rightarrow>
          (False, if replacing then snd (fs_rename (retired_at w opts release_id) (target_at w opts release_id) w1)
                  else w1))"

lemma swap_in_published:
  assumes "swap_in opts release_id replacing w = (True, w')"
    and id: "install_validate_release_id release_id = Inr u"
  shows "step_in (install_region (releases_at w opts) release_id) w w' \<and>
    (\<forall>q. lookup (files w') (target_at w opts release_id @ q) =
         lookup (files w) (staging_at w opts release_id @ q))"
proof -
  let ?S = "staging_at w opts release_id" and ?T = "target_at w opts release_id"
  let ?I = "install_region (releases_at w opts) release_id"
  obtain v w1 where mv: "fs_rename ?S ?T w = (Inr v, w1)" and w': "w' = clean_up opts release_id w1"
    using assms(1) by (auto simp: swap_in_def split: prod.splits sum.splits)
  note s1 = step_in_mono [OF rename_step [OF mv], of ?I]
  have s1': "step_in ?I w w1" by (rule s1) (auto intro: install_region_parts)
  note c = clean_up_step [OF id, of w1 opts]
  have "step_in ?I w1 w'"
    unfolding w' using step_in_mono [OF c, of ?I] step_in_at [OF s1'] install_region_parts(1) by simp
  moreover have "lookup (files w') (?T @ q) = lookup (files w) (?S @ q)" for q
    using step_in_lookup [OF c, of "?T @ q"] not_retired_region [OF release_not_retired(1) [OF id], of "releases_at w opts" q]
      rename_publishes [OF mv, of "?T @ q"] step_in_at [OF s1'] release_names_differ [OF id]
    by (simp add: w')
  ultimately show ?thesis using step_in_trans [OF s1'] by blast
qed

lemma swap_in_failed:
  assumes "swap_in opts release_id replacing w = (False, w')"
    and id: "install_validate_release_id release_id = Inr u"
  shows "step_in (install_region (releases_at w opts) release_id) w w' \<and>
    ((\<forall>q. lookup (files w') (target_at w opts release_id @ q) =
          lookup (files w) (target_at w opts release_id @ q) \<and>
          lookup (files w') (retired_at w opts release_id @ q) =
          lookup (files w) (retired_at w opts release_id @ q)) \<or>
     replacing \<and> (\<forall>q. lookup (files w') (target_at w opts release_id @ q) =
          lookup (files w) (retired_at w opts release_id @ q)))"
proof -
  let ?S = "staging_at w opts release_id" and ?T = "target_at w opts release_id"
    and ?R = "retired_at w opts release_id"
  let ?I = "install_region (releases_at w opts) release_id"
  obtain e w1 where mv: "fs_rename ?S ?T w = (Inl e, w1)"
    using assms(1) by (auto simp: swap_in_def split: prod.splits sum.splits)
  note r1 = rename_failed [OF mv]
  obtain x w2 where restore: "fs_rename ?R ?T w1 = (x, w2)" by fastforce
  note s2 = step_in_mono [OF rename_step [OF restore], of ?I]
  have s2': "step_in ?I w w2"
    by (rule reads_then_step [OF r1]) (rule s2, auto intro: install_region_parts)
  have w': "w' = (if replacing then w2 else w1)"
    using assms(1) mv restore by (auto simp: swap_in_def)
  have "lookup (files w2) (?T @ q) = lookup (files w) (?R @ q)" if "x = Inr v" for v q
    using rename_publishes [of ?R ?T w1 v w2 "?T @ q"] restore that r1 release_names_differ [OF id]
    by simp
  moreover have "files w2 = files w" if "x = Inl e" for e
    using rename_failed [of ?R ?T w1 e w2] restore that r1 by simp
  ultimately show ?thesis
    using s2' reads_step [OF r1] r1 by (cases x) (auto simp: w')
qed

lemma publish_staging_cases:
  assumes "publish_staging opts (staging_directory opts release_id) release_id w = (r, w')"
    and id: "install_validate_release_id release_id = Inr u"
  obtains replacing w2 x w3 where
    "step_in (retired_region (releases_at w opts)) w w2"
    "faults w = [] \<longrightarrow> faults w2 = [] \<and> replacing = (lookup (files w2) (target_at w opts release_id) \<noteq> None)"
    "make_way opts release_id replacing w2 = (x, w3)"
    "if is_ok x then swap_in opts release_id replacing w3 = (is_ok r, w') else isl r \<and> w' = w3"
proof -
  define w1 where "w1 = sweep_retired opts w"
  have s1: "step_in (retired_region (releases_at w opts)) w w1"
    unfolding w1_def by (rule sweep_retired_step)
  obtain replacing w2 where ex: "fs_exists (target_at w opts release_id) w1 = (replacing, w2)" by fastforce
  have c2: "faults w = [] \<longrightarrow> faults w2 = [] \<and> replacing = (lookup (files w2) (target_at w opts release_id) \<noteq> None)"
    using ex exists_calm [OF ex] sweep_retired_calm [of w opts]
    by (auto simp: w1_def fs_exists_def take_fault_none)
  note s2 = step_in_trans [OF s1 reads_step [OF exists_reads [OF ex]]]
  obtain x w3 where mk: "make_way opts release_id replacing w2 = (x, w3)" by fastforce
  note s3 = make_way_effect [OF mk id, THEN conjunct1]
  have a1: "at w1 s = at w s" and a2: "at w2 s = at w s" and a3: "at w3 s = at w s" for s
    using step_in_at [OF s1] step_in_at [OF s2] step_in_at [OF s3] by simp_all
  obtain y w4 where mv: "fs_rename (staging_at w opts release_id) (target_at w opts release_id) w3 = (y, w4)"
    by fastforce
  have a4: "at w4 s = at w s" for s
    using step_in_at [OF rename_step [OF mv]] a3 by simp
  obtain z w5 where restore: "fs_rename (retired_at w opts release_id) (target_at w opts release_id) w4 = (z, w5)"
    by fastforce
  note run = assms(1) [unfolded publish_staging_def Let_def, folded w1_def, folded make_way_def]
  note here = same_positions [OF id a1] same_positions [OF id a3] same_positions [OF id a4]
    same_positions [OF id refl]
  have "if is_ok x then swap_in opts release_id replacing w3 = (is_ok r, w') else isl r \<and> w' = w3"
  proof (cases x)
    case (Inl e)
    then show ?thesis using run ex mk here by auto
  next
    case (Inr v)
    have "(is_ok r, w') = (case y of Inr _ \<Rightarrow> (True, clean_up opts release_id w4)
        | Inl e \<Rightarrow> (False, if replacing then w5 else w4))"
    proof (cases y)
      case (Inl e)
      then show ?thesis
        using run [symmetric] ex mk mv restore here \<open>x = Inr v\<close>
        by (cases z) (simp_all split: if_split_asm)
    next
      case (Inr u)
      then show ?thesis using run [symmetric] ex mk mv here \<open>x = Inr v\<close> by simp
    qed
    then show ?thesis using mv restore Inr by (cases y) (simp_all add: swap_in_def a3)
  qed
  then show ?thesis using that s2 c2 mk by blast
qed

text \<open>
  The outcome of publishing: on success the target holds what the staging directory held; on
  failure the target is as before, or the release it held is intact in the retired directory.
\<close>

lemma publish_staging_effect:
  assumes "publish_staging opts (staging_directory opts release_id) release_id w = (r, w')"
    and id: "install_validate_release_id release_id = Inr u"
  shows "step_in (install_region (releases_at w opts) release_id) w w' \<and>
    (case r of
       Inr v \<Rightarrow> \<forall>q. lookup (files w') (target_at w opts release_id @ q) =
                     lookup (files w) (staging_at w opts release_id @ q)
     | Inl e \<Rightarrow>
         (\<forall>q. lookup (files w') (target_at w opts release_id @ q) =
              lookup (files w) (target_at w opts release_id @ q)) \<or>
         (\<forall>q. lookup (files w') (target_at w opts release_id @ q) = None \<and>
              lookup (files w') (retired_at w opts release_id @ q) =
              lookup (files w) (target_at w opts release_id @ q)))"
  using assms
proof (cases rule: publish_staging_cases)
  case (1 replacing w2 x w3)
  let ?I = "install_region (releases_at w opts) release_id"
  have s2: "step_in ?I w w2" by (rule step_in_mono [OF 1(1)]) (rule install_region_parts)
  have a2: "at w2 s = at w s" for s using step_in_at [OF s2] by simp
  note m = make_way_effect [OF 1(3) id, unfolded a2]
  have s3: "step_in ?I w w3" using step_in_trans [OF s2] m by blast
  have a3: "at w3 s = at w s" for s using step_in_at [OF s3] by simp
  have keep: "lookup (files w2) (target_at w opts release_id @ q) =
      lookup (files w) (target_at w opts release_id @ q)"
    "lookup (files w2) (staging_at w opts release_id @ q) =
      lookup (files w) (staging_at w opts release_id @ q)" for q
    using step_in_lookup [OF 1(1)] not_retired_region [of _ "releases_at w opts" q]
      release_not_retired(1) [OF id] staging_not_retired by simp_all
  show ?thesis
  proof (cases "is_ok x")
    case True
    with 1(4) have "swap_in opts release_id replacing w3 = (is_ok r, w')" by simp
    note good = swap_in_published [OF _ id, of opts replacing w3 w', unfolded a3]
      and bad = swap_in_failed [OF _ id, of opts replacing w3 w', unfolded a3]
    show ?thesis
    proof (cases r)
      case (Inr v)
      with \<open>swap_in _ _ _ _ = _\<close> good m keep step_in_trans [OF s3] show ?thesis by simp
    next
      case (Inl e)
      with \<open>swap_in _ _ _ _ = _\<close> bad m keep True step_in_trans [OF s3] show ?thesis
        by (cases replacing) auto
    qed
  next
    case False
    then show ?thesis using 1(4) m s3 keep by (auto split: sum.splits)
  qed
qed

section \<open>Installing, whatever fails\<close>

lemma staging_region_install:
  "staging_region (rels @ [kStagingPrefix @ release_id]) q \<Longrightarrow> install_region rels release_id q"
  by (auto simp: staging_region_def install_region_def)

lemma discard_step:
  assumes "install_validate_release_id release_id = Inr u"
  shows "step_in (prefix (staging_at w opts release_id)) w (discard (staging_directory opts release_id) w)"
  using remove_all_step [OF surjective_pairing] at_release(2) [OF assms, of w opts]
  by (simp add: discard_def)

text \<open>The steps of \<open>install\<close> before publishing stay in the staging directory.\<close>

lemma install_cases:
  assumes "install opts release_id source_directory w = (r, w')"
  obtains
    (refused) e where "r = Inl e" "w' = w"
  | (stopped) e where "install_validate_release_id release_id = Inr ()" "r = Inl e"
      "step_in (staging_region (staging_at w opts release_id)) w w'"
  | (attempted) w5 x w6 where "install_validate_release_id release_id = Inr ()"
      "step_in (staging_region (staging_at w opts release_id)) w w5"
      "publish_staging opts (staging_directory opts release_id) release_id w5 = (x, w6)"
      "r = x"
      "w' = (case x of Inl e \<Rightarrow> discard (staging_directory opts release_id) w6 | Inr u \<Rightarrow> w6)"
proof (cases "service_root opts = '''' \<or> isl (install_validate_release_id release_id)")
  case True
  then have "\<exists>e. r = Inl e \<and> w' = w"
    using assms by (auto simp: install_def split: sum.splits if_splits) metis
  then show ?thesis using refused by blast
next
  case False
  then have id: "install_validate_release_id release_id = Inr ()" "service_root opts \<noteq> ''''"
    by (cases "install_validate_release_id release_id", simp_all)
  let ?S = "staging_at w opts release_id" and ?s = "staging_directory opts release_id"
  let ?R = "staging_region ?S"
  obtain b w1 where d: "fs_is_directory (at w source_directory) w = (b, w1)" by fastforce
  have s1: "step_in ?R w w1" by (rule reads_step [OF is_directory_reads [OF d]])
  obtain y1 w2 where c: "fs_remove_all ?S w1 = (y1, w2)" by fastforce
  have s2: "step_in ?R w w2"
    by (rule step_in_trans [OF s1 step_in_mono [OF remove_all_step [OF c]]]) (simp add: staging_region_def)
  obtain y3 w3 where m: "fs_create_directories ?S w2 = (y3, w3)" by fastforce
  have s3: "step_in ?R w w3"
    by (rule step_in_trans [OF s2 step_in_mono [OF create_directories_step [OF m]]])
      (simp add: staging_region_def)
  obtain y4 w4 where l: "fs_walk (at w source_directory) w3 = (y4, w4)" by fastforce
  have s4: "step_in ?R w w4" by (rule step_in_trans [OF s3 reads_step [OF walk_reads [OF l]]])
  have a: "at w1 s = at w s" "at w2 s = at w s" "at w3 s = at w s" "at w4 s = at w s" for s
    using step_in_at s1 s2 s3 s4 by blast+
  have dis: "step_in ?R v (discard ?s v)" if "step_in ?R w v" for v
    using step_in_mono [OF discard_step [OF id(1), of v opts], of ?R] step_in_at [OF that]
    by (simp add: staging_region_def)
  note run = assms [unfolded install_def Let_def] id d c m l a
    same_positions(1) [OF id(1) a(1)] same_positions(1) [OF id(1) a(2)] same_positions(1) [OF id(1) a(4)]
  show ?thesis
  proof (cases "b \<and> is_ok y3 \<and> is_ok y4")
    case False
    have "\<exists>e. r = Inl e \<and> (w' = w1 \<or> w' = w3 \<or> w' = discard ?s w4)"
      using run False by (cases b; cases y3; cases y4) auto
    then show ?thesis using stopped [OF id(1)] s1 s3 step_in_trans [OF s4 dis [OF s4]] by blast
  next
    case True
    then obtain entries where y4: "y4 = Inr entries" by (cases y4) auto
    obtain z w5 where cp: "copy_entries source_directory (at w source_directory) ?S entries 0 w4 = (z, w5)"
      by fastforce
    have s5: "step_in ?R w w5" by (rule step_in_trans [OF s4 copy_entries_step [OF cp]])
    obtain x w6 where p: "publish_staging opts ?s release_id w5 = (x, w6)" by fastforce
    have "(\<exists>e. r = Inl e \<and> w' = discard ?s w5) \<or>
        r = x \<and> w' = (case x of Inl e \<Rightarrow> discard ?s w6 | Inr u \<Rightarrow> w6)"
    proof (cases z)
      case (Inl e)
      then show ?thesis using run True y4 cp by (cases y3) auto
    next
      case (Inr copied)
      define msg where "msg = ''release '' @ quoted release_id @ '' has no files to install''"
      have "(r, w') = (if copied = 0 then (Inl msg, discard ?s w5)
          else case publish_staging opts ?s release_id w5 of
                 (Inl e, w6) \<Rightarrow> (Inl e, discard ?s w6)
               | (Inr u, w6) \<Rightarrow> (Inr (), w6))"
        unfolding msg_def using run True y4 cp Inr by (cases y3) simp_all
      then show ?thesis unfolding p by (cases "copied = 0"; cases x) auto
    qed
    then show ?thesis
    proof (elim disjE exE conjE)
      fix e
      assume "r = Inl e" "w' = discard ?s w5"
      then show ?thesis using stopped [OF id(1)] step_in_trans [OF s5 dis [OF s5]] by simp
    next
      assume "r = x" "w' = (case x of Inl e \<Rightarrow> discard ?s w6 | Inr u \<Rightarrow> w6)"
      then show ?thesis by (rule attempted [OF id(1) s5 p])
    qed
  qed
qed

lemma install_step:
  assumes "install opts release_id source_directory w = (r, w')"
  shows "step_in (install_region (releases_at w opts) release_id) w w'"
  using assms
proof (cases rule: install_cases)
  case (refused e)
  then show ?thesis by simp
next
  case (stopped e)
  then show ?thesis using step_in_mono [OF stopped(3)] staging_region_install by blast
next
  case (attempted w5 x w6)
  let ?I = "install_region (releases_at w opts) release_id"
  have s5: "step_in ?I w w5" by (rule step_in_mono [OF attempted(2)]) (rule staging_region_install)
  have a5: "at w5 s = at w s" for s using step_in_at [OF s5] by simp
  have s6: "step_in ?I w w6"
    using step_in_trans [OF s5] publish_staging_effect [OF attempted(3,1), unfolded a5] by blast
  have "step_in ?I w6 (discard (staging_directory opts release_id) w6)"
    using step_in_mono [OF discard_step [OF attempted(1), of w6 opts], of ?I] step_in_at [OF s6]
      install_region_parts(4) by simp
  then show ?thesis using attempted(5) s6 step_in_trans [OF s6] by (simp split: sum.splits)
qed

text \<open>
  Installing a release, whatever calls fail, changes nothing outside four places under
  \<open>releases\<close>: its own staging directory, its own target directory, and directories whose name
  begins with \<open>.retired-\<close> (plus missing ancestors of \<open>releases\<close>). So no other installed
  release, no staging directory of another release and neither \<open>state.json\<close> nor the
  \<open>current\<close> link is touched, and the tree stays well formed.
\<close>

theorem install_frame:
  assumes "install opts release_id source_directory w = (r, w')"
  shows "(\<forall>q. \<not> prefix q (releases_at w opts) \<longrightarrow>
      \<not> prefix (releases_at w opts @ [''.staging-'' @ release_id]) q \<longrightarrow>
      \<not> prefix (releases_at w opts @ [release_id]) q \<longrightarrow>
      \<not> (\<exists>s. prefix (releases_at w opts @ [''.retired-'' @ s]) q) \<longrightarrow>
      lookup (files w') q = lookup (files w) q) \<and>
    (wf_tree (files w) \<longrightarrow> wf_tree (files w')) \<and>
    lookup (files w') (root_at w opts @ [''state.json'']) =
      lookup (files w) (root_at w opts @ [''state.json''])"
proof -
  note s = install_step [OF assms]
  have "lookup (files w') q = lookup (files w) q"
    if "\<not> prefix q (releases_at w opts)"
      "\<not> prefix (releases_at w opts @ [''.staging-'' @ release_id]) q"
      "\<not> prefix (releases_at w opts @ [release_id]) q"
      "\<not> (\<exists>s. prefix (releases_at w opts @ [''.retired-'' @ s]) q)" for q
    using step_in_lookup [OF s, of q] that
    unfolding install_region_def starts_with_append kStagingPrefix_def kRetiredPrefix_def by blast
  moreover have "\<not> install_region (releases_at w opts) release_id (root_at w opts @ [''state.json''])"
    by (auto simp: install_region_def)
  ultimately show ?thesis using step_in_wf [OF s] step_in_lookup [OF s] by blast
qed

text \<open>
  C7: A failing install never damages the release it was to replace, whatever calls fail and
  however the cleanup goes: afterwards the target directory holds exactly what it held before, or
  it is absent and everything it held is intact in the release's \<open>.retired-\<close> directory. A
  half-copied release is never visible under \<open>releases/<id>\<close>.
\<close>

theorem install_failure_keeps_release:
  assumes "install opts release_id source_directory w = (Inl e, w')"
  shows "(\<forall>q. lookup (files w') (releases_at w opts @ [release_id] @ q) =
             lookup (files w) (releases_at w opts @ [release_id] @ q)) \<or>
    (\<forall>q. lookup (files w') (releases_at w opts @ [release_id] @ q) = None \<and>
         lookup (files w') (releases_at w opts @ [''.retired-'' @ release_id] @ q) =
         lookup (files w) (releases_at w opts @ [release_id] @ q))"
  using assms
proof (cases rule: install_cases)
  case (refused e)
  then show ?thesis by simp
next
  case (stopped e)
  then show ?thesis
    using step_in_lookup [OF stopped(3)] release_names_differ [OF stopped(1)]
    by (simp add: staging_region_def)
next
  case (attempted w5 x w6)
  have a5: "at w5 s = at w s" for s using step_in_at [OF attempted(2)] by simp
  have before: "lookup (files w5) (target_at w opts release_id @ q) =
      lookup (files w) (target_at w opts release_id @ q)" for q
    using step_in_lookup [OF attempted(2), of "target_at w opts release_id @ q"]
      release_names_differ [OF attempted(1)] by (simp add: staging_region_def)
  have x1: "x = Inl e" using attempted(4) by simp
  have x2: "w' = discard (staging_directory opts release_id) w6" using attempted(5) x1 by simp
  note p = publish_staging_effect [OF attempted(3,1), unfolded a5 x1 sum.case]
  have a6: "at w6 s = at w s" for s using step_in_at [OF p [THEN conjunct1]] a5 by simp
  note d = discard_step [OF attempted(1), of w6 opts, unfolded a6, folded x2]
  have t: "lookup (files w') (target_at w opts release_id @ q) = lookup (files w6) (target_at w opts release_id @ q)"
    "lookup (files w') (retired_at w opts release_id @ q) = lookup (files w6) (retired_at w opts release_id @ q)"
    for q
    using step_in_lookup [OF d] release_names_differ [OF attempted(1)] by auto
  from p [THEN conjunct2] have
    "(\<forall>q. lookup (files w') (target_at w opts release_id @ q) =
          lookup (files w) (target_at w opts release_id @ q)) \<or>
     (\<forall>q. lookup (files w') (target_at w opts release_id @ q) = None \<and>
          lookup (files w') (retired_at w opts release_id @ q) =
          lookup (files w) (target_at w opts release_id @ q))"
    unfolding t before .
  then show ?thesis unfolding kRetiredPrefix_def [symmetric] append_assoc .
qed

section \<open>On the example device\<close>

definition failing_machine :: machine where
  "failing_machine = served_machine\<lparr>faults := replicate 19 None @ [io_error]\<rparr>"

theorem install_frame_witness:
  "fst (install served_options ''v1'' ''/dl/v1'' served_machine) = Inr () \<and>
   wf_tree (files (snd (install served_options ''v1'' ''/dl/v1'' served_machine)))"
proof -
  obtain r w' where i: "install served_options ''v1'' ''/dl/v1'' served_machine = (r, w')" by fastforce
  have "fst (install served_options ''v1'' ''/dl/v1'' served_machine) = Inr ()" by code_simp
  then show ?thesis using install_frame [OF i] served_wf i by simp
qed

theorem install_failure_keeps_release_witness:
  "\<exists>e w'. install served_options ''v1'' ''/dl/v1'' failing_machine = (Inl e, w') \<and>
     (lookup (files w') [''srv'', ''releases'', ''v1'', ''app''] = Some (File ''one'' 493) \<or>
      lookup (files w') [''srv'', ''releases'', ''.retired-v1'', ''app''] = Some (File ''one'' 493))"
proof -
  have "isl (fst (install served_options ''v1'' ''/dl/v1'' failing_machine))" by code_simp
  then obtain e w' where i: "install served_options ''v1'' ''/dl/v1'' failing_machine = (Inl e, w')"
    by (cases "install served_options ''v1'' ''/dl/v1'' failing_machine") (auto simp: isl_def)
  have root: "root_at failing_machine served_options = [''srv'']" by code_simp
  have old: "lookup (files failing_machine) [''srv'', ''releases'', ''v1'', ''app''] = Some (File ''one'' 493)"
    by code_simp
  show ?thesis
    using i install_failure_keeps_release [OF i] old
    by (auto simp: root dest: spec [of _ "[''app'']"])
qed

end
