(* ===== verification/ProperNames.thy ===== *)
theory ProperNames
  imports PruneFacts InstallFacts
begin

text \<open>
  Every name in the tree is a proper one: not empty, not \<open>.\<close> or \<open>..\<close>, without a slash. Directory
  iterators deliver such names only, and what removes or replaces a directory by its name relies
  on it. Every operation of the installer keeps it that way.
\<close>

definition proper :: "'a machine_scheme \<Rightarrow> bool" where
  "proper w \<longleftrightarrow> proper_names (files w) \<and> list_all plain_name (cwd w)"

lemma split_char_free: "x \<in> set (split_char d s) \<Longrightarrow> d \<notin> set x"
proof (induction s arbitrary: x)
  case (Cons c s)
  then show ?case by (auto split: list.splits if_splits)
qed simp

lemma resolve_proper:
  "list_all plain_name base \<Longrightarrow> \<forall>c \<in> set cs. CHR ''/'' \<notin> set c \<Longrightarrow> list_all plain_name (resolve base cs)"
proof (induction base cs rule: resolve.induct)
  case (2 base c cs)
  have "list_all plain_name (butlast base)"
    using "2.prems"(1) by (auto simp: list_all_iff dest: in_set_butlastD)
  moreover have "list_all plain_name (base @ [c])" if "\<not> (c = '''' \<or> c = ''.'')" "c \<noteq> ''..''"
    using that "2.prems" by (simp add: plain_name_def [of c] contains_char_def)
  ultimately show ?case using 2 by simp
qed simp

lemma at_proper [simp]: "proper w \<Longrightarrow> list_all plain_name (at w s)"
  using split_char_free by (auto simp: at_def locate_def proper_def intro!: resolve_proper)

lemma proper_names_lookup:
  "proper_names fs \<Longrightarrow> lookup fs q \<noteq> None \<Longrightarrow> list_all plain_name q"
  by (cases "q = []") (auto simp: lookup_def proper_names_def dest!: map_of_SomeD)

section \<open>The calls\<close>

lemma reads_proper: "reads w w' \<Longrightarrow> proper w' = proper w"
  by (cases w; cases w') (simp add: reads_def proper_def)

lemma proper_make_dirs: "proper_names fs \<Longrightarrow> list_all plain_name p \<Longrightarrow> proper_names (make_dirs p fs)"
  by (auto simp: proper_names_def make_dirs_def missing_dirs_def list_all_iff dest!: in_set_takeD)

lemma proper_drop_tree: "proper_names fs \<Longrightarrow> proper_names (drop_tree keep p fs)"
  by (auto simp: proper_names_def drop_tree_def)

lemma proper_put_node: "proper_names fs \<Longrightarrow> list_all plain_name p \<Longrightarrow> proper_names (put_node p n fs)"
proof -
  assume a: "proper_names fs" "list_all plain_name p"
  have "fst e = p \<or> e \<in> set fs" if "e \<in> set (AList.update p n fs)" for e
    using that by (induction fs) (auto split: if_splits)
  then show ?thesis using a by (auto simp: proper_names_def put_node_def)
qed

lemma proper_move_tree: "proper_names fs \<Longrightarrow> list_all plain_name b \<Longrightarrow> proper_names (move_tree a b fs)"
  by (auto simp: proper_names_def move_tree_def move_path_def list_all_iff dest: in_set_dropD)

lemma proper_files: "proper w \<Longrightarrow> proper_names fs \<Longrightarrow> proper (w\<lparr>files := fs\<rparr>)"
  by (simp add: proper_def)

lemma take_fault_proper: "take_fault w = (f, w') \<Longrightarrow> proper w \<Longrightarrow> proper w'"
  using take_fault_reads reads_proper by blast

lemma create_directories_proper:
  "fs_create_directories p w = (r, w') \<Longrightarrow> proper w \<Longrightarrow> list_all plain_name p \<Longrightarrow> proper w'"
  by (auto simp: fs_create_directories_def dest!: take_fault_proper
      intro!: proper_files proper_make_dirs split: prod.splits option.splits if_splits)
    (simp_all add: proper_def)

lemma remove_proper: "fs_remove p w = (r, w') \<Longrightarrow> proper w \<Longrightarrow> proper w'"
  by (auto simp: fs_remove_def dest!: take_fault_proper intro!: proper_files proper_drop_tree
      split: prod.splits option.splits if_splits)
    (simp_all add: proper_def)

lemma remove_all_proper: "fs_remove_all p w = (r, w') \<Longrightarrow> proper w \<Longrightarrow> proper w'"
  by (auto simp: fs_remove_all_def dest!: take_fault_proper intro!: proper_files proper_drop_tree
      split: prod.splits option.splits if_splits)
    (simp_all add: proper_def)

lemma rename_proper:
  assumes "fs_rename a b w = (r, w')" "proper w" "list_all plain_name b"
  shows "proper w'"
proof -
  obtain f w1 where t: "take_fault w = (f, w1)" by fastforce
  have p1: "proper w1" by (rule take_fault_proper [OF t assms(2)])
  have "proper_names fs" if "rename_tree a b (files w1) = Inr fs" for fs
    using rename_tree_cases [OF that] proper_move_tree [OF _ assms(3)] p1 by (auto simp: proper_def)
  then show ?thesis
    using assms(1) t p1 proper_files [OF p1]
    by (auto simp: fs_rename_def split: option.splits sum.splits)
qed

lemma copy_file_proper:
  assumes "fs_copy_file a b w = (r, w')" "proper w" "list_all plain_name b"
  shows "proper w'"
proof -
  obtain f w1 where t: "take_fault w = (f, w1)" by fastforce
  have p1: "proper w1" by (rule take_fault_proper [OF t assms(2)])
  show ?thesis
    using assms(1) t p1 proper_files [OF p1 proper_put_node [OF _ assms(3)]]
    by (auto simp: fs_copy_file_def proper_def split: option.splits node.splits if_splits)
qed

lemma symlink_proper:
  assumes "fs_symlink s p w = (r, w')" "proper w" "list_all plain_name p"
  shows "proper w'"
proof -
  obtain f w1 where t: "take_fault w = (f, w1)" by fastforce
  have p1: "proper w1" by (rule take_fault_proper [OF t assms(2)])
  show ?thesis
    using assms(1) t p1 proper_files [OF p1 proper_put_node [OF _ assms(3)]]
    by (auto simp: fs_symlink_def proper_def split: option.splits if_splits)
qed

lemma write_proper:
  assumes "fs_write p s w = (r, w')" "proper w" "list_all plain_name p"
  shows "proper w'"
proof -
  obtain f w1 where t: "take_fault w = (f, w1)" by fastforce
  have p1: "proper w1" by (rule take_fault_proper [OF t assms(2)])
  show ?thesis
    using assms(1) t p1 proper_files [OF p1 proper_put_node [OF _ assms(3)]]
    by (auto simp: fs_write_def proper_def split: option.splits if_splits)
qed

lemma remove_proper_snd [simp]: "proper w \<Longrightarrow> proper (snd (fs_remove p w))"
  using remove_proper by (metis prod.collapse)

lemma remove_all_proper_snd [simp]: "proper w \<Longrightarrow> proper (snd (fs_remove_all p w))"
  using remove_all_proper by (metis prod.collapse)

lemma rename_proper_snd [simp]: "proper w \<Longrightarrow> list_all plain_name b \<Longrightarrow> proper (snd (fs_rename a b w))"
  using rename_proper by (metis prod.collapse)

lemma symlink_proper_snd [simp]: "proper w \<Longrightarrow> list_all plain_name p \<Longrightarrow> proper (snd (fs_symlink s p w))"
  using symlink_proper by (metis prod.collapse)

lemmas read_calls_proper =
  take_fault_proper
  exists_reads [THEN reads_proper, THEN iffD2] is_directory_reads [THEN reads_proper, THEN iffD2]
  read_reads [THEN reads_proper, THEN iffD2] list_reads [THEN reads_proper, THEN iffD2]
  walk_reads [THEN reads_proper, THEN iffD2]

section \<open>The installer\<close>

lemma write_state_proper: "write_state L opts next w = (r, w') \<Longrightarrow> proper w \<Longrightarrow> proper w'"
  by (auto simp: write_state_def Let_def
      dest!: create_directories_proper write_proper rename_proper
      split: prod.splits sum.splits write_result.splits simp del: at_state_path at_state_temporary)

lemma refresh_current_link_proper: "proper w \<Longrightarrow> proper (refresh_current_link opts release_id w)"
  by (simp add: refresh_current_link_def Let_def del: at_current)

lemma activate_proper:
  assumes "activate L opts release_id w = (r, w')" "proper w"
  shows "proper w'"
  using assms(1)
proof (cases rule: activate_cases)
  case (refused e)
  then show ?thesis using reads_proper assms(2) by blast
next
  case (attempted current w1 w2 x w3)
  have "proper w3" using write_state_proper [OF attempted(5)] reads_proper [OF attempted(4)] assms(2) by simp
  then show ?thesis using attempted(7) refresh_current_link_proper by (auto split: sum.splits)
qed

lemma rollback_proper: "rollback L opts w = (r, w') \<Longrightarrow> proper w \<Longrightarrow> proper w'"
  by (auto simp: rollback_def Let_def
      dest!: installer_state_reads [THEN reads_proper, THEN iffD2] is_directory_reads [THEN reads_proper, THEN iffD2]
        write_state_proper
      intro: refresh_current_link_proper split: prod.splits sum.splits bool.splits if_splits)
lemma prune_loop_proper:
  "prune_loop opts current keep names retained removed w = (r, w') \<Longrightarrow> proper w \<Longrightarrow> proper w'"
proof (induction names arbitrary: retained removed w)
  case (Cons name names)
  obtain x w1 where "fs_remove_all (at w (release_directory opts name)) w = (x, w1)" by fastforce
  then show ?case
    using Cons.prems Cons.IH remove_all_proper [of _ w x w1] by (auto split: if_splits sum.splits)
qed simp

lemma prune_proper: "prune L opts w = (r, w') \<Longrightarrow> proper w \<Longrightarrow> proper w'"
  by (auto simp: prune_def Let_def
      dest!: installer_state_reads [THEN reads_proper, THEN iffD2] installed_reads [THEN reads_proper, THEN iffD2]
        prune_loop_proper
      split: prod.splits sum.splits)

lemma place_entry_proper:
  assumes "place_entry source staging relative copied w = (r, w')" "proper w"
    and "list_all plain_name (staging @ relative)"
  shows "proper w'"
proof -
  have "list_all plain_name (butlast (staging @ relative))"
    using assms(3) by (auto simp: list_all_iff dest: in_set_butlastD simp del: list_all_append butlast_append)
  then show ?thesis
    using assms
    by (auto simp: place_entry_def Let_def dest!: create_directories_proper copy_file_proper
        split: prod.splits sum.splits if_splits simp del: list_all_append)
qed

lemma copy_entries_proper:
  "copy_entries source_directory source staging entries copied w = (r, w') \<Longrightarrow> proper w \<Longrightarrow>
     list_all plain_name staging \<Longrightarrow> (\<And>e. e \<in> set entries \<Longrightarrow> list_all plain_name e) \<Longrightarrow> proper w'"
proof (induction entries arbitrary: copied w)
  case (Cons relative rest)
  obtain f w1 where t: "take_fault w = (f, w1)" by fastforce
  obtain x w2 where p: "place_entry source staging relative copied w1 = (x, w2)" by fastforce
  obtain g w3 where t3: "take_fault w2 = (g, w3)" by fastforce
  have p1: "proper w1" by (rule take_fault_proper [OF t Cons.prems(2)])
  have p2: "proper w2" by (rule place_entry_proper [OF p p1]) (use Cons.prems(3,4) in auto)
  have p3: "proper w3" by (rule take_fault_proper [OF t3 p2])
  have "proper w'" if "copy_entries source_directory source staging rest n w3 = (r, w')" for n
    by (rule Cons.IH [OF that p3 Cons.prems(3)]) (use Cons.prems(4) in auto)
  then show ?case
    using Cons.prems(1) t p t3 p1 p2 p3 by (auto split: option.splits sum.splits if_splits)
qed simp

lemma remove_each_proper: "proper w \<Longrightarrow> proper (remove_each ps w)"
  by (induction ps arbitrary: w) auto

lemma sweep_retired_proper: "proper w \<Longrightarrow> proper (sweep_retired opts w)"
  by (auto simp: sweep_retired_def dest!: list_reads [THEN reads_proper, THEN iffD2]
      intro!: remove_each_proper split: prod.splits sum.splits)

lemma set_aside_proper: "set_aside opts release_id w = (r, w') \<Longrightarrow> proper w \<Longrightarrow> proper w'"
  by (auto simp: set_aside_def Let_def dest!: remove_all_proper rename_proper split: prod.splits sum.splits)

lemma clean_up_proper: "proper w \<Longrightarrow> proper (clean_up opts release_id w)"
  by (auto simp: clean_up_def Let_def dest!: remove_all_proper split: prod.splits sum.splits)

lemma publish_staging_proper:
  assumes "publish_staging opts staging release_id w = (r, w')" "proper w"
  shows "proper w'"
proof -
  obtain b w1 where e: "fs_exists (at (sweep_retired opts w) (release_directory opts release_id))
      (sweep_retired opts w) = (b, w1)" by fastforce
  have p1: "proper w1"
    using exists_reads [OF e] reads_proper sweep_retired_proper [OF assms(2)] by blast
  obtain x w2 where s: "(if b then set_aside opts release_id w1 else (Inr (), w1)) = (x, w2)" by fastforce
  have p2: "proper w2" using s p1 set_aside_proper by (auto split: if_splits)
  show ?thesis
    using assms(1) e s p2
    by (auto simp: publish_staging_def Let_def dest!: rename_proper intro: clean_up_proper
        split: prod.splits sum.splits if_splits)
qed

lemma walk_proper: "fs_walk d w = (Inr entries, w') \<Longrightarrow> proper w \<Longrightarrow> e \<in> set entries \<Longrightarrow> list_all plain_name e"
  by (auto simp: fs_walk_def below_def proper_def proper_names_def list_all_iff dest!: take_fault_reads
      split: prod.splits option.splits if_splits)
    (metis fst_conv in_set_dropD)

lemma install_proper:
  assumes "install opts release_id source_directory w = (r, w')" "proper w"
  shows "proper w'"
proof (cases "service_root opts = '''' \<or> isl (install_validate_release_id release_id)")
  case True
  then show ?thesis using assms by (auto simp: install_def split: sum.splits if_splits)
next
  case False
  let ?s = "staging_directory opts release_id"
  obtain b w1 where d: "fs_is_directory (at w source_directory) w = (b, w1)" by fastforce
  obtain y1 w2 where c: "fs_remove_all (at w1 ?s) w1 = (y1, w2)" by fastforce
  obtain y3 w3 where m: "fs_create_directories (at w2 ?s) w2 = (y3, w3)" by fastforce
  obtain y4 w4 where l: "fs_walk (at w3 source_directory) w3 = (y4, w4)" by fastforce
  have p1: "proper w1" using is_directory_reads [OF d] reads_proper assms(2) by blast
  have p2: "proper w2" by (rule remove_all_proper [OF c p1])
  have p3: "proper w3" by (rule create_directories_proper [OF m p2]) (use p2 in simp)
  have p4: "proper w4" using walk_reads [OF l] reads_proper p3 by blast
  show ?thesis
  proof (cases "b \<and> is_ok y3 \<and> is_ok y4")
    case no: False
    have "w' = w \<or> w' = w1 \<or> w' = w3 \<or> w' = discard ?s w4"
      using assms(1) False no d c m l
      by (cases b; cases y3; cases y4) (auto simp: install_def Let_def split: sum.splits)
    then show ?thesis using assms(2) p1 p3 p4 by (auto simp: discard_def)
  next
    case True
    then obtain entries where y4: "y4 = Inr entries" by (cases y4) auto
    obtain z w5 where cp: "copy_entries source_directory (at w4 source_directory) (at w4 ?s) entries 0 w4 = (z, w5)"
      by fastforce
    have p5: "proper w5"
      by (rule copy_entries_proper [OF cp p4]) (use p4 walk_proper [OF l [unfolded y4] p3] in auto)
    obtain x w6 where pb: "publish_staging opts ?s release_id w5 = (x, w6)" by fastforce
    have p6: "proper w6" by (rule publish_staging_proper [OF pb p5])
    have "w' = discard ?s w5 \<or> w' = discard ?s w6 \<or> w' = w6"
      using assms(1) False True y4 d c m l cp pb
      by (cases y3; cases z; cases x) (auto simp: install_def Let_def split: sum.splits if_splits)
    then show ?thesis using p5 p6 by (auto simp: discard_def)
  qed
qed

section \<open>Without faults\<close>

text \<open>An exhausted fault plan stays exhausted in every operation.\<close>

lemma take_fault_calm: "take_fault w = (f, w') \<Longrightarrow> faults w = [] \<Longrightarrow> faults w' = []"
  by (simp add: take_fault_def)

lemma place_entry_keeps_calm:
  "place_entry source staging relative copied w = (r, w') \<Longrightarrow> faults w = [] \<Longrightarrow> faults w' = []"
  by (auto simp: place_entry_def Let_def dest!: create_directories_calm copy_file_calm
      split: prod.splits sum.splits if_splits)

lemma copy_entries_keeps_calm:
  "copy_entries source_directory source staging entries copied w = (r, w') \<Longrightarrow> faults w = [] \<Longrightarrow> faults w' = []"
proof (induction entries arbitrary: copied w)
  case (Cons relative rest)
  obtain x w2 where p: "place_entry source staging relative copied w = (x, w2)" by fastforce
  note c2 = place_entry_keeps_calm [OF p Cons.prems(2)]
  show ?case
    using Cons.prems p c2 Cons.IH [of _ w2]
    by (auto simp: take_fault_none split: sum.splits if_splits)
qed simp

lemma set_aside_calm1: "set_aside opts release_id w = (r, w') \<Longrightarrow> faults w = [] \<Longrightarrow> faults w' = []"
  by (auto simp: set_aside_def Let_def dest!: remove_all_calm rename_calm split: prod.splits sum.splits)

lemma clean_up_calm: "faults w = [] \<Longrightarrow> faults (clean_up opts release_id w) = []"
  by (auto simp: clean_up_def Let_def dest!: remove_all_calm split: prod.splits sum.splits)

lemma publish_staging_calm:
  assumes "publish_staging opts staging release_id w = (r, w')" "faults w = []"
  shows "faults w' = []"
proof -
  obtain b w1 where e: "fs_exists (at (sweep_retired opts w) (release_directory opts release_id))
      (sweep_retired opts w) = (b, w1)" by fastforce
  have p1: "faults w1 = []" by (rule exists_calm [OF e sweep_retired_calm [OF assms(2)]])
  obtain x w2 where s: "(if b then set_aside opts release_id w1 else (Inr (), w1)) = (x, w2)" by fastforce
  have p2: "faults w2 = []" using s p1 set_aside_calm1 by (auto split: if_splits)
  show ?thesis
    using assms(1) e s p2
    by (auto simp: publish_staging_def Let_def dest!: rename_calm intro: clean_up_calm
        split: prod.splits sum.splits if_splits)
qed

lemma install_calm:
  assumes "install opts release_id source_directory w = (r, w')" "faults w = []"
  shows "faults w' = []"
proof (cases "service_root opts = '''' \<or> isl (install_validate_release_id release_id)")
  case True
  then show ?thesis using assms by (auto simp: install_def split: sum.splits if_splits)
next
  case False
  let ?s = "staging_directory opts release_id"
  obtain b w1 where d: "fs_is_directory (at w source_directory) w = (b, w1)" by fastforce
  obtain y1 w2 where c: "fs_remove_all (at w1 ?s) w1 = (y1, w2)" by fastforce
  obtain y3 w3 where m: "fs_create_directories (at w2 ?s) w2 = (y3, w3)" by fastforce
  obtain y4 w4 where l: "fs_walk (at w3 source_directory) w3 = (y4, w4)" by fastforce
  have p1: "faults w1 = []" by (rule is_directory_calm [OF d assms(2)])
  have p2: "faults w2 = []" by (rule remove_all_calm [OF c p1])
  have p3: "faults w3 = []" by (rule create_directories_calm [OF m p2])
  have p4: "faults w4 = []" by (rule walk_calm [OF l p3])
  show ?thesis
  proof (cases "b \<and> is_ok y3 \<and> is_ok y4")
    case no: False
    have "w' = w \<or> w' = w1 \<or> w' = w3 \<or> w' = discard ?s w4"
      using assms(1) False no d c m l
      by (cases b; cases y3; cases y4) (auto simp: install_def Let_def split: sum.splits)
    then show ?thesis using assms(2) p1 p3 p4 by (auto simp: discard_def)
  next
    case True
    then obtain entries where y4: "y4 = Inr entries" by (cases y4) auto
    obtain z w5 where cp: "copy_entries source_directory (at w4 source_directory) (at w4 ?s) entries 0 w4 = (z, w5)"
      by fastforce
    have p5: "faults w5 = []" by (rule copy_entries_keeps_calm [OF cp p4])
    obtain x w6 where pb: "publish_staging opts ?s release_id w5 = (x, w6)" by fastforce
    have p6: "faults w6 = []" by (rule publish_staging_calm [OF pb p5])
    have "w' = discard ?s w5 \<or> w' = discard ?s w6 \<or> w' = w6"
      using assms(1) False True y4 d c m l cp pb
      by (cases y3; cases z; cases x) (auto simp: install_def Let_def split: sum.splits if_splits)
    then show ?thesis using p5 p6 by (auto simp: discard_def)
  qed
qed

lemma activate_calm:
  assumes "activate L opts release_id w = (r, w')" "faults w = []"
  shows "faults w' = []"
  using assms
  by (auto simp: activate_def Let_def installer_state_calm refresh_current_link_calm
      dest!: is_directory_calm write_state_calm split: prod.splits sum.splits bool.splits)

end
