(* ===== verification/ActivationSpec.thy ===== *)
theory ActivationSpec
  imports InstallerFacts
begin

text \<open>
  What the activation of releases promises, as an abstract machine of two names, and that
  \<open>ReleaseInstaller\<close> refines it: the abstraction of a device is what \<open>state.json\<close> reads back as, and
  every sequence of activations and rollbacks answers and ends as the abstract one does.
\<close>

section \<open>The abstract machine\<close>

text \<open>The active and the previous release; \<open>present\<close> says which releases are installed.\<close>

type_synonym choice = "string \<times> string"

datatype switch = Activate string | RollBack

fun switch_to :: "(string \<Rightarrow> bool) \<Rightarrow> switch \<Rightarrow> choice \<Rightarrow> bool \<times> choice" where
  "switch_to present (Activate r) (a, p) =
     (if present r then (True, (r, if a = r then p else a)) else (False, (a, p)))"
| "switch_to present RollBack (a, p) = (if p \<noteq> '''' \<and> present p then (True, (p, a)) else (False, (a, p)))"

fun switch_all :: "(string \<Rightarrow> bool) \<Rightarrow> switch list \<Rightarrow> choice \<Rightarrow> bool list \<times> choice" where
  "switch_all present [] x = ([], x)"
| "switch_all present (s # ss) x =
     (case switch_to present s x of
        (b, x1) \<Rightarrow> (case switch_all present ss x1 of (bs, x2) \<Rightarrow> (b # bs, x2)))"

section \<open>The same on the device\<close>

definition perform :: "json_lib \<Rightarrow> install_options \<Rightarrow> switch \<Rightarrow> 'a machine_scheme \<Rightarrow> bool \<times> 'a machine_scheme" where
  "perform L opts s w =
     (case s of
        Activate r \<Rightarrow> (case activate L opts r w of (x, w') \<Rightarrow> (is_ok x, w'))
      | RollBack \<Rightarrow> (case rollback L opts w of (x, w') \<Rightarrow> (is_ok x, w')))"

fun perform_all ::
    "json_lib \<Rightarrow> install_options \<Rightarrow> switch list \<Rightarrow> 'a machine_scheme \<Rightarrow> bool list \<times> 'a machine_scheme" where
  "perform_all L opts [] w = ([], w)"
| "perform_all L opts (s # ss) w =
     (case perform L opts s w of
        (b, w1) \<Rightarrow> (case perform_all L opts ss w1 of (bs, w2) \<Rightarrow> (b # bs, w2)))"

definition chosen :: "activation_state \<Rightarrow> choice" where
  "chosen s = (active s, previous s)"

definition installed_at :: "install_options \<Rightarrow> 'a machine_scheme \<Rightarrow> string \<Rightarrow> bool" where
  "installed_at opts w r \<longleftrightarrow>
     install_validate_release_id r = Inr () \<and> lookup (files w) (releases_at w opts @ [r]) = Some Directory"

text \<open>The concrete invariant: the disk accepts a new state file, and the state names releases.\<close>

definition orderly :: "json_lib \<Rightarrow> install_options \<Rightarrow> activation_state \<Rightarrow> 'a machine_scheme \<Rightarrow> bool" where
  "orderly L opts s w \<longleftrightarrow>
     faults w = [] \<and> wf_tree (files w) \<and> lookup (files w) (root_at w opts) = Some Directory \<and>
     free_or_file (files w) (root_at w opts @ [''state.json'']) \<and>
     free_or_file (files w) (root_at w opts @ [''state.json.tmp'']) \<and>
     stored_state L opts w = Inr s \<and> plain_state s \<and>
     (previous s = '''' \<or> install_validate_release_id (previous s) = Inr ()) \<and>
     (active s = '''' \<or> install_validate_release_id (active s) = Inr ())"

section \<open>Refinement\<close>

lemma root_not_blocked:
  assumes "wf_tree fs" "lookup fs p = Some Directory"
  shows "\<not> dirs_blocked fs p"
proof -
  have "lookup fs (take n p) = Some Directory" if "n \<le> length p" for n
  proof (cases "take n p = p")
    case False
    then have "strict_prefix (take n p) p" using take_is_prefix by (auto simp: strict_prefix_def)
    then show ?thesis using wf_tree_parents [OF assms(1), of p] assms(2) by simp
  qed (use assms in simp)
  then show ?thesis unfolding dirs_blocked_def by force
qed

lemma publish_orderly:
  assumes "boost_json L" "orderly L opts s w" "plain_state t"
    and "previous t = '''' \<or> install_validate_release_id (previous t) = Inr ()"
    and "active t = '''' \<or> install_validate_release_id (active t) = Inr ()"
  shows "\<exists>w1. write_state L opts t w = (Inr (), w1) \<and> orderly L opts t (refresh_current_link opts r w1) \<and>
    installed_at opts (refresh_current_link opts r w1) = installed_at opts w"
proof -
  let ?root = "root_at w opts"
  have o: "faults w = []" "wf_tree (files w)" "lookup (files w) ?root = Some Directory"
    "free_or_file (files w) (?root @ [''state.json''])" "free_or_file (files w) (?root @ [''state.json.tmp''])"
    using assms(2) by (simp_all add: orderly_def)
  obtain w1 where w: "write_state L opts t w = (Inr (), w1)"
    using write_state_succeeds [OF o(1) root_not_blocked [OF o(2,3)] o(5,4)] by blast
  define w' where "w' = refresh_current_link opts r w1"
  have link: "step_in (activation_region ?root) w w'"
    "\<exists>m. lookup (files w') (?root @ [''state.json'']) = Some (File (state_text L t) m)"
    using write_then_link [OF w, of w' r] by (simp_all add: w'_def)
  note at' = step_in_at [OF link(1)]
  have stored: "stored_state L opts w' = Inr t"
    using link(2) stored_state_file [OF assms(1,3), of w' opts] at' by auto
  have calm: "faults w' = []"
    using write_state_calm [OF w o(1)] by (simp add: w'_def refresh_current_link_calm)
  have rel: "lookup (files w') (releases_at w opts @ [x]) = lookup (files w) (releases_at w opts @ [x])" for x
    using step_in_lookup [OF link(1), of "releases_at w opts @ [x]"]
    by (auto simp: activation_region_def state_region_def)
  have tmp: "free_or_file (files w') (?root @ [''state.json.tmp''])"
    using write_state_tmp [OF w] step_in_lookup [OF refresh_current_link_step, of w1 opts "?root @ [''state.json.tmp'']" r]
      step_in_at [OF write_state_step [OF w]]
    by (simp add: w'_def free_or_file_def)
  have wf: "wf_tree (files w')" using step_in_wf [OF link(1) o(2)] .
  have root: "lookup (files w') ?root = Some Directory"
    using link(2) wf_tree_parents [OF wf, of "?root @ [''state.json'']" ?root] by auto
  have "orderly L opts t w'"
    using calm wf root link(2) tmp stored assms(3-5) at' by (auto simp: orderly_def free_or_file_def)
  moreover have "installed_at opts w' = installed_at opts w"
    using rel at' by (simp add: installed_at_def fun_eq_iff)
  ultimately show ?thesis using w unfolding w'_def by blast
qed

lemma release_found:
  assumes "orderly L opts s w" "install_validate_release_id r = Inr ()"
  shows "fs_is_directory (at w (release_directory opts r)) w = (installed_at opts w r, w)"
  using assms at_release(1) [OF assms(2), of w opts]
  by (simp add: orderly_def installed_at_def fs_is_directory_def take_fault_none)

lemma activate_refines:
  assumes "boost_json L" "orderly L opts s w" "plain_text r" "activate L opts r w = (x, w')"
  shows "\<exists>t. orderly L opts t w' \<and> installed_at opts w' = installed_at opts w \<and>
    switch_to (installed_at opts w) (Activate r) (chosen s) = (is_ok x, chosen t)"
proof (cases "install_validate_release_id r")
  case (Inl e)
  then have "x = Inl e" "w' = w" using assms(4) by (auto simp: activate_def)
  then show ?thesis using assms(2) Inl by (intro exI [of _ s]) (simp add: chosen_def installed_at_def)
next
  case (Inr u)
  then have ok: "install_validate_release_id r = Inr ()" by simp
  have i: "installer_state L opts w = (Inr s, w)"
    using installer_state_calm [of w] assms(2) by (simp add: orderly_def)
  note d = release_found [OF assms(2) ok]
  let ?t = "next_activation r s (utc_now w)"
  have "plain_state ?t" "previous ?t = '''' \<or> install_validate_release_id (previous ?t) = Inr ()"
    using assms(2,3) ok by (auto simp: plain_state_def next_activation_def utc_now_def orderly_def)
  then obtain w1 where w: "write_state L opts ?t w = (Inr (), w1)"
    "orderly L opts ?t (refresh_current_link opts r w1)"
    "installed_at opts (refresh_current_link opts r w1) = installed_at opts w"
    using publish_orderly [OF assms(1,2), of ?t r] ok by (auto simp: next_activation_def)
  show ?thesis
  proof (cases "installed_at opts w r")
    case True
    then have "x = Inr ()" "w' = refresh_current_link opts r w1"
      using assms(4) ok d i w(1) by (auto simp: activate_def Let_def next_activation_def)
    then show ?thesis using w(2,3) True by (intro exI [of _ ?t]) (simp add: chosen_def next_activation_def)
  next
    case False
    then have "\<not> is_ok x" "w' = w" using assms(4) ok d by (auto simp: activate_def)
    then show ?thesis using assms(2) False by (intro exI [of _ s]) (simp add: chosen_def)
  qed
qed

lemma rollback_refines:
  assumes "boost_json L" "orderly L opts s w" "rollback L opts w = (x, w')"
  shows "\<exists>t. orderly L opts t w' \<and> installed_at opts w' = installed_at opts w \<and>
    switch_to (installed_at opts w) RollBack (chosen s) = (is_ok x, chosen t)"
proof (cases "previous s = ''''")
  case True
  have "installer_state L opts w = (Inr s, w)"
    using installer_state_calm [of w] assms(2) by (simp add: orderly_def)
  then have "\<not> is_ok x" "w' = w" using assms(3) True by (auto simp: rollback_def)
  then show ?thesis using assms(2) True by (intro exI [of _ s]) (simp add: chosen_def)
next
  case False
  have i: "installer_state L opts w = (Inr s, w)"
    using installer_state_calm [of w] assms(2) by (simp add: orderly_def)
  have ok: "install_validate_release_id (previous s) = Inr ()" using assms(2) False by (simp add: orderly_def)
  note d = release_found [OF assms(2) ok]
  let ?t = "swapped s (utc_now w)"
  have "plain_state ?t" "previous ?t = '''' \<or> install_validate_release_id (previous ?t) = Inr ()"
    using assms(2) by (auto simp: plain_state_def swapped_def utc_now_def orderly_def)
  then obtain w1 where w: "write_state L opts ?t w = (Inr (), w1)"
    "orderly L opts ?t (refresh_current_link opts (previous s) w1)"
    "installed_at opts (refresh_current_link opts (previous s) w1) = installed_at opts w"
    using publish_orderly [OF assms(1,2), of ?t "previous s"] ok by (auto simp: swapped_def)
  show ?thesis
  proof (cases "installed_at opts w (previous s)")
    case True
    then have "x = Inr (previous s)" "w' = refresh_current_link opts (previous s) w1"
      using assms(3) False d i w(1) by (auto simp: rollback_def Let_def swapped_def)
    then show ?thesis using w(2,3) True False by (intro exI [of _ ?t]) (simp add: chosen_def swapped_def)
  next
    case absent: False
    then have "\<not> is_ok x" "w' = w" using assms(3) False d i by (auto simp: rollback_def Let_def)
    then show ?thesis using assms(2) False absent by (intro exI [of _ s]) (simp add: chosen_def)
  qed
qed

text \<open>
  C17: Switching releases is as simple as it looks. Without I/O errors, any sequence of \<open>activate\<close> and
  \<open>rollback\<close> answers, call by call, as the abstract machine of two names does, and leaves on disk,
  read back from \<open>state.json\<close>, exactly the two names it ends with; the installed releases stay.
\<close>

theorem activation_refines:
  assumes "boost_json L" "orderly L opts s w" "\<forall>r. Activate r \<in> set ss \<longrightarrow> plain_text r"
    and "perform_all L opts ss w = (bs, w')"
  shows "\<exists>t. stored_state L opts w' = Inr t \<and> installed_at opts w' = installed_at opts w \<and>
    switch_all (installed_at opts w) ss (chosen s) = (bs, chosen t)"
  using assms(2-)
proof (induction ss arbitrary: s w bs w')
  case Nil
  then show ?case by (auto simp: orderly_def)
next
  case (Cons c ss)
  obtain b w1 where b: "perform L opts c w = (b, w1)" by fastforce
  obtain cs w2 where r: "perform_all L opts ss w1 = (cs, w2)" by fastforce
  have e: "bs = b # cs" "w' = w2" using Cons.prems(3) b r by simp_all
  obtain t where t: "orderly L opts t w1" "installed_at opts w1 = installed_at opts w"
    "switch_to (installed_at opts w) c (chosen s) = (b, chosen t)"
  proof (cases c)
    case (Activate r)
    then show ?thesis
      using that b Cons.prems(1,2) activate_refines [OF assms(1), of opts s w r]
      by (fastforce simp: perform_def split: prod.splits)
  next
    case RollBack
    then show ?thesis
      using that b Cons.prems(1) rollback_refines [OF assms(1), of opts s w]
      by (fastforce simp: perform_def split: prod.splits)
  qed
  show ?case using Cons.IH [OF t(1) _ r] Cons.prems(2) t(2,3) e by auto
qed

theorem activation_refines_witness:
  "\<exists>w' t. perform_all unary_json served_options [Activate ''v1'', Activate ''v0'', RollBack, Activate ''v9'']
       served_machine = ([True, True, True, False], w') \<and>
     stored_state unary_json served_options w' = Inr t \<and> active t = ''v1'' \<and> previous t = ''v0''"
proof -
  let ?ss = "[Activate ''v1'', Activate ''v0'', RollBack, Activate ''v9'']"
  obtain bs w' where p: "perform_all unary_json served_options ?ss served_machine = (bs, w')" by fastforce
  have l: "lookup (files served_machine) [''srv''] = Some Directory"
    "lookup (files served_machine) [''srv'', ''state.json''] = None"
    "lookup (files served_machine) [''srv'', ''state.json.tmp''] = None" by code_simp+
  have e: "plain_state empty_activation" by (simp add: plain_state_def empty_activation_def)
  have o: "orderly unary_json served_options empty_activation served_machine"
    using served_calm served_wf served_state l e by (simp add: orderly_def served_root free_or_file_def empty_activation_def)
  have i: "installed_at served_options served_machine ''v1''" "installed_at served_options served_machine ''v0''"
    "\<not> installed_at served_options served_machine ''v9''" by code_simp+
  have "\<forall>r. Activate r \<in> set ?ss \<longrightarrow> plain_text r" by auto
  from activation_refines [OF boost_json_unary o this p] obtain t
    where "stored_state unary_json served_options w' = Inr t"
      "switch_all (installed_at served_options served_machine) ?ss (chosen empty_activation) = (bs, chosen t)" by blast
  then show ?thesis using p i by (auto simp: chosen_def empty_activation_def)
qed

end
