(* ===== verification/Console.thy ===== *)
theory Console
  imports MachineFacts
begin

text \<open>
  The world of the command-line tool, \<open>DeployCLI/Confirmation.cpp\<close> and \<open>DeployCLI/RestClient.cpp\<close>.

  \<open>cli\<close> extends the machine by the lines left on the standard input, what was written to the two
  outputs, the member \<open>last_output_\<close> of \<open>Commands\<close>, the answers the control plane will give (an
  error of libcurl, or a status and a body; none left is a timeout) and a log of the requests
  that were sent. Getting a curl handle can fail like any other call of the fault plan.
\<close>

record rest_request =
  rest_url :: string
  rest_timeout :: int
  rest_body :: "string option"
  rest_headers :: "string list"

record cli = machine +
  stdin_lines :: "string list"
  screen :: string
  prompts :: string
  last_output :: string
  replies :: "(int \<times> string) expected list"
  requests :: "rest_request list"

section \<open>\<open>Confirmation\<close>\<close>

definition is_blank :: "char \<Rightarrow> bool" where
  "is_blank c \<longleftrightarrow> c = CHR '' '' \<or> c = CHR 0x09 \<or> c = CHR 0x0D \<or> c = CHR 0x0A"

definition trimmed :: "string \<Rightarrow> string" where
  "trimmed s = rev (dropWhile is_blank (rev (dropWhile is_blank s)))"

record confirmation =
  provided_token :: string
  interactive :: bool

definition confirm ::
    "confirmation \<Rightarrow> string \<Rightarrow> string \<Rightarrow> 'a cli_scheme \<Rightarrow> unit expected \<times> 'a cli_scheme" where
  "confirm C expected_token scope w =
     (if provided_token C \<noteq> '''' then
        (if provided_token C = expected_token then (Inr (), w)
         else (Inl (''--confirm '' @ quoted (provided_token C) @ '' does not name the command being run'' @ em_dash @
                 ''pass --confirm '' @ expected_token), w))
      else if \<not> interactive C then
        (Inl (quoted expected_token @ '' targets '' @ scope @ '' and was not confirmed'' @ em_dash @
           ''stdin is not a terminal, so pass --confirm '' @ expected_token), w)
      else
        (let w1 = w\<lparr>prompts := prompts w @ quoted expected_token @ '' targets '' @ scope @ ''.'' @ [CHR 0x0A] @
                     ''type '' @ quoted expected_token @ '' to continue: ''\<rparr>
         in case stdin_lines w1 of
              [] \<Rightarrow> (Inl (quoted expected_token @ '' was not confirmed'' @ em_dash @ ''no answer on stdin''), w1)
            | answer # lines \<Rightarrow>
                (let w2 = w1\<lparr>stdin_lines := lines\<rparr>
                 in if trimmed answer \<noteq> expected_token
                    then (Inl (quoted expected_token @ '' was not confirmed''), w2) else (Inr (), w2))))"

section \<open>\<open>RestClient\<close>\<close>

record rest_response =
  status_code :: int
  response_body :: string

definition response_ok :: "rest_response \<Rightarrow> bool" where
  "response_ok r \<longleftrightarrow> 200 \<le> status_code r \<and> status_code r < 300"

record rest_client =
  base_url :: string
  client_token :: string
  client_timeout :: int

fun drop_slashes :: "string \<Rightarrow> string" where
  "drop_slashes [] = []"
| "drop_slashes (c # s) = (if c = CHR ''/'' then drop_slashes s else c # s)"

definition trim_trailing_slash :: "string \<Rightarrow> string" where
  "trim_trailing_slash url = rev (drop_slashes (rev url))"

definition make_rest_client :: "string \<Rightarrow> string \<Rightarrow> int \<Rightarrow> rest_client" where
  "make_rest_client url token timeout =
     \<lparr>base_url = trim_trailing_slash url, client_token = token, client_timeout = timeout\<rparr>"

definition make_request :: "rest_client \<Rightarrow> string \<Rightarrow> string option \<Rightarrow> rest_request" where
  "make_request C path body =
     \<lparr>rest_url = c_str (base_url C @ path), rest_timeout = client_timeout C, rest_body = body,
      rest_headers =
        (case body of None \<Rightarrow> [] | Some _ \<Rightarrow> [''Content-Type: application/json'']) @
        (if client_token C = '''' then [] else [c_str (''Authorization: Bearer '' @ client_token C)])\<rparr>"

definition rest_send ::
    "rest_client \<Rightarrow> string \<Rightarrow> string option \<Rightarrow> 'a cli_scheme \<Rightarrow> rest_response expected \<times> 'a cli_scheme" where
  "rest_send C path body w =
     (if base_url C = '''' then (Inl ''control_plane_url is empty'', w)
      else
        (case take_fault w of
           (Some f, w1) \<Rightarrow> (Inl ''cannot initialise the HTTP client'', w1)
         | (None, w1) \<Rightarrow>
             (let url = base_url C @ path;
                  answer = (case replies w1 of [] \<Rightarrow> Inl ''Timeout was reached'' | r # _ \<Rightarrow> r);
                  w2 = w1\<lparr>replies := tl (replies w1), requests := requests w1 @ [make_request C path body]\<rparr>
              in case answer of
                   Inl e \<Rightarrow> (Inl (''cannot reach '' @ quoted url @ '': '' @ e), w2)
                 | Inr (status, content) \<Rightarrow>
                     (Inr \<lparr>status_code = status, response_body = content\<rparr>, w2))))"

definition rest_post :: "rest_client \<Rightarrow> string \<Rightarrow> string \<Rightarrow> 'a cli_scheme \<Rightarrow> rest_response expected \<times> 'a cli_scheme" where
  "rest_post C path json_body w = rest_send C path (Some json_body) w"

definition rest_get :: "rest_client \<Rightarrow> string \<Rightarrow> 'a cli_scheme \<Rightarrow> rest_response expected \<times> 'a cli_scheme" where
  "rest_get C path w = rest_send C path None w"

section \<open>What they do to the world\<close>

text \<open>A confirmation sends nothing, and is given only by the command's own name.\<close>

lemma confirm_effect:
  assumes "confirm C expected scope w = (r, w')"
  shows "requests w' = requests w \<and> files w' = files w \<and>
    (r = Inr () \<longrightarrow> expected \<noteq> '''' \<longrightarrow>
       provided_token C = expected \<or>
       provided_token C = '''' \<and> interactive C \<and> (\<exists>line lines. stdin_lines w = line # lines \<and> trimmed line = expected))"
  using assms by (auto simp: confirm_def Let_def split: if_splits list.splits)

lemma rest_send_effect:
  assumes "rest_send C path body w = (r, w')"
  shows "files w' = files w \<and>
    (requests w' = requests w \<and> \<not> is_ok r \<or> requests w' = requests w @ [make_request C path body])"
proof -
  obtain f w1 where t: "take_fault w = (f, w1)" by fastforce
  have k: "files w1 = files w" "requests w1 = requests w"
    using t by (auto simp: take_fault_def split: list.splits)
  show ?thesis
    using assms t k
    by (auto simp: rest_send_def Let_def split: if_splits option.splits list.splits sum.splits prod.splits)
qed

end
