(* ===== verification/AgentConfig.thy ===== *)
theory AgentConfig
  imports Json Paths "HOL-Library.Word"
begin

text \<open>
  \<open>YirangAgent/Configurations.cpp\<close>: defaults, the configuration file, the command line and the
  final correction of values out of range.

  The argument parser, the file reader and the log levels come from a library outside the
  repository; they are the fields of \<open>config_env\<close>: what \<open>to_string\<close>, \<open>to_int\<close> and \<open>to_bool\<close> answer
  for an option, the bytes of a file (\<open>None\<close> when it cannot be opened or read), and the numbers of
  three log levels. An \<open>int\<close> of the code is an integer here; \<open>(int) as_int64 ()\<close> keeps the low 32
  bits, which is \<open>int_of_int64\<close>.
\<close>

record config_env =
  env_json :: json_lib
  program_folder :: string
  argument_string :: "string \<Rightarrow> string option"
  argument_int :: "string \<Rightarrow> int option"
  argument_bool :: "string \<Rightarrow> bool option"
  config_content :: "string \<Rightarrow> string option"
  level_none :: int
  level_information :: int
  level_packet :: int

record agent_config =
  cfg_root_path :: string
  cfg_config_path :: string
  cfg_main_title :: string
  cfg_write_file_log :: int
  cfg_write_console_log :: int
  cfg_write_interval :: int
  cfg_log_root_path :: string
  cfg_device_id :: string
  cfg_group :: string
  cfg_queue_url :: string
  cfg_result_queue_url :: string
  cfg_poll_wait_seconds :: int
  cfg_version_root :: string
  cfg_service_root :: string
  cfg_keep_previous_releases :: int
  cfg_s3_bucket :: string
  cfg_s3_region :: string
  cfg_s3_endpoint :: string
  cfg_allow_insecure_tls :: bool
  cfg_queue_region :: string
  cfg_queue_endpoint :: string
  cfg_service_executable :: string
  cfg_service_arguments :: "string list"
  cfg_service_working_directory :: string
  cfg_stop_timeout_seconds :: int
  cfg_startup_timeout_seconds :: int
  cfg_health_kind :: string
  cfg_health_host :: string
  cfg_health_port :: int
  cfg_health_path :: string
  cfg_health_expected_status :: int
  cfg_health_timeout_ms :: int
  cfg_health_interval_ms :: int
  cfg_health_success_threshold :: int
  cfg_health_failure_threshold :: int

definition default_config :: "config_env \<Rightarrow> agent_config" where
  "default_config E =
     \<lparr>cfg_root_path = '''', cfg_config_path = '''', cfg_main_title = ''yirang-agent'',
      cfg_write_file_log = level_information E, cfg_write_console_log = level_information E,
      cfg_write_interval = 1000, cfg_log_root_path = '''', cfg_device_id = '''', cfg_group = '''',
      cfg_queue_url = '''', cfg_result_queue_url = '''', cfg_poll_wait_seconds = 20,
      cfg_version_root = '''', cfg_service_root = '''', cfg_keep_previous_releases = 2,
      cfg_s3_bucket = '''', cfg_s3_region = ''us-east-1'', cfg_s3_endpoint = '''',
      cfg_allow_insecure_tls = False, cfg_queue_region = '''', cfg_queue_endpoint = '''',
      cfg_service_executable = '''', cfg_service_arguments = [], cfg_service_working_directory = '''',
      cfg_stop_timeout_seconds = 30, cfg_startup_timeout_seconds = 60, cfg_health_kind = ''process'',
      cfg_health_host = ''127.0.0.1'', cfg_health_port = 0, cfg_health_path = ''/'',
      cfg_health_expected_status = 200, cfg_health_timeout_ms = 2000, cfg_health_interval_ms = 1000,
      cfg_health_success_threshold = 1, cfg_health_failure_threshold = 3\<rparr>"

section \<open>\<open>load\<close>\<close>

definition int_of_int64 :: "64 word \<Rightarrow> int" where
  "int_of_int64 n = sint (ucast n :: 32 word)"

text \<open>The three readers: a member of another kind, or none, leaves the target as it is.\<close>

definition read_string :: "json_object \<Rightarrow> string \<Rightarrow> string \<Rightarrow> string" where
  "read_string obj key target = (case string_field obj key of Some s \<Rightarrow> s | None \<Rightarrow> target)"

definition read_int :: "json_object \<Rightarrow> string \<Rightarrow> int \<Rightarrow> int" where
  "read_int obj key target = (case int64_field obj key of Some n \<Rightarrow> int_of_int64 n | None \<Rightarrow> target)"

definition read_bool :: "json_object \<Rightarrow> string \<Rightarrow> bool \<Rightarrow> bool" where
  "read_bool obj key target = (case bool_field obj key of Some b \<Rightarrow> b | None \<Rightarrow> target)"

definition read_nested :: "json_object \<Rightarrow> string \<Rightarrow> (json_object \<Rightarrow> 'c \<Rightarrow> 'c) \<Rightarrow> 'c \<Rightarrow> 'c" where
  "read_nested obj key reader c = (case object_field obj key of Some inner \<Rightarrow> reader inner c | None \<Rightarrow> c)"

fun string_elements :: "json list \<Rightarrow> string list" where
  "string_elements [] = []"
| "string_elements (JString s # xs) = c_str s # string_elements xs"
| "string_elements (x # xs) = string_elements xs"

definition read_service :: "json_object \<Rightarrow> agent_config \<Rightarrow> agent_config" where
  "read_service obj c =
     c\<lparr>cfg_service_executable := read_string obj ''executable'' (cfg_service_executable c),
       cfg_service_working_directory := read_string obj ''working_directory'' (cfg_service_working_directory c),
       cfg_stop_timeout_seconds := read_int obj ''stop_timeout_seconds'' (cfg_stop_timeout_seconds c),
       cfg_startup_timeout_seconds := read_int obj ''startup_timeout_seconds'' (cfg_startup_timeout_seconds c),
       cfg_service_arguments :=
         (case array_field obj ''arguments'' of Some xs \<Rightarrow> string_elements xs | None \<Rightarrow> cfg_service_arguments c)\<rparr>"

definition read_health :: "json_object \<Rightarrow> agent_config \<Rightarrow> agent_config" where
  "read_health obj c =
     c\<lparr>cfg_health_kind := read_string obj ''kind'' (cfg_health_kind c),
       cfg_health_host := read_string obj ''host'' (cfg_health_host c),
       cfg_health_path := read_string obj ''path'' (cfg_health_path c),
       cfg_health_port := read_int obj ''port'' (cfg_health_port c),
       cfg_health_expected_status := read_int obj ''expected_status'' (cfg_health_expected_status c),
       cfg_health_timeout_ms := read_int obj ''timeout_ms'' (cfg_health_timeout_ms c),
       cfg_health_interval_ms := read_int obj ''interval_ms'' (cfg_health_interval_ms c),
       cfg_health_success_threshold := read_int obj ''success_threshold'' (cfg_health_success_threshold c),
       cfg_health_failure_threshold := read_int obj ''failure_threshold'' (cfg_health_failure_threshold c)\<rparr>"

definition read_flat :: "json_object \<Rightarrow> agent_config \<Rightarrow> agent_config" where
  "read_flat obj c =
     c\<lparr>cfg_main_title := read_string obj ''main_title'' (cfg_main_title c),
       cfg_write_file_log := read_int obj ''write_file_log'' (cfg_write_file_log c),
       cfg_write_console_log := read_int obj ''write_console_log'' (cfg_write_console_log c),
       cfg_write_interval := read_int obj ''write_interval'' (cfg_write_interval c),
       cfg_log_root_path := read_string obj ''log_root_path'' (cfg_log_root_path c),
       cfg_device_id := read_string obj ''device_id'' (cfg_device_id c),
       cfg_group := read_string obj ''group'' (cfg_group c),
       cfg_queue_url := read_string obj ''queue_url'' (cfg_queue_url c),
       cfg_result_queue_url := read_string obj ''result_queue_url'' (cfg_result_queue_url c),
       cfg_poll_wait_seconds := read_int obj ''poll_wait_seconds'' (cfg_poll_wait_seconds c),
       cfg_version_root := read_string obj ''version_root'' (cfg_version_root c),
       cfg_service_root := read_string obj ''service_root'' (cfg_service_root c),
       cfg_keep_previous_releases := read_int obj ''keep_previous_releases'' (cfg_keep_previous_releases c),
       cfg_s3_bucket := read_string obj ''s3_bucket'' (cfg_s3_bucket c),
       cfg_s3_region := read_string obj ''s3_region'' (cfg_s3_region c),
       cfg_s3_endpoint := read_string obj ''s3_endpoint'' (cfg_s3_endpoint c),
       cfg_queue_region := read_string obj ''queue_region'' (cfg_queue_region c),
       cfg_queue_endpoint := read_string obj ''queue_endpoint'' (cfg_queue_endpoint c),
       cfg_allow_insecure_tls := read_bool obj ''allow_insecure_tls'' (cfg_allow_insecure_tls c)\<rparr>"

definition load_config :: "config_env \<Rightarrow> agent_config \<Rightarrow> agent_config" where
  "load_config E c =
     (case config_content E (cfg_config_path c) of
        None \<Rightarrow> c
      | Some content \<Rightarrow>
          (case parse_text (env_json E) content of
             Inr (JObject obj) \<Rightarrow>
               read_nested obj ''health'' read_health (read_nested obj ''service'' read_service (read_flat obj c))
           | _ \<Rightarrow> c))"

section \<open>\<open>parse\<close>\<close>

definition or_else :: "'b option \<Rightarrow> 'b \<Rightarrow> 'b" where
  "or_else x d = (case x of Some v \<Rightarrow> v | None \<Rightarrow> d)"

definition parse_arguments :: "config_env \<Rightarrow> agent_config \<Rightarrow> agent_config" where
  "parse_arguments E c =
     c\<lparr>cfg_write_console_log := or_else (argument_int E ''--write_console_log'') (cfg_write_console_log c),
       cfg_write_file_log := or_else (argument_int E ''--write_file_log'') (cfg_write_file_log c),
       cfg_main_title := or_else (argument_string E ''--main_title'') (cfg_main_title c),
       cfg_device_id := or_else (argument_string E ''--device_id'') (cfg_device_id c),
       cfg_group := or_else (argument_string E ''--group'') (cfg_group c),
       cfg_queue_url := or_else (argument_string E ''--queue_url'') (cfg_queue_url c),
       cfg_version_root := or_else (argument_string E ''--version_root'') (cfg_version_root c),
       cfg_service_root := or_else (argument_string E ''--service_root'') (cfg_service_root c),
       cfg_s3_bucket := or_else (argument_string E ''--s3_bucket'') (cfg_s3_bucket c),
       cfg_s3_region := or_else (argument_string E ''--s3_region'') (cfg_s3_region c),
       cfg_s3_endpoint := or_else (argument_string E ''--s3_endpoint'') (cfg_s3_endpoint c),
       cfg_queue_region := or_else (argument_string E ''--queue_region'') (cfg_queue_region c),
       cfg_queue_endpoint := or_else (argument_string E ''--queue_endpoint'') (cfg_queue_endpoint c),
       cfg_allow_insecure_tls := or_else (argument_bool E ''--allow_insecure_tls'') (cfg_allow_insecure_tls c)\<rparr>"

section \<open>\<open>validate_configuration\<close>\<close>

definition replace_char :: "char \<Rightarrow> char \<Rightarrow> string \<Rightarrow> string" where
  "replace_char old new s = map (\<lambda>c. if c = old then new else c) s"

definition log_level :: "config_env \<Rightarrow> int \<Rightarrow> int" where
  "log_level E n = (if n < level_none E \<or> n > level_packet E then level_information E else n)"

definition normal_log_root :: "string \<Rightarrow> string \<Rightarrow> string" where
  "normal_log_root root_path log_root =
     (if log_root = '''' then root_path
      else if last log_root \<noteq> CHR ''/'' \<and> last log_root \<noteq> CHR 0x5C then log_root @ ''/''
      else log_root)"

definition normal_title :: "string \<Rightarrow> string" where
  "normal_title title = replace_char (CHR 0x5C) (CHR ''_'') (replace_char (CHR ''/'') (CHR ''_'') title)"

text \<open>
  The corrections in the order of the code; the two queue fields follow the store's after those have
  been corrected.
\<close>

definition validate_values :: "config_env \<Rightarrow> agent_config \<Rightarrow> agent_config" where
  "validate_values E c =
     c\<lparr>cfg_log_root_path := normal_log_root (cfg_root_path c) (cfg_log_root_path c),
       cfg_main_title := normal_title (cfg_main_title c),
       cfg_write_file_log := log_level E (cfg_write_file_log c),
       cfg_write_console_log := log_level E (cfg_write_console_log c),
       cfg_write_interval :=
         (if cfg_write_interval c < 0 \<or> cfg_write_interval c > 65535 then 1000 else cfg_write_interval c),
       cfg_poll_wait_seconds :=
         (if cfg_poll_wait_seconds c < 0 \<or> cfg_poll_wait_seconds c > 20 then 20 else cfg_poll_wait_seconds c),
       cfg_stop_timeout_seconds := (if cfg_stop_timeout_seconds c < 1 then 30 else cfg_stop_timeout_seconds c),
       cfg_startup_timeout_seconds :=
         (if cfg_startup_timeout_seconds c < 1 then 60 else cfg_startup_timeout_seconds c),
       cfg_health_interval_ms := (if cfg_health_interval_ms c < 1 then 1000 else cfg_health_interval_ms c),
       cfg_health_timeout_ms := (if cfg_health_timeout_ms c < 1 then 2000 else cfg_health_timeout_ms c),
       cfg_health_success_threshold :=
         (if cfg_health_success_threshold c < 1 then 1 else cfg_health_success_threshold c),
       cfg_health_failure_threshold :=
         (if cfg_health_failure_threshold c < 1 then 3 else cfg_health_failure_threshold c),
       cfg_health_kind :=
         (if cfg_health_kind c \<noteq> ''process'' \<and> cfg_health_kind c \<noteq> ''tcp'' \<and> cfg_health_kind c \<noteq> ''http''
          then ''process'' else cfg_health_kind c)\<rparr>"

definition validate_places :: "agent_config \<Rightarrow> agent_config" where
  "validate_places c =
     (let c = c\<lparr>cfg_version_root :=
                (if cfg_version_root c = '''' then path_append (cfg_root_path c) ''versions'' else cfg_version_root c),
              cfg_keep_previous_releases :=
                (if cfg_keep_previous_releases c < 0 then 2 else cfg_keep_previous_releases c),
              cfg_s3_region := (if cfg_s3_region c = '''' then ''us-east-1'' else cfg_s3_region c)\<rparr>;
          c = c\<lparr>cfg_queue_region := (if cfg_queue_region c = '''' then cfg_s3_region c else cfg_queue_region c)\<rparr>
      in c\<lparr>cfg_queue_endpoint := (if cfg_queue_endpoint c = '''' then cfg_s3_endpoint c else cfg_queue_endpoint c)\<rparr>)"

definition validate_configuration :: "config_env \<Rightarrow> agent_config \<Rightarrow> agent_config" where
  "validate_configuration E c = validate_places (validate_values E c)"

section \<open>The constructor and \<open>validate_required\<close>\<close>

definition configurations :: "config_env \<Rightarrow> string \<Rightarrow> agent_config" where
  "configurations E config_file_name =
     (let root = program_folder E;
          path = or_else (argument_string E ''--config_path'') (path_append root config_file_name);
          c = (default_config E)\<lparr>cfg_root_path := root, cfg_config_path := path\<rparr>
      in validate_configuration E (parse_arguments E (load_config E c)))"

definition validate_required :: "agent_config \<Rightarrow> unit expected" where
  "validate_required c =
     (if cfg_device_id c = '''' then Inl ''device_id is required''
      else if cfg_queue_url c = '''' then Inl ''queue_url is required''
      else if cfg_s3_bucket c = '''' then Inl ''s3_bucket is required''
      else if cfg_result_queue_url c \<noteq> '''' \<and> cfg_result_queue_url c = cfg_queue_url c then
        Inl ''result_queue_url must not be the same as queue_url''
      else if cfg_service_root c \<noteq> '''' \<and> cfg_version_root c = cfg_service_root c then
        Inl ''version_root must not be the same as service_root''
      else Inr ())"

section \<open>Properties\<close>

lemma validated_levels:
  assumes "level_none E \<le> level_information E" "level_information E \<le> level_packet E"
  shows "level_none E \<le> cfg_write_file_log (validate_configuration E c)"
    "cfg_write_file_log (validate_configuration E c) \<le> level_packet E"
    "level_none E \<le> cfg_write_console_log (validate_configuration E c)"
    "cfg_write_console_log (validate_configuration E c) \<le> level_packet E"
  using assms by (simp_all add: validate_configuration_def validate_places_def validate_values_def log_level_def Let_def)

lemma validated_numbers:
  "0 \<le> cfg_write_interval (validate_configuration E c)" "cfg_write_interval (validate_configuration E c) < 65536"
  "0 \<le> cfg_poll_wait_seconds (validate_configuration E c)" "cfg_poll_wait_seconds (validate_configuration E c) \<le> 20"
  "1 \<le> cfg_stop_timeout_seconds (validate_configuration E c)"
  "1 \<le> cfg_startup_timeout_seconds (validate_configuration E c)"
  "1 \<le> cfg_health_interval_ms (validate_configuration E c)"
  "1 \<le> cfg_health_timeout_ms (validate_configuration E c)"
  "1 \<le> cfg_health_success_threshold (validate_configuration E c)"
  "1 \<le> cfg_health_failure_threshold (validate_configuration E c)"
  "0 \<le> cfg_keep_previous_releases (validate_configuration E c)"
  by (simp_all add: validate_configuration_def validate_places_def validate_values_def Let_def)

lemma validated_texts:
  "cfg_health_kind (validate_configuration E c) \<in> {''process'', ''tcp'', ''http''}"
  "cfg_version_root (validate_configuration E c) \<noteq> ''''"
  "cfg_s3_region (validate_configuration E c) \<noteq> ''''" "cfg_queue_region (validate_configuration E c) \<noteq> ''''"
  "cfg_s3_endpoint (validate_configuration E c) \<noteq> '''' \<Longrightarrow> cfg_queue_endpoint (validate_configuration E c) \<noteq> ''''"
  by (simp_all add: validate_configuration_def validate_places_def validate_values_def Let_def
      path_append_def is_absolute_def starts_with_def)

lemma configurations_validated: "\<exists>c. configurations E config_file_name = validate_configuration E c"
  by (auto simp: configurations_def Let_def)

text \<open>
  C31: Whatever the configuration file and the command line say, the values the agent runs with are
  in range: log levels, the 16-bit write interval, the poll time SQS allows, positive timeouts,
  intervals and thresholds, a number of kept releases that is not negative, a known kind of health
  check, and a place for the versions; and the queue follows the store's region and endpoint when
  it has none of its own. Nothing is promised for the two numbers that are not checked,
  \<open>health_port\<close> and \<open>health_expected_status\<close>, and \<open>service_root\<close> may be empty.
\<close>

theorem configuration_in_range:
  assumes "level_none E \<le> level_information E" "level_information E \<le> level_packet E"
    and "c = configurations E config_file_name"
  shows "level_none E \<le> cfg_write_file_log c \<and> cfg_write_file_log c \<le> level_packet E \<and>
    level_none E \<le> cfg_write_console_log c \<and> cfg_write_console_log c \<le> level_packet E \<and>
    0 \<le> cfg_write_interval c \<and> cfg_write_interval c < 65536 \<and>
    0 \<le> cfg_poll_wait_seconds c \<and> cfg_poll_wait_seconds c \<le> 20 \<and>
    1 \<le> cfg_stop_timeout_seconds c \<and> 1 \<le> cfg_startup_timeout_seconds c \<and>
    1 \<le> cfg_health_interval_ms c \<and> 1 \<le> cfg_health_timeout_ms c \<and>
    1 \<le> cfg_health_success_threshold c \<and> 1 \<le> cfg_health_failure_threshold c \<and>
    cfg_health_kind c \<in> {''process'', ''tcp'', ''http''} \<and> 0 \<le> cfg_keep_previous_releases c \<and>
    cfg_version_root c \<noteq> '''' \<and> cfg_s3_region c \<noteq> '''' \<and> cfg_queue_region c \<noteq> '''' \<and>
    (cfg_s3_endpoint c \<noteq> '''' \<longrightarrow> cfg_queue_endpoint c \<noteq> '''')"
proof -
  obtain d where "c = validate_configuration E d" using assms(3) configurations_validated by auto
  then show ?thesis
    using validated_levels [OF assms(1,2)] validated_numbers validated_texts by (intro conjI impI) simp_all
qed

end
