(* ===== verification/CliConfig.thy ===== *)
theory CliConfig
  imports AgentConfig
begin

text \<open>
  \<open>DeployCLI/Configurations.cpp\<close>: the configuration of the command-line tool. It is read as the
  agent's is, with the same readers (\<open>AgentConfig\<close>), but what went wrong with the file is kept in
  \<open>load_warning_\<close>, since the safety checks of destructive commands depend on it. \<open>cli_env\<close> adds to
  the environment how opening and reading the file ended.
\<close>

datatype file_answer =
    OpenRaised string
  | OpenFailed
  | ReadFailed string
  | FileBytes string

record cli_env = config_env +
  config_answer :: "string \<Rightarrow> file_answer"

record cli_config =
  cli_root_path :: string
  cli_config_path :: string
  app_title :: string
  control_plane_url :: string
  api_token :: string
  request_timeout_seconds :: int
  output_format :: string
  upload_file_list :: "string list"
  cli_target_group :: string
  cli_s3_bucket :: string
  cli_s3_region :: string
  cli_s3_endpoint :: string
  cli_insecure_tls :: bool
  cli_log_root :: string
  cli_console_log :: int
  cli_file_log :: int
  cli_write_interval :: int
  show_help :: bool
  show_version :: bool
  confirm_token :: string
  config_values :: string
  load_warning :: "string option"

definition default_cli_config :: "'e cli_env_scheme \<Rightarrow> cli_config" where
  "default_cli_config E =
     \<lparr>cli_root_path = '''', cli_config_path = '''', app_title = ''yirang'', control_plane_url = '''', api_token = '''',
      request_timeout_seconds = 30, output_format = ''table'', upload_file_list = [], cli_target_group = '''',
      cli_s3_bucket = '''', cli_s3_region = ''us-east-1'', cli_s3_endpoint = '''', cli_insecure_tls = False,
      cli_log_root = '''', cli_console_log = level_information (config_env.truncate E),
      cli_file_log = level_information (config_env.truncate E), cli_write_interval = 1000,
      show_help = False, show_version = False, confirm_token = '''', config_values = '''', load_warning = None\<rparr>"

section \<open>\<open>load\<close>\<close>

definition read_string_array :: "json_object \<Rightarrow> string \<Rightarrow> string list \<Rightarrow> string list" where
  "read_string_array obj key target =
     (case array_field obj key of Some xs \<Rightarrow> string_elements xs | None \<Rightarrow> target)"

definition read_cli_object :: "json_object \<Rightarrow> cli_config \<Rightarrow> cli_config" where
  "read_cli_object obj c =
     c\<lparr>app_title := read_string obj ''app_title'' (app_title c),
       control_plane_url := read_string obj ''control_plane_url'' (control_plane_url c),
       api_token := read_string obj ''api_token'' (api_token c),
       request_timeout_seconds := read_int obj ''request_timeout_seconds'' (request_timeout_seconds c),
       output_format := read_string obj ''output_format'' (output_format c),
       upload_file_list := read_string_array obj ''upload_file_list'' (upload_file_list c),
       cli_target_group := read_string obj ''target_group'' (cli_target_group c),
       cli_s3_bucket := read_string obj ''s3_bucket'' (cli_s3_bucket c),
       cli_s3_region := read_string obj ''s3_region'' (cli_s3_region c),
       cli_s3_endpoint := read_string obj ''s3_endpoint'' (cli_s3_endpoint c),
       cli_insecure_tls := read_bool obj ''allow_insecure_tls'' (cli_insecure_tls c),
       cli_log_root := read_string obj ''log_root_path'' (cli_log_root c),
       cli_console_log := read_int obj ''write_console_log'' (cli_console_log c),
       cli_file_log := read_int obj ''write_file_log'' (cli_file_log c),
       cli_write_interval := read_int obj ''write_interval'' (cli_write_interval c)\<rparr>"

definition load_cli :: "'e cli_env_scheme \<Rightarrow> cli_config \<Rightarrow> cli_config" where
  "load_cli E c =
     (case config_answer E (cli_config_path c) of
        OpenRaised e \<Rightarrow> c\<lparr>load_warning := Some (''cannot open configuration file (defaults applied): '' @ e)\<rparr>
      | OpenFailed \<Rightarrow>
          c\<lparr>load_warning := Some (''cannot open configuration file (defaults applied): '' @ cli_config_path c)\<rparr>
      | ReadFailed e \<Rightarrow> c\<lparr>load_warning := Some (''cannot read configuration file (defaults applied): '' @ e)\<rparr>
      | FileBytes content \<Rightarrow>
          (case parse_text (env_json E) content of
             Inl e \<Rightarrow> c\<lparr>load_warning := Some (''cannot parse configuration file (defaults applied): '' @ e)\<rparr>
           | Inr (JObject obj) \<Rightarrow> read_cli_object obj c
           | Inr _ \<Rightarrow> c\<lparr>load_warning := Some ''configuration root is not a JSON object (defaults applied)''\<rparr>))"

section \<open>\<open>parse\<close> and \<open>validate_configuration\<close>\<close>

text \<open>\<open>split\<close>: the pieces between the delimiters, one more than there are delimiters.\<close>

function split_text :: "char \<Rightarrow> string \<Rightarrow> string list" where
  "split_text delimiter s =
     (let piece = takeWhile (\<lambda>c. c \<noteq> delimiter) s; rest = dropWhile (\<lambda>c. c \<noteq> delimiter) s
      in if rest = [] then [piece] else piece # split_text delimiter (tl rest))"
  by pat_completeness auto
termination
proof (relation "measure (\<lambda>(d, s). length s)")
  fix delimiter s
  fix piece rest :: string
  assume "rest = dropWhile (\<lambda>c. c \<noteq> delimiter) s" "rest \<noteq> []"
  then have "length rest \<le> length s" "0 < length rest"
    using length_dropWhile_le [of "\<lambda>c. c \<noteq> delimiter" s] by auto
  then have "length (tl rest) < length s" by (simp del: length_greater_0_conv)
  then show "((delimiter, tl rest), (delimiter, s)) \<in> measure (\<lambda>(d, s). length s)" by simp
qed simp

declare split_text.simps [simp del]

definition parse_cli :: "'e cli_env_scheme \<Rightarrow> cli_config \<Rightarrow> cli_config" where
  "parse_cli E c =
     c\<lparr>control_plane_url := or_else (argument_string E ''--control_plane_url'') (control_plane_url c),
       api_token := or_else (argument_string E ''--api_token'') (api_token c),
       cli_target_group := or_else (argument_string E ''--target_group'') (cli_target_group c),
       cli_s3_bucket := or_else (argument_string E ''--s3_bucket'') (cli_s3_bucket c),
       cli_s3_region := or_else (argument_string E ''--s3_region'') (cli_s3_region c),
       cli_s3_endpoint := or_else (argument_string E ''--s3_endpoint'') (cli_s3_endpoint c),
       cli_insecure_tls := or_else (argument_bool E ''--allow_insecure_tls'') (cli_insecure_tls c),
       upload_file_list :=
         (case argument_string E ''--upload_file_list'' of
            Some list \<Rightarrow> filter (\<lambda>element. element \<noteq> '''') (split_text (CHR '','') list)
          | None \<Rightarrow> upload_file_list c),
       output_format := or_else (argument_string E ''--output_format'') (output_format c),
       cli_log_root := or_else (argument_string E ''--log_root_path'') (cli_log_root c),
       request_timeout_seconds := or_else (argument_int E ''--request_timeout_seconds'') (request_timeout_seconds c),
       cli_console_log := or_else (argument_int E ''--write_console_log'') (cli_console_log c),
       cli_file_log := or_else (argument_int E ''--write_file_log'') (cli_file_log c),
       cli_write_interval := or_else (argument_int E ''--write_interval'') (cli_write_interval c),
       show_help := argument_string E ''--help'' \<noteq> None,
       show_version := argument_string E ''--version'' \<noteq> None,
       config_values := or_else (argument_string E ''--config_values'') (config_values c),
       confirm_token := or_else (argument_string E ''--confirm'') (confirm_token c)\<rparr>"

definition validate_cli :: "'e cli_env_scheme \<Rightarrow> cli_config \<Rightarrow> cli_config" where
  "validate_cli E c =
     c\<lparr>cli_log_root := normal_log_root (cli_root_path c) (cli_log_root c),
       app_title := normal_title (app_title c),
       cli_console_log := log_level (config_env.truncate E) (cli_console_log c),
       cli_file_log := log_level (config_env.truncate E) (cli_file_log c),
       cli_write_interval :=
         (if cli_write_interval c < 0 \<or> cli_write_interval c > 65535 then 1000 else cli_write_interval c),
       request_timeout_seconds := (if request_timeout_seconds c \<le> 0 then 30 else request_timeout_seconds c),
       output_format :=
         (if output_format c \<noteq> ''table'' \<and> output_format c \<noteq> ''json'' then ''table'' else output_format c)\<rparr>"

definition cli_configurations :: "'e cli_env_scheme \<Rightarrow> string \<Rightarrow> cli_config" where
  "cli_configurations E config_file_name =
     (let root = program_folder E;
          path = or_else (argument_string E ''--config_path'') (path_append root config_file_name);
          c = (default_cli_config E)\<lparr>cli_root_path := root, cli_config_path := path\<rparr>
      in validate_cli E (parse_cli E (load_cli E c)))"

section \<open>What a command needs\<close>

definition cli_required :: "cli_config \<Rightarrow> unit expected" where
  "cli_required c =
     (if control_plane_url c = '''' then
        Inl ''control_plane_url is required (set it in the configuration file or pass --control_plane_url)''
      else Inr ())"

definition cli_required_for_deploy :: "cli_config \<Rightarrow> unit expected" where
  "cli_required_for_deploy c =
     (case cli_required c of
        Inl e \<Rightarrow> Inl e
      | Inr _ \<Rightarrow>
          if upload_file_list c = [] then
            Inl ''upload_file_list is empty (set it in the configuration file or pass --upload_file_list a.exe,b.dll)''
          else if cli_s3_bucket c = '''' then
            Inl ''s3_bucket is required for deploy (set it in the configuration file or pass --s3_bucket)''
          else Inr ())"

section \<open>Properties\<close>

lemma at_delimiter:
  "d \<notin> set p \<Longrightarrow> takeWhile (\<lambda>c. c \<noteq> d) (p @ d # q) = p \<and> dropWhile (\<lambda>c. c \<noteq> d) (p @ d # q) = d # q"
  by (induction p) auto

lemma split_text_split_char: "split_text d s = split_char d s"
proof (induction s rule: length_induct)
  case (1 s)
  show ?case
  proof (cases "d \<in> set s")
    case False
    then show ?thesis
      by (subst split_text.simps) (auto simp: split_char_no_sep takeWhile_eq_all_conv dropWhile_eq_Nil_conv Let_def)
  next
    case True
    then obtain p q where s: "s = p @ d # q" "d \<notin> set p" by (meson split_list_first)
    then have w: "takeWhile (\<lambda>c. c \<noteq> d) s = p" "dropWhile (\<lambda>c. c \<noteq> d) s = d # q"
      using at_delimiter [OF s(2), of q] by simp_all
    have "split_text d q = split_char d q" using 1 s by simp
    then show ?thesis
      using w by (subst split_text.simps) (simp add: s(1) split_char_sep split_char_no_sep [OF s(2)] Let_def)
  qed
qed

end
