(* ===== verification/ArtifactKey.thy ===== *)
theory ArtifactKey
  imports Paths
begin

text \<open>
  \<open>RolloutKit/Artifact/ArtifactKey.cpp\<close>: which release ids the system accepts and the key an
  artifact of a release has in the object store.

  The lemmas show that an accepted id is a plain directory name, so that \<open>root / id\<close> is
  exactly one child of \<open>root\<close>, and that an accepted install path stays below the directory it
  is appended to and below the release's prefix in the store.
\<close>

definition contains_separator :: "string \<Rightarrow> bool" where
  "contains_separator value \<longleftrightarrow> contains_char (CHR ''/'') value \<or> contains_char (CHR 0x5C) value"

text \<open>
  The loop of \<open>has_parent_reference\<close>, on the rest of the path from \<open>start\<close> on: the segment up
  to the next slash, then the rest after that slash.
\<close>

function has_parent_reference :: "string \<Rightarrow> bool" where
  "has_parent_reference rest =
     (if takeWhile (\<lambda>c. c \<noteq> CHR ''/'') rest = ''..'' then True
      else (case dropWhile (\<lambda>c. c \<noteq> CHR ''/'') rest of
              [] \<Rightarrow> False
            | _ # rest' \<Rightarrow> has_parent_reference rest'))"
  by pat_completeness auto
termination
  by (relation "measure length") (auto dest: dropWhile_Cons_less)

declare has_parent_reference.simps [simp del]

definition validate_release_id :: "string \<Rightarrow> unit expected" where
  "validate_release_id release_id =
     (if release_id = '''' then Inl ''release_id is required''
      else if contains_separator release_id then
        Inl (''release_id must not contain a path separator: '' @ quoted release_id)
      else if release_id = ''.'' \<or> release_id = ''..'' then
        Inl (''release_id must not be a path reference: '' @ quoted release_id)
      else if length release_id \<ge> 2 \<and> release_id ! 1 = CHR '':'' then
        Inl (''release_id must not be a drive path: '' @ quoted release_id)
      else Inr ())"

definition make_object_key :: "string \<Rightarrow> string \<Rightarrow> string expected" where
  "make_object_key release_id install_path =
     (case validate_release_id release_id of
        Inl e \<Rightarrow> Inl e
      | Inr _ \<Rightarrow>
          if install_path = '''' then Inl ''install_path is required''
          else if contains_char (CHR 0x5C) install_path then
            Inl (''install_path must use '' @ quoted ''/'' @ '' as separator: '' @ quoted install_path)
          else if hd install_path = CHR ''/'' then
            Inl (''install_path must be relative: '' @ quoted install_path)
          else if length install_path \<ge> 2 \<and> install_path ! 1 = CHR '':'' then
            Inl (''install_path must be relative: '' @ quoted install_path)
          else if has_parent_reference install_path then
            Inl (''install_path must not contain '' @ quoted ''..'' @ '': '' @ quoted install_path)
          else Inr (''releases/'' @ release_id @ ''/'' @ install_path))"

section \<open>The scan against its reference\<close>

lemma has_parent_reference_split:
  "has_parent_reference s \<longleftrightarrow> ''..'' \<in> set (split_char (CHR ''/'') s)"
proof (induction s rule: length_induct)
  case (1 s)
  show ?case
  proof (rule split_char_cases [of "CHR ''/''" s])
    assume a: "CHR ''/'' \<notin> set s" "split_char (CHR ''/'') s = [s]"
    have ends: "takeWhile (\<lambda>c. c \<noteq> CHR ''/'') s = s" "dropWhile (\<lambda>c. c \<noteq> CHR ''/'') s = []"
      using a(1) by (auto simp: takeWhile_eq_all_conv dropWhile_eq_Nil_conv)
    have "has_parent_reference s \<longleftrightarrow> s = ''..''"
      by (subst has_parent_reference.simps) (simp only: ends, simp)
    with a(2) show ?thesis by auto
  next
    fix p q
    assume a: "s = p @ CHR ''/'' # q" "CHR ''/'' \<notin> set p"
      "split_char (CHR ''/'') s = p # split_char (CHR ''/'') q"
    have "has_parent_reference s \<longleftrightarrow> p = ''..'' \<or> has_parent_reference q"
      unfolding a(1)
      by (subst has_parent_reference.simps) (simp add: takeWhile_sep dropWhile_sep a(2))
    moreover have "has_parent_reference q \<longleftrightarrow> ''..'' \<in> set (split_char (CHR ''/'') q)"
      using 1 a(1) by auto
    ultimately show ?thesis
      unfolding a(3) by auto
  qed
qed

section \<open>Accepted ids and keys\<close>

lemma validate_release_id_plain: "validate_release_id release_id = Inr u \<Longrightarrow> plain_name release_id"
  by (auto simp: validate_release_id_def plain_name_def contains_separator_def split: if_splits)

lemma resolve_no_parent:
  "''..'' \<notin> set cs \<Longrightarrow> resolve base cs = base @ filter (\<lambda>c. c \<noteq> '''' \<and> c \<noteq> ''.'') cs"
  by (induction cs arbitrary: base) auto

lemma make_object_key_parts:
  assumes "make_object_key release_id install_path = Inr key"
  shows "validate_release_id release_id = Inr ()" "install_path \<noteq> ''''"
    "\<not> is_absolute install_path" "''..'' \<notin> set (split_char (CHR ''/'') install_path)"
    "key = ''releases/'' @ release_id @ ''/'' @ install_path"
  using assms
  by (auto simp: make_object_key_def has_parent_reference_split is_absolute_def starts_with_def
      split: sum.splits if_splits) (metis hd_conv_nth list.sel(1) neq_Nil_conv take_Suc_Cons take0)

lemma locate_key:
  assumes "make_object_key release_id install_path = Inr key"
  shows "locate [] key =
    [''releases'', release_id] @
      filter (\<lambda>c. c \<noteq> '''' \<and> c \<noteq> ''.'') (split_char (CHR ''/'') install_path)"
proof -
  note parts = make_object_key_parts [OF assms]
  have id: "plain_name release_id" using parts(1) validate_release_id_plain by blast
  have "split_char (CHR ''/'') key =
      split_char (CHR ''/'') ''releases'' @ split_char (CHR ''/'') release_id @
        split_char (CHR ''/'') install_path"
    using split_char_sep [of "CHR ''/''" "''releases''"] split_char_sep [of "CHR ''/''" release_id]
    unfolding parts(5) by simp
  then show ?thesis
    using parts(4) plain_name_split [OF id] id
    unfolding parts(5)
    by (simp add: locate_def is_absolute_def starts_with_def resolve_no_parent plain_name_def)
qed

text \<open>
  C26: An object key that \<open>make_object_key\<close> accepts cannot leave the release. In the store, the
  key's components begin with \<open>releases/<release_id>\<close>; on the device, the install path appended
  to any directory resolves to a position below that directory, and the release id to exactly one
  child of it. So neither a hostile release id nor a hostile install path reaches the files of
  another release.
\<close>

theorem object_key_inside:
  assumes "make_object_key release_id install_path = Inr key"
  shows "prefix [''releases'', release_id] (locate [] key) \<and>
    prefix (locate cwd dir) (locate cwd (path_append dir install_path)) \<and>
    locate cwd (path_append dir release_id) = locate cwd dir @ [release_id]"
proof -
  note parts = make_object_key_parts [OF assms]
  have "prefix [''releases'', release_id] (locate [] key)"
    by (simp add: locate_key [OF assms])
  moreover have "prefix (locate cwd dir) (locate cwd (path_append dir install_path))"
    using parts(3,4) by (simp add: locate_append resolve_no_parent)
  moreover have "locate cwd (path_append dir release_id) = locate cwd dir @ [release_id]"
    using parts(1) validate_release_id_plain locate_child by blast
  ultimately show ?thesis by blast
qed

theorem object_key_inside_witness:
  "make_object_key ''rel_1'' ''bin/app'' = Inr ''releases/rel_1/bin/app'' \<and>
   prefix (locate [''srv''] ''/v'') (locate [''srv''] (path_append ''/v'' ''bin/app''))"
proof -
  have k: "make_object_key ''rel_1'' ''bin/app'' = Inr ''releases/rel_1/bin/app''"
    by code_simp
  show ?thesis using k object_key_inside [OF k, of "[''srv'']" "''/v''"] by blast
qed

text \<open>
  Object keys are unambiguous: two artifacts with the same key are the same install path of
  the same release, so files of different releases never share an object in the store.
\<close>

theorem object_key_injective:
  assumes "make_object_key r1 p1 = Inr key" "make_object_key r2 p2 = Inr key"
  shows "r1 = r2 \<and> p1 = p2"
proof -
  note one = make_object_key_parts [OF assms(1)] and two = make_object_key_parts [OF assms(2)]
  have ids: "CHR ''/'' \<notin> set r1" "CHR ''/'' \<notin> set r2"
    using validate_release_id_plain [OF one(1)] validate_release_id_plain [OF two(1)]
    by (simp_all add: plain_name_def contains_char_def)
  have eq: "r1 @ CHR ''/'' # p1 = r2 @ CHR ''/'' # p2"
    using one(5) two(5) by simp
  have "r1 = r2"
    using arg_cong [OF eq, of "takeWhile (\<lambda>c. c \<noteq> CHR ''/'')"] ids by (simp add: takeWhile_sep)
  with eq show ?thesis by simp
qed

theorem object_key_injective_witness:
  "make_object_key ''rel_1'' ''a'' = Inr ''releases/rel_1/a'' \<and> ''rel_1'' = ''rel_1'' \<and> ''a'' = ''a''"
proof -
  have k: "make_object_key ''rel_1'' ''a'' = Inr ''releases/rel_1/a''"
    by code_simp
  show ?thesis using k object_key_injective [OF k k] by blast
qed

end
