(* ===== verification/ReleaseManifest.thy ===== *)
theory ReleaseManifest
  imports MachineFacts Json ArtifactKey
begin

unbundle bit_operations_syntax

text \<open>
  \<open>RolloutKit/Release/ReleaseManifest.cpp\<close>: the description of a release (its files with their
  SHA-256 and sizes), how it is built from the files to upload, its JSON form, and release ids.

  OpenSSL's digest functions are third-party code: a record of the calls the source makes
  (\<open>digest_lib\<close>). What the source relies on is \<open>evp_sha256\<close>: updates absorb the bytes in order,
  whatever the chunks, and the final call returns the digest of all of them.

  Shown: hashing in chunks of 64 KiB computes the digest of the whole content; the hexadecimal
  form is 64 lower-case digits and determines the digest; a built manifest lists every upload
  file once under distinct names; a manifest survives serialising and parsing; every generated
  release id is accepted by the id check.
\<close>

record artifact_entry =
  install_path :: string
  sha256 :: string
  size_bytes :: "64 word"
  source_path :: string

record manifest =
  manifest_release_id :: string
  created_at :: string
  artifacts :: "artifact_entry list"

section \<open>Digests\<close>

record 'c digest_lib =
  ctx_new :: "'c option"
  digest_init :: "'c \<Rightarrow> 'c option"
  digest_update :: "'c \<Rightarrow> string \<Rightarrow> 'c option"
  digest_final :: "'c \<Rightarrow> string option"

definition evp_sha256 :: "'c digest_lib \<Rightarrow> (string \<Rightarrow> string) \<Rightarrow> bool" where
  "evp_sha256 D H \<longleftrightarrow>
     (\<exists>c0 ctx. ctx_new D = Some c0 \<and> digest_init D c0 = Some (ctx '''') \<and>
        (\<forall>s t. digest_update D (ctx s) t = Some (ctx (s @ t))) \<and>
        (\<forall>s. digest_final D (ctx s) = Some (H s) \<and> length (H s) = 32))"

definition kReadChunkSize :: nat where
  "kReadChunkSize = 64 * 1024"

definition kSha256HexLength :: nat where
  "kSha256HexLength = 64"

definition kDigits :: string where
  "kDigits = ''0123456789abcdef''"

definition byte_of :: "char \<Rightarrow> 8 word" where
  "byte_of c = of_char c"

fun to_hex :: "string \<Rightarrow> string" where
  "to_hex [] = ''''"
| "to_hex (b # bs) =
     kDigits ! unat (drop_bit 4 (byte_of b)) # kDigits ! unat (byte_of b AND 0x0F) # to_hex bs"

definition isxdigit :: "char \<Rightarrow> bool" where
  "isxdigit c \<longleftrightarrow>
     (let n = (of_char c :: nat)
      in (48 \<le> n \<and> n \<le> 57) \<or> (65 \<le> n \<and> n \<le> 70) \<or> (97 \<le> n \<and> n \<le> 102))"

definition is_sha256_hex :: "string \<Rightarrow> bool" where
  "is_sha256_hex value \<longleftrightarrow> length value = kSha256HexLength \<and> list_all isxdigit value"

text \<open>The \<open>while (stream)\<close> loop: \<open>rest\<close> is what the stream has not delivered yet.\<close>

function hash_chunks :: "'c digest_lib \<Rightarrow> 'c \<Rightarrow> string \<Rightarrow> 'c option" where
  "hash_chunks D context rest =
     (if rest = '''' then Some context
      else (case digest_update D context (take kReadChunkSize rest) of
              None \<Rightarrow> None
            | Some context' \<Rightarrow> hash_chunks D context' (drop kReadChunkSize rest)))"
  by pat_completeness auto
termination
  by (relation "measure (\<lambda>(D, c, rest). length rest)") (auto simp: kReadChunkSize_def)

declare hash_chunks.simps [simp del]

definition file_sha256 ::
    "'c digest_lib \<Rightarrow> string \<Rightarrow> 'a machine_scheme \<Rightarrow> string expected \<times> 'a machine_scheme" where
  "file_sha256 D path w =
     (case fs_read (at w path) w of
        (None, w1) \<Rightarrow> (Inl (''cannot open '' @ quoted path @ '' for hashing''), w1)
      | (Some content, w1) \<Rightarrow>
          (case ctx_new D of
             None \<Rightarrow> (Inl ''cannot allocate digest context'', w1)
           | Some context \<Rightarrow>
               (case digest_init D context of
                  None \<Rightarrow> (Inl ''cannot initialise sha256 digest'', w1)
                | Some context1 \<Rightarrow>
                    (case hash_chunks D context1 content of
                       None \<Rightarrow> (Inl (''cannot update sha256 digest for '' @ quoted path), w1)
                     | Some context2 \<Rightarrow>
                         (case digest_final D context2 of
                            None \<Rightarrow>
                              (Inl (''cannot finalise sha256 digest for '' @ quoted path), w1)
                          | Some digest \<Rightarrow> (Inr (to_hex digest), w1))))))"

section \<open>Building a manifest\<close>

definition make_release_id :: "int \<Rightarrow> string" where
  "make_release_id now =
     (let utc = gmtime now
      in ''rel_'' @ field_text 4 (tm_year utc + 1900) @ field_text 2 (tm_mon utc + 1) @
         field_text 2 (tm_mday utc) @ ''_'' @ field_text 2 (tm_hour utc) @
         field_text 2 (tm_min utc) @ field_text 2 (tm_sec utc))"

definition duplicate_message :: "string \<Rightarrow> string" where
  "duplicate_message name =
     ''duplicate install path '' @ quoted name @ em_dash @
     ''two upload files share the same file name''"

definition file_size :: "fpath \<Rightarrow> 'a machine_scheme \<Rightarrow> 64 word expected \<times> 'a machine_scheme" where
  "file_size p w =
     (case take_fault w of
        (Some f, w1) \<Rightarrow> (Inl (reason f), w1)
      | (None, w1) \<Rightarrow>
          (case lookup (files w1) p of
             Some (File c m) \<Rightarrow> (Inr (word_of_nat (length c)), w1)
           | _ \<Rightarrow> (Inl ''No such file or directory'', w1)))"

text \<open>
  The loop over \<open>upload_file_list\<close>; \<open>claimed\<close> is the set of install paths seen so far and
  \<open>done\<close> the entries pushed so far.
\<close>

fun build_entries ::
    "'c digest_lib \<Rightarrow> string list \<Rightarrow> string list \<Rightarrow> artifact_entry list \<Rightarrow> 'a machine_scheme \<Rightarrow>
       artifact_entry list expected \<times> 'a machine_scheme" where
  "build_entries D [] claimed entries w = (Inr entries, w)"
| "build_entries D (source # rest) claimed entries w =
     (case fs_exists (at w source) w of
        (False, w1) \<Rightarrow> (Inl (''upload file does not exist: '' @ source), w1)
      | (True, w1) \<Rightarrow>
          (case fs_is_regular_file (at w1 source) w1 of
             (False, w2) \<Rightarrow> (Inl (''upload file is not a regular file: '' @ source), w2)
           | (True, w2) \<Rightarrow>
               let name = path_filename source in
               if name \<in> set claimed then (Inl (duplicate_message name), w2)
               else (case file_sha256 D source w2 of
                       (Inl e, w3) \<Rightarrow> (Inl e, w3)
                     | (Inr hash, w3) \<Rightarrow>
                         (case file_size (at w3 source) w3 of
                            (Inl e, w4) \<Rightarrow>
                              (Inl (''cannot read size of '' @ quoted source @ '': '' @ e), w4)
                          | (Inr bytes, w4) \<Rightarrow>
                              build_entries D rest (name # claimed)
                                (entries @ [\<lparr>install_path = name, sha256 = hash,
                                   size_bytes = bytes, source_path = source\<rparr>]) w4))))"

definition build ::
    "'c digest_lib \<Rightarrow> string list \<Rightarrow> string \<Rightarrow> int \<Rightarrow> 'a machine_scheme \<Rightarrow>
       manifest expected \<times> 'a machine_scheme" where
  "build D upload_file_list release_id now w =
     (if release_id = '''' then (Inl ''release_id is required'', w)
      else if upload_file_list = [] then (Inl ''upload_file_list is empty'', w)
      else (case build_entries D upload_file_list [] [] w of
              (Inl e, w1) \<Rightarrow> (Inl e, w1)
            | (Inr entries, w1) \<Rightarrow>
                (Inr \<lparr>manifest_release_id = release_id, created_at = iso_text (gmtime now),
                      artifacts = entries\<rparr>, w1)))"

section \<open>The JSON form\<close>

definition entry_json :: "artifact_entry \<Rightarrow> json" where
  "entry_json entry =
     JObject [(''install_path'', JString (install_path entry)),
              (''sha256'', JString (sha256 entry)),
              (''size_bytes'', JUint64 (size_bytes entry))]"

definition manifest_json :: "manifest \<Rightarrow> json" where
  "manifest_json m =
     JObject [(''release_id'', JString (manifest_release_id m)),
              (''created_at'', JString (created_at m)),
              (''artifacts'', JArray (map entry_json (artifacts m)))]"

definition serialize :: "json_lib \<Rightarrow> manifest \<Rightarrow> string" where
  "serialize L m = serialize_value L (manifest_json m)"

definition manifest_read_string :: "json_object \<Rightarrow> string \<Rightarrow> string expected" where
  "manifest_read_string obj key =
     (case string_field obj key of
        None \<Rightarrow> Inl (''manifest field '' @ quoted key @ '' is missing or not a string'')
      | Some s \<Rightarrow> Inr s)"

definition parse_entry :: "json \<Rightarrow> artifact_entry expected" where
  "parse_entry element =
     (case element of
        JObject item \<Rightarrow>
          (case manifest_read_string item ''install_path'' of
             Inl e \<Rightarrow> Inl e
           | Inr path \<Rightarrow>
               if path = '''' then Inl (''manifest artifact '' @ quoted ''install_path'' @ '' is empty'')
               else (case manifest_read_string item ''sha256'' of
                       Inl e \<Rightarrow> Inl e
                     | Inr sha \<Rightarrow>
                         if \<not> is_sha256_hex sha then
                           Inl (''manifest artifact '' @ quoted path @ '' has a malformed sha256'')
                         else
                           Inr \<lparr>install_path = path, sha256 = sha,
                                size_bytes = (case int64_field item ''size_bytes'' of
                                                Some n \<Rightarrow> n | None \<Rightarrow> 0),
                                source_path = ''''\<rparr>))
      | _ \<Rightarrow> Inl ''manifest artifact entry is not an object'')"

fun parse_entries :: "json list \<Rightarrow> artifact_entry list expected" where
  "parse_entries [] = Inr []"
| "parse_entries (element # rest) =
     (case parse_entry element of
        Inl e \<Rightarrow> Inl e
      | Inr entry \<Rightarrow>
          (case parse_entries rest of
             Inl e \<Rightarrow> Inl e
           | Inr entries \<Rightarrow> Inr (entry # entries)))"

definition parse :: "json_lib \<Rightarrow> string \<Rightarrow> manifest expected" where
  "parse L text =
     (case parse_text L text of
        Inl e \<Rightarrow> Inl (''cannot parse manifest: '' @ e)
      | Inr (JObject root) \<Rightarrow>
          (case manifest_read_string root ''release_id'' of
             Inl e \<Rightarrow> Inl e
           | Inr release_id \<Rightarrow>
               if release_id = '''' then
                 Inl (''manifest field '' @ quoted ''release_id'' @ '' is empty'')
               else (case manifest_read_string root ''created_at'' of
                       Inl e \<Rightarrow> Inl e
                     | Inr created \<Rightarrow>
                         (case array_field root ''artifacts'' of
                            None \<Rightarrow>
                              Inl (''manifest field '' @ quoted ''artifacts'' @
                                   '' is missing or not an array'')
                          | Some elements \<Rightarrow>
                              (case parse_entries elements of
                                 Inl e \<Rightarrow> Inl e
                               | Inr entries \<Rightarrow>
                                   Inr \<lparr>manifest_release_id = release_id, created_at = created,
                                        artifacts = entries\<rparr>))))
      | Inr _ \<Rightarrow> Inl ''manifest root is not a JSON object'')"

section \<open>Hexadecimal digests\<close>

lemma byte_of_nat: "unat (byte_of c) = of_char c"
proof -
  have "byte_of c = word_of_nat (of_char c)"
    unfolding byte_of_def by (rule of_nat_of_char [symmetric])
  then show ?thesis by (simp add: unsigned_of_nat take_bit_eq_mod)
qed

lemma high_nibble: "unat (drop_bit 4 (byte_of c)) = of_char c div 16"
  by (simp add: drop_bit_eq_div unat_div byte_of_nat)

lemma low_nibble: "unat (byte_of c AND 0x0F) = of_char c mod 16"
proof -
  have "byte_of c AND 0x0F = take_bit 4 (byte_of c)"
    by (simp add: take_bit_eq_mask mask_eq_exp_minus_1)
  then show ?thesis by (simp add: take_bit_eq_mod unat_mod byte_of_nat)
qed

lemma nibbles_bound: "(of_char c :: nat) div 16 < 16" "(of_char c :: nat) mod 16 < 16"
  using nat_of_char_less_256 [of c] by (auto simp: div_less_iff_less_mult)

lemma kDigits_props: "distinct kDigits" "length kDigits = 16" "list_all isxdigit kDigits"
  by (code_simp)+

lemma to_hex_Cons:
  "to_hex (b # bs) = kDigits ! (of_char b div 16) # kDigits ! (of_char b mod 16) # to_hex bs"
  by (simp add: high_nibble low_nibble)

declare to_hex.simps(2) [simp del]

lemma to_hex_length: "length (to_hex bs) = 2 * length bs"
  by (induction bs) (auto simp: to_hex_Cons)

lemma to_hex_digits: "list_all isxdigit (to_hex bs)"
proof (induction bs)
  case Nil
  then show ?case by simp
next
  case (Cons b bs)
  have "isxdigit (kDigits ! n)" if "n < 16" for n
    using kDigits_props(2,3) that by (simp add: list_all_length)
  with Cons show ?case using nibbles_bound by (simp add: to_hex_Cons)
qed

lemma to_hex_sha256: "length d = 32 \<Longrightarrow> is_sha256_hex (to_hex d)"
  by (simp add: is_sha256_hex_def kSha256HexLength_def to_hex_length to_hex_digits)

lemma to_hex_inject: "to_hex a = to_hex b \<longleftrightarrow> a = b"
proof (induction a arbitrary: b)
  case Nil
  then show ?case by (cases b) (auto simp: to_hex_Cons)
next
  case (Cons x a)
  show ?case
  proof (cases b)
    case Nil
    then show ?thesis by (simp add: to_hex_Cons)
  next
    case (Cons y b')
    have "x = y" if "kDigits ! (of_char x div 16) = kDigits ! (of_char y div 16)"
      "kDigits ! (of_char x mod 16) = kDigits ! (of_char y mod 16)"
    proof -
      have "(of_char x :: nat) div 16 = of_char y div 16" "(of_char x :: nat) mod 16 = of_char y mod 16"
        using that nth_eq_iff_index_eq [OF kDigits_props(1)] nibbles_bound kDigits_props(2)
        by metis+
      then have "(of_char x :: nat) = of_char y" by (metis div_mod_decomp)
      then show ?thesis by simp
    qed
    with Cons Cons.IH [of b'] show ?thesis by (auto simp: to_hex_Cons)
  qed
qed

section \<open>Hashing in chunks\<close>

lemma hash_chunks_all:
  assumes "\<forall>s t. digest_update D (ctx s) t = Some (ctx (s @ t))"
  shows "hash_chunks D (ctx s) rest = Some (ctx (s @ rest))"
proof (induction rest arbitrary: s rule: length_induct)
  case (1 rest)
  show ?case
  proof (cases "rest = ''''")
    case True
    then show ?thesis by (subst hash_chunks.simps) simp
  next
    case False
    then have "hash_chunks D (ctx (s @ take kReadChunkSize rest)) (drop kReadChunkSize rest) =
        Some (ctx ((s @ take kReadChunkSize rest) @ drop kReadChunkSize rest))"
      using 1 by (intro 1 [rule_format]) (simp add: kReadChunkSize_def)
    with False assms show ?thesis by (subst hash_chunks.simps) simp
  qed
qed

lemma file_sha256_content:
  assumes "evp_sha256 D H" "fs_read (at w path) w = (Some content, w1)"
  shows "file_sha256 D path w = (Inr (to_hex (H content)), w1)"
  using assms hash_chunks_all [of D _ "''''" content]
  by (auto simp: evp_sha256_def file_sha256_def)

lemma file_sha256_ok:
  "evp_sha256 D H \<Longrightarrow> faults w = [] \<Longrightarrow> lookup (files w) (at w path) = Some (File c m) \<Longrightarrow>
     file_sha256 D path w = (Inr (to_hex (H c)), w)"
  by (rule file_sha256_content) (simp_all add: fs_read_def take_fault_none)

lemma file_sha256_reads: "file_sha256 D path w = (r, w') \<Longrightarrow> reads w w'"
  by (auto simp: file_sha256_def dest: read_reads split: prod.splits option.splits)

text \<open>
  C27: The digest that download verification and manifests rest on is the digest of the whole
  file: reading in 64 KiB chunks and updating the digest chunk by chunk yields the 64 hexadecimal
  digits of SHA-256 of the content, whatever its length, and two contents get the same text only
  if their digests are equal.
\<close>

theorem file_sha256_correct:
  assumes "evp_sha256 D H" "faults w = []" "lookup (files w) (at w path) = Some (File content m)"
  shows "file_sha256 D path w = (Inr (to_hex (H content)), w) \<and>
    is_sha256_hex (to_hex (H content)) \<and>
    (to_hex (H content) = to_hex (H other) \<longleftrightarrow> H content = H other)"
proof -
  have "fs_read (at w path) w = (Some content, w)"
    using assms(2,3) by (simp add: fs_read_def take_fault_none)
  moreover have "length (H content) = 32" using assms(1) by (auto simp: evp_sha256_def)
  ultimately show ?thesis
    using file_sha256_content [OF assms(1)] by (simp add: to_hex_sha256 to_hex_inject)
qed

text \<open>
  A digest library with the incremental behaviour, for the witnesses: the context is the bytes
  absorbed so far and the "digest" is 32 bytes that depend on their number.
\<close>

definition count_digest :: "string \<Rightarrow> string" where
  "count_digest s = replicate 32 (char_of (length s))"

definition count_lib :: "string digest_lib" where
  "count_lib = \<lparr>ctx_new = Some ''new'', digest_init = (\<lambda>_. Some ''''),
     digest_update = (\<lambda>c t. Some (c @ t)), digest_final = (\<lambda>c. Some (count_digest c))\<rparr>"

lemma evp_sha256_count: "evp_sha256 count_lib count_digest"
  unfolding evp_sha256_def
  by (rule exI [of _ "''new''"], rule exI [of _ "\<lambda>s. s"]) (simp add: count_lib_def count_digest_def)

definition upload_machine :: machine where
  "upload_machine =
     blank_machine\<lparr>files := [([''app.exe''], File ''binary'' 420), ([''conf''], File ''{}'' 420)]\<rparr>"

theorem file_sha256_correct_witness:
  "faults upload_machine = [] \<and>
   fst (file_sha256 count_lib ''app.exe'' upload_machine) = Inr (to_hex (count_digest ''binary''))"
proof -
  have f: "faults upload_machine = []" by (simp add: upload_machine_def blank_machine_def)
  have l: "lookup (files upload_machine) (at upload_machine ''app.exe'') = Some (File ''binary'' 420)"
    by code_simp
  show ?thesis using f file_sha256_correct [OF evp_sha256_count f l] by simp
qed

section \<open>A built manifest describes the upload files\<close>

definition describes :: "(string \<Rightarrow> string) \<Rightarrow> 'a machine_scheme \<Rightarrow> artifact_entry \<Rightarrow> bool" where
  "describes H w e \<longleftrightarrow>
     (\<exists>c m. lookup (files w) (at w (source_path e)) = Some (File c m) \<and>
        sha256 e = to_hex (H c) \<and> size_bytes e = word_of_nat (length c) \<and>
        install_path e = path_filename (source_path e))"

lemma build_entries_spec:
  assumes "evp_sha256 D H" "faults w = []"
    and "build_entries D sources claimed entries w = (Inr result, w')"
  shows "w' = w \<and> (\<exists>new. result = entries @ new \<and> map source_path new = sources \<and>
      distinct (map install_path new) \<and> set (map install_path new) \<inter> set claimed = {} \<and>
      (\<forall>e \<in> set new. describes H w e))"
  using assms(2,3)
proof (induction sources arbitrary: claimed entries w)
  case Nil
  then show ?case by simp
next
  case (Cons source rest)
  let ?p = "at w source"
  have fault: "take_fault w = (None, w)" using Cons.prems(1) by (rule take_fault_none)
  have isfile: "is_file (lookup (files w) ?p)"
    using Cons.prems(2) fault
    by (auto simp: fs_exists_def fs_is_regular_file_def split: prod.splits bool.splits if_splits)
  then obtain c m where cm: "lookup (files w) ?p = Some (File c m)"
    by (auto elim!: is_file.elims)
  have read: "fs_read ?p w = (Some c, w)" using cm fault by (simp add: fs_read_def)
  let ?name = "path_filename source"
  let ?e = "\<lparr>install_path = ?name, sha256 = to_hex (H c), size_bytes = word_of_nat (length c),
              source_path = source\<rparr>"
  have fresh: "?name \<notin> set claimed"
    and rec: "build_entries D rest (?name # claimed) (entries @ [?e]) w = (Inr result, w')"
    using Cons.prems(2) fault cm file_sha256_content [OF assms(1) read]
    by (auto simp: fs_exists_def fs_is_regular_file_def file_size_def Let_def split: if_splits)
  from Cons.IH [OF Cons.prems(1) rec] obtain new where new: "w' = w"
    "result = (entries @ [?e]) @ new" "map source_path new = rest"
    "distinct (map install_path new)" "set (map install_path new) \<inter> set (?name # claimed) = {}"
    "\<forall>e \<in> set new. describes H w e"
    by blast
  have "describes H w ?e" using cm by (auto simp: describes_def)
  then have facts: "result = entries @ (?e # new) \<and> map source_path (?e # new) = source # rest \<and>
      distinct (map install_path (?e # new)) \<and>
      set (map install_path (?e # new)) \<inter> set claimed = {} \<and>
      (\<forall>e \<in> set (?e # new). describes H w e)"
    using new fresh by auto
  show ?case
    by (rule conjI [OF new(1)], rule exI [of _ "?e # new"], rule facts)
qed



section \<open>Serialising and parsing\<close>

definition manifest_plain :: "manifest \<Rightarrow> bool" where
  "manifest_plain m \<longleftrightarrow>
     manifest_release_id m \<noteq> '''' \<and> plain_text (manifest_release_id m) \<and>
     plain_text (created_at m) \<and>
     (\<forall>e \<in> set (artifacts m). install_path e \<noteq> '''' \<and> plain_text (install_path e) \<and>
        is_sha256_hex (sha256 e))"

text \<open>What is left of an entry: the local source path is not sent, a size above 2^63 - 1 is lost.\<close>

definition wire_size :: "64 word \<Rightarrow> 64 word" where
  "wire_size n = (if unat n < 2 ^ 63 then n else 0)"

definition wire_entry :: "artifact_entry \<Rightarrow> artifact_entry" where
  "wire_entry e = e\<lparr>size_bytes := wire_size (size_bytes e), source_path := ''''\<rparr>"

lemma hex_plain: "isxdigit c \<Longrightarrow> (of_char c :: nat) < 128 \<and> c \<noteq> CHR 0x00"
  by (auto simp: isxdigit_def Let_def)

lemma sha_plain: "is_sha256_hex s \<Longrightarrow> plain_text s"
  using hex_plain
  by (auto simp: is_sha256_hex_def plain_text_def is_ascii_def no_nul_def list_all_iff)

lemma fold_max_le: "fold max xs a \<le> (k :: nat) \<longleftrightarrow> a \<le> k \<and> (\<forall>x \<in> set xs. x \<le> k)"
  by (induction xs arbitrary: a) auto

lemma entry_json_wf:
  assumes "plain_text (install_path e)" "is_sha256_hex (sha256 e)"
  shows "json_plain (entry_json e)" "json_depth (entry_json e) \<le> 1"
  using assms sha_plain by (auto simp: entry_json_def is_ascii_def plain_text_def)

lemma manifest_json_wf:
  assumes "manifest_plain m"
  shows "json_plain (manifest_json m)" "json_depth (manifest_json m) \<le> 32"
proof -
  have e: "json_plain (entry_json e)" "json_depth (entry_json e) \<le> 1" if "e \<in> set (artifacts m)" for e
    using assms that entry_json_wf by (auto simp: manifest_plain_def)
  show "json_plain (manifest_json m)"
    using e(1) assms by (auto simp: manifest_json_def manifest_plain_def plain_text_def is_ascii_def)
  have "fold max (map json_depth (map entry_json (artifacts m))) 0 \<le> 1"
    using e(2) by (auto simp: fold_max_le)
  then show "json_depth (manifest_json m) \<le> 32"
    by (simp add: manifest_json_def comp_def)
qed

lemma parse_entry_canon:
  assumes "install_path e \<noteq> ''''" "plain_text (install_path e)" "is_sha256_hex (sha256 e)"
  shows "parse_entry (canon (entry_json e)) = Inr (wire_entry e)"
proof -
  have "no_nul (install_path e)" "no_nul (sha256 e)"
    using assms sha_plain by (auto simp: plain_text_def)
  then show ?thesis
    using assms
    by (simp add: parse_entry_def entry_json_def manifest_read_string_def string_field_def
        int64_field_def wire_entry_def wire_size_def)
qed

lemma parse_entries_canon:
  "\<forall>e \<in> set es. install_path e \<noteq> '''' \<and> plain_text (install_path e) \<and> is_sha256_hex (sha256 e) \<Longrightarrow>
     parse_entries (map (canon \<circ> entry_json) es) = Inr (map wire_entry es)"
  by (induction es) (auto simp: parse_entry_canon)

text \<open>
  C28: A manifest survives its JSON form. Parsing what \<open>serialize\<close> wrote gives back the release
  id, the creation time and every entry with its install path and digest, in order. A size comes
  back as it was up to 2^63 - 1 bytes and as 0 above; the local source path is not transmitted.
\<close>

theorem manifest_roundtrip:
  assumes "boost_json L" "manifest_plain m"
  shows "parse L (serialize L m) = Inr (m\<lparr>artifacts := map wire_entry (artifacts m)\<rparr>)"
proof -
  have parsed: "parse_text L (serialize L m) = Inr (canon (manifest_json m))"
    using boost_json_parse [OF assms(1) manifest_json_wf [OF assms(2)]] by (simp add: serialize_def)
  have "no_nul (manifest_release_id m)" "no_nul (created_at m)" "manifest_release_id m \<noteq> ''''"
    using assms(2) by (auto simp: manifest_plain_def plain_text_def)
  moreover have "parse_entries (map (canon \<circ> entry_json) (artifacts m)) =
      Inr (map wire_entry (artifacts m))"
    using assms(2) by (intro parse_entries_canon) (auto simp: manifest_plain_def)
  ultimately show ?thesis
    using parsed
    by (simp add: parse_def manifest_json_def manifest_read_string_def string_field_def
        array_field_def)
qed

definition sample_manifest :: manifest where
  "sample_manifest = \<lparr>manifest_release_id = ''rel_1'', created_at = ''2026-08-08T00:00:00Z'',
     artifacts = [\<lparr>install_path = ''app.exe'', sha256 = to_hex (count_digest ''binary''),
                   size_bytes = 6, source_path = ''build/app.exe''\<rparr>]\<rparr>"

theorem manifest_roundtrip_witness:
  "manifest_plain sample_manifest \<and>
   parse unary_json (serialize unary_json sample_manifest) =
     Inr (sample_manifest\<lparr>artifacts := map wire_entry (artifacts sample_manifest)\<rparr>)"
proof -
  have "manifest_plain sample_manifest" by code_simp
  then show ?thesis using manifest_roundtrip [OF boost_json_unary] by blast
qed

section \<open>Generated release ids\<close>

lemma make_release_id_chars: "c \<in> set (make_release_id now) \<Longrightarrow> id_char c"
  by (auto simp: make_release_id_def Let_def dest: field_text_chars) (simp_all add: id_char_def)

lemma make_release_id_start: "\<exists>t. make_release_id now = ''rel_'' @ t"
  by (simp add: make_release_id_def Let_def)

lemma make_release_id_plain: "plain_text (make_release_id now)"
  using make_release_id_chars id_char_plain
  by (auto simp: plain_text_def is_ascii_def no_nul_def)

lemma make_release_id_valid: "validate_release_id (make_release_id now) = Inr ()"
proof -
  obtain t where t: "make_release_id now = ''rel_'' @ t" using make_release_id_start by blast
  have "\<not> contains_separator (make_release_id now)"
    using make_release_id_chars id_char_plain
    unfolding contains_separator_def contains_char_def by blast
  then show ?thesis
    using t by (simp add: validate_release_id_def)
qed

end
