(* ===== verification/ArtifactStore.thy ===== *)
theory ArtifactStore
  imports MachineFacts
begin

text \<open>
  \<open>RolloutKit/Artifact\<close>: the interface \<open>IArtifactStore\<close> and its implementation
  \<open>S3ArtifactStore.cpp\<close>. The AWS SDK and the client built on it are not part of the repository:
  the calls the store makes are the fields of \<open>s3_client\<close>, the SDK's default configuration is an
  argument. \<open>lawful_store\<close> is what the agent relies on: a download changes nothing but the file it
  was asked for and the directories on the way to it.
\<close>

section \<open>The interface\<close>

record 'w artifact_store =
  upload :: "string \<Rightarrow> string \<Rightarrow> 'w \<Rightarrow> unit expected \<times> 'w"
  presign :: "string \<Rightarrow> 'w \<Rightarrow> string expected \<times> 'w"
  download :: "string \<Rightarrow> string \<Rightarrow> 'w \<Rightarrow> unit expected \<times> 'w"
  object_exists :: "string \<Rightarrow> 'w \<Rightarrow> bool expected \<times> 'w"

record store_options =
  bucket :: string
  region :: string
  access_key :: string
  secret_key :: string
  endpoint :: string
  allow_insecure_tls :: bool
  presigned_url_expiration :: int

definition default_store_options :: store_options where
  "default_store_options =
     \<lparr>bucket = '''', region = ''us-east-1'', access_key = '''', secret_key = '''', endpoint = '''',
      allow_insecure_tls = False, presigned_url_expiration = 3600\<rparr>"

section \<open>\<open>S3ArtifactStore\<close>\<close>

text \<open>\<open>Aws::Client::ClientConfiguration\<close>, as far as the source sets it.\<close>

record client_configuration =
  client_region :: string
  endpoint_override :: string
  verify_ssl :: bool

definition make_configuration :: "store_options \<Rightarrow> client_configuration \<Rightarrow> client_configuration" where
  "make_configuration opts standard =
     (let c = standard\<lparr>client_region := c_str (region opts)\<rparr>;
          c = (if endpoint opts \<noteq> '''' then c\<lparr>endpoint_override := c_str (endpoint opts)\<rparr> else c)
      in if allow_insecure_tls opts then c\<lparr>verify_ssl := False\<rparr> else c)"

record 'w s3_client =
  upload_file :: "string \<Rightarrow> string \<Rightarrow> string \<Rightarrow> 'w \<Rightarrow> unit expected \<times> 'w"
  generate_presigned_url :: "string \<Rightarrow> string \<Rightarrow> int \<Rightarrow> 'w \<Rightarrow> string expected \<times> 'w"
  download_file :: "string \<Rightarrow> string \<Rightarrow> string \<Rightarrow> 'w \<Rightarrow> unit expected \<times> 'w"
  file_exists :: "string \<Rightarrow> string \<Rightarrow> 'w \<Rightarrow> bool expected \<times> 'w"

text \<open>The constructors of the client: static credentials or the default chain.\<close>

type_synonym 'w s3_sdk = "(string \<times> string) option \<Rightarrow> client_configuration \<Rightarrow> bool \<Rightarrow> 'w s3_client"

definition make_client :: "'w s3_sdk \<Rightarrow> client_configuration \<Rightarrow> store_options \<Rightarrow> 'w s3_client" where
  "make_client sdk standard opts =
     (let configuration = make_configuration opts standard;
          use_virtual_addressing = (endpoint opts = '''')
      in if access_key opts \<noteq> '''' then
           sdk (Some (c_str (access_key opts), c_str (secret_key opts))) configuration use_virtual_addressing
         else sdk None configuration use_virtual_addressing)"

definition s3_upload ::
    "'a machine_scheme s3_client \<Rightarrow> store_options \<Rightarrow> string \<Rightarrow> string \<Rightarrow> 'a machine_scheme \<Rightarrow>
       unit expected \<times> 'a machine_scheme" where
  "s3_upload C opts object_key local_path w =
     (if bucket opts = '''' then (Inl ''bucket is required'', w)
      else
        (case fs_is_regular_file (at w local_path) w of
           (False, w1) \<Rightarrow> (Inl (''upload source is not a regular file: '' @ local_path), w1)
         | (True, w1) \<Rightarrow>
             (case upload_file C (c_str (bucket opts)) (c_str object_key) (c_str local_path) w1 of
                (Inl e, w2) \<Rightarrow>
                  (Inl (''cannot upload '' @ quoted local_path @ '' to '' @ quoted object_key @ '': '' @ e), w2)
              | (Inr _, w2) \<Rightarrow> (Inr (), w2))))"

definition s3_presign ::
    "'w s3_client \<Rightarrow> store_options \<Rightarrow> string \<Rightarrow> 'w \<Rightarrow> string expected \<times> 'w" where
  "s3_presign C opts object_key w =
     (if bucket opts = '''' then (Inl ''bucket is required'', w)
      else
        (let expiration = sint (word_of_int (presigned_url_expiration opts) :: 32 word) in
         if expiration \<le> 0 then (Inl ''presigned_url_expiration must be positive'', w)
         else
           (case generate_presigned_url C (c_str (bucket opts)) (c_str object_key) expiration w of
              (Inl e, w1) \<Rightarrow> (Inl (''cannot presign '' @ quoted object_key @ '': '' @ e), w1)
            | (Inr url, w1) \<Rightarrow> (Inr url, w1))))"

definition s3_fetch ::
    "'w s3_client \<Rightarrow> store_options \<Rightarrow> string \<Rightarrow> string \<Rightarrow> 'w \<Rightarrow> unit expected \<times> 'w" where
  "s3_fetch C opts object_key local_path w =
     (case download_file C (c_str (bucket opts)) (c_str object_key) (c_str local_path) w of
        (Inl e, w1) \<Rightarrow>
          (Inl (''cannot download '' @ quoted object_key @ '' to '' @ quoted local_path @ '': '' @ e), w1)
      | (Inr _, w1) \<Rightarrow> (Inr (), w1))"

definition s3_download ::
    "'a machine_scheme s3_client \<Rightarrow> store_options \<Rightarrow> string \<Rightarrow> string \<Rightarrow> 'a machine_scheme \<Rightarrow>
       unit expected \<times> 'a machine_scheme" where
  "s3_download C opts object_key local_path w =
     (if bucket opts = '''' then (Inl ''bucket is required'', w)
      else
        (let parent = parent_path local_path in
         if parent = '''' then s3_fetch C opts object_key local_path w
         else
           (case fs_create_directories (at w parent) w of
              (Inl e, w1) \<Rightarrow> (Inl (''cannot create directory '' @ quoted parent @ '': '' @ e), w1)
            | (Inr _, w1) \<Rightarrow> s3_fetch C opts object_key local_path w1)))"

definition s3_exists :: "'w s3_client \<Rightarrow> store_options \<Rightarrow> string \<Rightarrow> 'w \<Rightarrow> bool expected \<times> 'w" where
  "s3_exists C opts object_key w =
     (if bucket opts = '''' then (Inl ''bucket is required'', w)
      else
        (case file_exists C (c_str (bucket opts)) (c_str object_key) w of
           (Inl e, w1) \<Rightarrow> (Inl (''cannot query '' @ quoted object_key @ '': '' @ e), w1)
         | (Inr found, w1) \<Rightarrow> (Inr found, w1)))"

definition s3_artifact_store ::
    "'a machine_scheme s3_sdk \<Rightarrow> client_configuration \<Rightarrow> store_options \<Rightarrow>
       'a machine_scheme artifact_store" where
  "s3_artifact_store sdk standard opts =
     (let C = make_client sdk standard opts in
      \<lparr>upload = s3_upload C opts, presign = s3_presign C opts, download = s3_download C opts,
       object_exists = s3_exists C opts\<rparr>)"

end
