(* ===== verification/Commands.thy ===== *)
theory Commands
  imports Console CliConfig ArtifactKey ReleaseManifest ArtifactStore
begin

text \<open>
  \<open>DeployCLI/Commands.cpp\<close>: the three commands of the tool. \<open>cli_parts\<close> holds what the constructor
  gets, with the JSON and the digest library; a null pointer is \<open>None\<close>. Widths of \<open>std::format\<close>
  count bytes here, so the columns of non-ASCII text may differ. Log lines are not modelled.
\<close>

record ('c, 'w) cli_parts =
  cli_json :: json_lib
  cli_digest :: "'c digest_lib"
  settings :: cli_config
  cli_store :: "'w artifact_store option"
  client :: rest_client
  confirmation_of :: "confirmation option"

section \<open>Helpers\<close>

definition agent_commands :: "string list" where
  "agent_commands = [''download_version'', ''apply_version'', ''current_status'', ''clean_old_version'',
     ''rollback_version'', ''update_configuration'', ''restart_service'', ''reboot_device'']"

definition is_agent_command :: "string \<Rightarrow> bool" where
  "is_agent_command name \<longleftrightarrow> name \<in> set agent_commands"

definition destructive_commands :: "string list" where
  "destructive_commands = [''clean_old_version'', ''reboot_device'']"

definition is_destructive_command :: "string \<Rightarrow> bool" where
  "is_destructive_command name \<longleftrightarrow> name \<in> set destructive_commands"

definition scope_of :: "string \<Rightarrow> string" where
  "scope_of target = (if target = '''' then ''every registered device'' else ''group '' @ quoted target)"

definition cli_parse_object :: "json_lib \<Rightarrow> string \<Rightarrow> string \<Rightarrow> json_object expected" where
  "cli_parse_object L s label =
     (case parse_text L s of
        Inl e \<Rightarrow> Inl (label @ '' is not valid JSON: '' @ e)
      | Inr (JObject obj) \<Rightarrow> Inr obj
      | Inr _ \<Rightarrow> Inl (label @ '' root is not a JSON object''))"

definition text_of :: "json_lib \<Rightarrow> json_object \<Rightarrow> string \<Rightarrow> string" where
  "text_of L obj key =
     (case map_of obj key of
        None \<Rightarrow> ''''
      | Some (JString s) \<Rightarrow> c_str s
      | Some v \<Rightarrow> serialize_value L v)"

definition failure_reason :: "json_lib \<Rightarrow> int \<Rightarrow> string \<Rightarrow> string" where
  "failure_reason L status body =
     (case cli_parse_object L body ''response'' of
        Inl e \<Rightarrow> int_text status @ em_dash @ body
      | Inr obj \<Rightarrow>
          (case object_field obj ''error'' of
             Some error \<Rightarrow> int_text status @ '' '' @ text_of L error ''code'' @ em_dash @ text_of L error ''message''
           | None \<Rightarrow> int_text status @ em_dash @ body))"

section \<open>Output\<close>

definition emit :: "string \<Rightarrow> 'a cli_scheme \<Rightarrow> 'a cli_scheme" where
  "emit s w =
     w\<lparr>last_output := s,
       screen := screen w @ s @ (if s \<noteq> '''' \<and> last s \<noteq> CHR 0x0A then [CHR 0x0A] else [])\<rparr>"

definition column :: "nat \<Rightarrow> string \<Rightarrow> string" where
  "column n s = s @ replicate (n - length s) (CHR '' '')"

definition newline :: string where "newline = [CHR 0x0A]"

definition delivery_line :: "json_lib \<Rightarrow> json \<Rightarrow> string" where
  "delivery_line L element =
     (case element of
        JObject delivery \<Rightarrow>
          (let error = text_of L delivery ''error'' in
           ''  '' @ column 7 (if error = '''' then ''ok'' else ''FAILED'') @ '' '' @ text_of L delivery ''queue'' @
           (if error = '''' then '''' else em_dash @ error) @ newline)
      | _ \<Rightarrow> '''')"

definition report_line :: "json_lib \<Rightarrow> json \<Rightarrow> string" where
  "report_line L element =
     (case element of
        JObject report \<Rightarrow>
          ''  '' @ column 7 (if bool_field report ''success'' = Some True then ''ok'' else ''FAILED'') @ '' '' @
          column 20 (text_of L report ''device_id'') @ '' '' @ column 18 (text_of L report ''command'') @ '' '' @
          text_of L report ''detail'' @ newline
      | _ \<Rightarrow> '''')"

definition rendered :: "json_lib \<Rightarrow> string \<Rightarrow> string \<Rightarrow> string" where
  "rendered L title json_body =
     (case cli_parse_object L json_body ''response'' of
        Inl e \<Rightarrow> json_body
      | Inr root \<Rightarrow>
          (case object_field root ''data'' of
             None \<Rightarrow> json_body
           | Some data \<Rightarrow>
               (case array_field data ''deliveries'' of
                  Some deliveries \<Rightarrow>
                    title @ newline @ ''  command   '' @ text_of L data ''command'' @ newline @
                    ''  targeted  '' @ text_of L data ''targeted'' @ newline @
                    ''  published '' @ text_of L data ''published'' @ newline @
                    concat (map (delivery_line L) deliveries)
                | None \<Rightarrow>
                    (case array_field data ''reports'' of
                       Some reports \<Rightarrow>
                         title @ newline @ ''  count     '' @ text_of L data ''count'' @ newline @
                         concat (map (report_line L) reports)
                     | None \<Rightarrow> json_body))))"

definition present :: "('c, 'a cli_scheme) cli_parts \<Rightarrow> string \<Rightarrow> string \<Rightarrow> 'a cli_scheme \<Rightarrow> 'a cli_scheme" where
  "present P title json_body w =
     emit (if output_format (settings P) = ''json'' then json_body else rendered (cli_json P) title json_body) w"

section \<open>\<open>deploy\<close>\<close>

fun upload_entries ::
    "'a cli_scheme artifact_store \<Rightarrow> string \<Rightarrow> artifact_entry list \<Rightarrow> 'a cli_scheme \<Rightarrow>
       unit expected \<times> 'a cli_scheme" where
  "upload_entries st release_id [] w = (Inr (), w)"
| "upload_entries st release_id (entry # entries) w =
     (case make_object_key release_id (install_path entry) of
        Inl e \<Rightarrow> (Inl e, w)
      | Inr key \<Rightarrow>
          (case upload st key (source_path entry) w of
             (Inl e, w1) \<Rightarrow>
               (Inl (''cannot upload '' @ quoted (source_path entry) @ '' to '' @ quoted key @ '': '' @ e), w1)
           | (Inr _, w1) \<Rightarrow> upload_entries st release_id entries w1))"

definition upload_release ::
    "'a cli_scheme artifact_store \<Rightarrow> manifest \<Rightarrow> 'a cli_scheme \<Rightarrow> unit expected \<times> 'a cli_scheme" where
  "upload_release st m w = upload_entries st (manifest_release_id m) (artifacts m) w"

definition artifact_element :: "artifact_entry \<Rightarrow> json" where
  "artifact_element entry =
     JObject [(''install_path'', JString (install_path entry)), (''sha256'', JString (sha256 entry)),
       (''size_bytes'', JUint64 (size_bytes entry))]"

definition deploy_request :: "cli_config \<Rightarrow> manifest \<Rightarrow> json" where
  "deploy_request c m =
     JObject [(''release_id'', JString (manifest_release_id m)), (''group'', JString (cli_target_group c)),
       (''artifacts'', JArray (map artifact_element (artifacts m)))]"

text \<open>What all three commands do with the answer of the control plane.\<close>

definition conclude ::
    "('c, 'a cli_scheme) cli_parts \<Rightarrow> string \<Rightarrow> string \<Rightarrow> rest_response expected \<Rightarrow> 'a cli_scheme \<Rightarrow>
       unit expected \<times> 'a cli_scheme" where
  "conclude P refusal title response w =
     (case response of
        Inl e \<Rightarrow> (Inl e, w)
      | Inr r \<Rightarrow>
          if \<not> response_ok r then
            (Inl (refusal @ failure_reason (cli_json P) (status_code r) (response_body r)), w)
          else (Inr (), present P title (response_body r) w))"

definition deploy :: "('c, 'a cli_scheme) cli_parts \<Rightarrow> 'a cli_scheme \<Rightarrow> unit expected \<times> 'a cli_scheme" where
  "deploy P w =
     (case cli_required_for_deploy (settings P) of
        Inl e \<Rightarrow> (Inl e, w)
      | Inr _ \<Rightarrow>
          (case cli_store P of
             None \<Rightarrow> (Inl ''artifact store is not configured'', w)
           | Some st \<Rightarrow>
               (let now = wall w; release_id = make_release_id now in
                case build (cli_digest P) (upload_file_list (settings P)) release_id now w of
                  (Inl e, w1) \<Rightarrow> (Inl e, w1)
                | (Inr m, w1) \<Rightarrow>
                    (case upload_release st m w1 of
                       (Inl e, w2) \<Rightarrow> (Inl e, w2)
                     | (Inr _, w2) \<Rightarrow>
                         (case rest_post (client P) ''/api/v1/deployments''
                                 (serialize_value (cli_json P) (deploy_request (settings P) m)) w2 of
                            (response, w3) \<Rightarrow>
                              conclude P ''deployment request rejected: '' (''deployed '' @ release_id) response w3)))))"

section \<open>\<open>command\<close> and \<open>results\<close>\<close>

definition approve ::
    "('c, 'a cli_scheme) cli_parts \<Rightarrow> string \<Rightarrow> 'a cli_scheme \<Rightarrow> unit expected \<times> 'a cli_scheme" where
  "approve P name w =
     (if \<not> is_destructive_command name then (Inr (), w)
      else if load_warning (settings P) \<noteq> None \<and> cli_target_group (settings P) = '''' then
        (Inl (quoted name @ '' was not published'' @ em_dash @ ''the configuration was not loaded ('' @
           the (load_warning (settings P)) @ '') and no target group was given, so the scope would be every '' @
           ''registered device by default. pass --target_group <name>''), w)
      else
        (case confirmation_of P of
           None \<Rightarrow> (Inl (quoted name @ '' was not published'' @ em_dash @ ''confirmation is not available''), w)
         | Some C \<Rightarrow> confirm C name (scope_of (cli_target_group (settings P))) w))"

definition command_payload :: "json_lib \<Rightarrow> cli_config \<Rightarrow> string list \<Rightarrow> json_object expected" where
  "command_payload L c args =
     (if hd args = ''update_configuration'' then
        (if length args < 2 then
           Inl (''update_configuration requires a configuration path relative to the release directory (yirang command update_configuration '' @
             ''config/app.json --config_values '' @ quoted ''{\"key\":1}'' @ '')'')
         else if config_values c = '''' then Inl ''update_configuration requires --config_values <json object>''
         else
           (case cli_parse_object L (config_values c) ''--config_values'' of
              Inl e \<Rightarrow> Inl e
            | Inr values \<Rightarrow> Inr [(''path'', JString (args ! 1)), (''values'', JObject values)]))
      else if length args > 1 then Inr [(''release_id'', JString (args ! 1))]
      else Inr [])"

definition command_request :: "cli_config \<Rightarrow> string \<Rightarrow> json_object \<Rightarrow> json" where
  "command_request c name obj =
     JObject [(''command'', JString name), (''group'', JString (cli_target_group c)), (''payload'', JObject obj)]"

definition publish ::
    "('c, 'a cli_scheme) cli_parts \<Rightarrow> string list \<Rightarrow> 'a cli_scheme \<Rightarrow> unit expected \<times> 'a cli_scheme" where
  "publish P args w =
     (case cli_required (settings P) of
        Inl e \<Rightarrow> (Inl e, w)
      | Inr _ \<Rightarrow>
          let names = serialize_value (cli_json P) (JArray (map JString agent_commands)) in
          if args = [] then (Inl (''command name is required (one of '' @ names @ '')''), w)
          else if \<not> is_agent_command (hd args) then
            (Inl (quoted (hd args) @ '' is not an agent command (one of '' @ names @ '')''), w)
          else
            (case approve P (hd args) w of
               (Inl e, w1) \<Rightarrow> (Inl e, w1)
             | (Inr _, w1) \<Rightarrow>
                 (case command_payload (cli_json P) (settings P) args of
                    Inl e \<Rightarrow> (Inl e, w1)
                  | Inr obj \<Rightarrow>
                      (case rest_post (client P) ''/api/v1/commands''
                              (serialize_value (cli_json P) (command_request (settings P) (hd args) obj)) w1 of
                         (response, w2) \<Rightarrow>
                           conclude P ''command rejected: '' (''published '' @ hd args) response w2))))"

definition results :: "('c, 'a cli_scheme) cli_parts \<Rightarrow> 'a cli_scheme \<Rightarrow> unit expected \<times> 'a cli_scheme" where
  "results P w =
     (case cli_required (settings P) of
        Inl e \<Rightarrow> (Inl e, w)
      | Inr _ \<Rightarrow>
          (case rest_get (client P) ''/api/v1/results'' w of
             (response, w1) \<Rightarrow> conclude P ''cannot read results: '' ''results'' response w1))"

section \<open>\<open>run\<close>\<close>

definition handlers ::
    "('c, 'a cli_scheme) cli_parts \<Rightarrow> (string \<times> (string list \<Rightarrow> 'a cli_scheme \<Rightarrow> unit expected \<times> 'a cli_scheme)) list" where
  "handlers P = [(''deploy'', \<lambda>args. deploy P), (''command'', publish P), (''results'', \<lambda>args. results P)]"

definition run_command ::
    "('c, 'a cli_scheme) cli_parts \<Rightarrow> string \<Rightarrow> string list \<Rightarrow> 'a cli_scheme \<Rightarrow> unit expected \<times> 'a cli_scheme" where
  "run_command P name args w =
     (case map_of (handlers P) name of
        None \<Rightarrow> (Inl (''unknown command '' @ quoted name), w)
      | Some handler \<Rightarrow> handler args w)"

end
