(* ===== verification/CliMain.thy ===== *)
theory CliMain
  imports Commands
begin

text \<open>
  \<open>DeployCLI/main.cpp\<close>: from the command line to one command. The argument parser is part of the
  environment, as for the agent; \<open>arguments\<close> are the tokens after the program name. The usage and
  the version text are arguments, the logger is left out.
\<close>

fun positional_arguments :: "string list \<Rightarrow> string list" where
  "positional_arguments [] = []"
| "positional_arguments [token] = (if starts_with ''--'' token then [] else [token])"
| "positional_arguments (token # next # rest) =
     (if starts_with ''--'' token then
        (if token \<noteq> ''--help'' \<and> token \<noteq> ''--version'' \<and> \<not> starts_with ''--'' next then positional_arguments rest
         else positional_arguments (next # rest))
      else token # positional_arguments (next # rest))"

definition cli_store_options :: "cli_config \<Rightarrow> store_options" where
  "cli_store_options c =
     default_store_options\<lparr>bucket := cli_s3_bucket c, region := cli_s3_region c, endpoint := cli_s3_endpoint c,
       allow_insecure_tls := cli_insecure_tls c\<rparr>"

record ('c, 'w) cli_platform =
  platform_digest :: "'c digest_lib"
  platform_s3 :: "'w s3_sdk"
  platform_configuration :: client_configuration
  terminal :: bool
  version_text :: string
  usage_text :: string

definition make_commands ::
    "'e cli_env_scheme \<Rightarrow> ('c, 'a cli_scheme) cli_platform \<Rightarrow> cli_config \<Rightarrow> ('c, 'a cli_scheme) cli_parts" where
  "make_commands E H c =
     \<lparr>cli_json = env_json E, cli_digest = platform_digest H, settings = c,
      cli_store = Some (s3_artifact_store (platform_s3 H) (platform_configuration H) (cli_store_options c)),
      client = make_rest_client (control_plane_url c) (api_token c) (request_timeout_seconds c),
      confirmation_of = Some \<lparr>provided_token = confirm_token c, interactive = terminal H\<rparr>\<rparr>"

definition print :: "string \<Rightarrow> 'a cli_scheme \<Rightarrow> 'a cli_scheme" where
  "print s w = w\<lparr>screen := screen w @ s\<rparr>"

definition cli_main ::
    "'e cli_env_scheme \<Rightarrow> ('c, 'a cli_scheme) cli_platform \<Rightarrow> string list \<Rightarrow> 'a cli_scheme \<Rightarrow> int \<times> 'a cli_scheme" where
  "cli_main E H args w =
     (let c = cli_configurations E ''yirang_deploy_configurations.json'' in
      if show_version c then (0, print (version_text H) w)
      else if show_help c then (0, print (usage_text H) w)
      else
        (case positional_arguments args of
           [] \<Rightarrow> (1, print (usage_text H) w)
         | name # rest \<Rightarrow>
             (case run_command (make_commands E H c) name rest w of
                (Inl e, w1) \<Rightarrow> (1, w1)
              | (Inr _, w1) \<Rightarrow> (0, w1))))"

end
