(* ===== verification/CliFacts.thy ===== *)
theory CliFacts
  imports CliMain ReleaseInstaller
begin

text \<open>
  What the command-line tool sends and when. A destructive command leaves the tool only after it
  was confirmed by its own name, and only when the configuration that decides on the scope was
  really loaded or a group was named. A deployment is requested only after every file of its
  manifest is in the store, with the digest and under the key the devices will use.
\<close>

section \<open>Requests\<close>

lemma conclude_effect: "conclude P refusal title response w = (r, w') \<Longrightarrow> requests w' = requests w \<and> files w' = files w"
  by (auto simp: conclude_def present_def emit_def split: sum.splits if_splits)

lemma conclude_more: "conclude P refusal title response w = (r, w') \<Longrightarrow> cli.more w' = cli.more w"
  by (auto simp: conclude_def present_def emit_def split: sum.splits if_splits)

lemma approve_effect:
  assumes "approve P name w = (r, w')"
  shows "requests w' = requests w \<and>
    (r = Inr () \<longrightarrow> is_destructive_command name \<longrightarrow>
       (load_warning (settings P) = None \<or> cli_target_group (settings P) \<noteq> '''') \<and>
       (\<exists>C. confirmation_of P = Some C \<and>
          (provided_token C = name \<or>
           provided_token C = '''' \<and> interactive C \<and>
             (\<exists>line lines. stdin_lines w = line # lines \<and> trimmed line = name))))"
proof -
  have "is_destructive_command name \<Longrightarrow> name \<noteq> ''''"
    by (auto simp: is_destructive_command_def destructive_commands_def)
  then show ?thesis
    using assms confirm_effect [of _ name "scope_of (cli_target_group (settings P))" w r w']
    by (fastforce simp: approve_def split: if_splits option.splits)
qed

lemma publish_sends:
  assumes "publish P (name # args) w = (r, w')" "requests w' \<noteq> requests w"
  shows "\<exists>w1 obj. approve P name w = (Inr (), w1) \<and>
    command_payload (cli_json P) (settings P) (name # args) = Inr obj \<and> is_agent_command name \<and>
    requests w' = requests w @ [make_request (client P) ''/api/v1/commands''
      (Some (serialize_value (cli_json P) (command_request (settings P) name obj)))]"
proof -
  obtain a w1 where a: "approve P name w = (a, w1)" by fastforce
  note k = approve_effect [OF a]
  obtain obj response w2 where go: "is_agent_command name" "a = Inr ()"
      "command_payload (cli_json P) (settings P) (name # args) = Inr obj"
      "rest_post (client P) ''/api/v1/commands''
        (serialize_value (cli_json P) (command_request (settings P) name obj)) w1 = (response, w2)"
      "conclude P ''command rejected: '' (''published '' @ name) response w2 = (r, w')"
    using assms a k
    by (auto simp: publish_def Let_def split: sum.splits if_splits prod.splits)
  have "requests w2 \<noteq> requests w1" using assms(2) k conclude_effect [OF go(5)] by simp
  with rest_send_effect [OF go(4) [unfolded rest_post_def]]
  have "requests w2 = requests w1 @ [make_request (client P) ''/api/v1/commands''
      (Some (serialize_value (cli_json P) (command_request (settings P) name obj)))]" by blast
  then show ?thesis using a go(1-3) k conclude_effect [OF go(5)] by auto
qed

section \<open>Destructive commands\<close>

text \<open>
  C10: A destructive command needs its own name as confirmation. Whatever the environment,
  the files and the answers, if the tool called with \<open>command clean_old_version\<close> or
  \<open>command reboot_device\<close> sends anything, then \<open>--confirm\<close> was given with exactly that name, or it
  was not given and a terminal answered with the name; the scope was not a default that a failed
  load of the configuration left behind; and exactly one request was sent, for this command and
  the configured group.
\<close>

theorem destructive_needs_confirmation:
  assumes "cli_main E H args w = (code, w')" "requests w' \<noteq> requests w"
    and "positional_arguments args = ''command'' # name # rest" "is_destructive_command name"
  defines "c \<equiv> cli_configurations E ''yirang_deploy_configurations.json''"
  shows "(confirm_token c = name \<or>
      confirm_token c = '''' \<and> terminal H \<and> (\<exists>line lines. stdin_lines w = line # lines \<and> trimmed line = name)) \<and>
    (load_warning c = None \<or> cli_target_group c \<noteq> '''') \<and>
    (\<exists>obj. requests w' = requests w @
      [make_request (make_rest_client (control_plane_url c) (api_token c) (request_timeout_seconds c))
        ''/api/v1/commands'' (Some (serialize_value (env_json E) (command_request c name obj)))])"
proof -
  let ?P = "make_commands E H c"
  have s: "requests (print t w) = requests w" for t by (simp add: print_def)
  obtain r where p: "publish ?P (name # rest) w = (r, w')"
    using assms(1-3) s
    by (auto simp: cli_main_def Let_def c_def run_command_def handlers_def split: if_splits prod.splits sum.splits)
  from publish_sends [OF p assms(2)] obtain w1 obj where a: "approve ?P name w = (Inr (), w1)"
    and q: "requests w' = requests w @ [make_request (client ?P) ''/api/v1/commands''
      (Some (serialize_value (cli_json ?P) (command_request (settings ?P) name obj)))]" by blast
  have m: "settings ?P = c" "cli_json ?P = env_json E"
    "client ?P = make_rest_client (control_plane_url c) (api_token c) (request_timeout_seconds c)"
    "confirmation_of ?P = Some \<lparr>provided_token = confirm_token c, interactive = terminal H\<rparr>"
    by (simp_all add: make_commands_def)
  show ?thesis using approve_effect [OF a] assms(4) q unfolding m by auto
qed

section \<open>Deployments\<close>

text \<open>
  What the tool relies on from the S3 client: an upload touches neither the files nor the requests,
  brings no further fault, leaves every other object alone and, when it reports success, has
  stored the content of the local file under the key. The objects are part of the world the client
  extends the machine by; \<open>objects\<close> reads them there.
\<close>

definition faithful_s3 :: "('a \<Rightarrow> string \<Rightarrow> string \<Rightarrow> string option) \<Rightarrow> 'a cli_scheme s3_client \<Rightarrow> bool" where
  "faithful_s3 objects C \<longleftrightarrow>
     (\<forall>b key path w r w'. upload_file C b key path w = (r, w') \<longrightarrow>
        files w' = files w \<and> cwd w' = cwd w \<and> requests w' = requests w \<and> (faults w = [] \<longrightarrow> faults w' = []) \<and>
        (\<forall>k. k \<noteq> key \<longrightarrow> objects (cli.more w') b k = objects (cli.more w) b k) \<and>
        (r = Inr () \<longrightarrow> (\<exists>c m. lookup (files w) (at w path) = Some (File c m) \<and>
           objects (cli.more w') b key = Some c)))"

lemma s3_upload_ok:
  assumes "faithful_s3 objects C" "faults w = []" "s3_upload C opts key path w = (Inr (), w')"
    and "no_nul key" "no_nul path" "no_nul (bucket opts)"
  shows "files w' = files w \<and> cwd w' = cwd w \<and> requests w' = requests w \<and> faults w' = [] \<and>
    (\<forall>k. k \<noteq> key \<longrightarrow> objects (cli.more w') (bucket opts) k = objects (cli.more w) (bucket opts) k) \<and>
    (\<exists>c m. lookup (files w) (at w path) = Some (File c m) \<and> objects (cli.more w') (bucket opts) key = Some c)"
proof -
  obtain u where "upload_file C (bucket opts) key path w = (Inr u, w')"
    using assms(2-6)
    by (auto simp: s3_upload_def fs_is_regular_file_def take_fault_none split: bool.splits if_splits prod.splits sum.splits)
  then show ?thesis using assms(1,2) unfolding faithful_s3_def by (cases u) fastforce
qed

text \<open>
  The object that an entry of the manifest is about: it is stored, it is the content of the local
  file, and the entry has its digest and its size.
\<close>

definition stored_entry ::
    "(string \<Rightarrow> string \<Rightarrow> string option) \<Rightarrow> string \<Rightarrow> (string \<Rightarrow> string) \<Rightarrow> 'a machine_scheme \<Rightarrow> string \<Rightarrow> artifact_entry \<Rightarrow> bool" where
  "stored_entry store b H w release_id e \<longleftrightarrow>
     (\<exists>key c m. make_object_key release_id (install_path e) = Inr key \<and> store b key = Some c \<and>
        lookup (files w) (at w (source_path e)) = Some (File c m) \<and>
        sha256 e = to_hex (H c) \<and> size_bytes e = word_of_nat (length c))"

lemma stored_entry_at:
  "files w' = files w \<Longrightarrow> cwd w' = cwd w \<Longrightarrow> stored_entry store b H w' = stored_entry store b H w"
  by (intro ext) (simp add: stored_entry_def at_def)

lemma object_key_no_nul:
  "make_object_key release_id path = Inr key \<Longrightarrow> no_nul release_id \<Longrightarrow> no_nul path \<Longrightarrow> no_nul key"
  using make_object_key_parts(5) [of release_id path key] by (simp add: no_nul_def)

lemma describes_at: "files w' = files w \<Longrightarrow> cwd w' = cwd w \<Longrightarrow> describes H w' e = describes H w e"
  by (simp add: describes_def at_def)

lemma upload_entries_store:
  assumes "upload st = s3_upload C opts" "faithful_s3 objects C" "no_nul (bucket opts)" "no_nul release_id"
    and "faults w = []" "upload_entries st release_id es w = (Inr (), w')"
    and "distinct (map install_path es)" "\<forall>e \<in> set es. describes H w e \<and> no_nul (install_path e) \<and> no_nul (source_path e)"
  shows "requests w' = requests w \<and> faults w' = [] \<and>
    (\<forall>e \<in> set es. stored_entry (objects (cli.more w')) (bucket opts) H w release_id e) \<and>
    (\<forall>k. (\<forall>e \<in> set es. make_object_key release_id (install_path e) \<noteq> Inr k) \<longrightarrow>
       objects (cli.more w') (bucket opts) k = objects (cli.more w) (bucket opts) k)"
  using assms(5-8)
proof (induction es arbitrary: w)
  case Nil
  then show ?case by simp
next
  case (Cons e es)
  obtain key w1 where k: "make_object_key release_id (install_path e) = Inr key"
    and u: "s3_upload C opts key (source_path e) w = (Inr (), w1)"
    and r: "upload_entries st release_id es w1 = (Inr (), w')"
    using Cons.prems(2) assms(1) by (auto split: sum.splits prod.splits)
  have n: "no_nul key" "no_nul (source_path e)"
    using object_key_no_nul [OF k assms(4)] Cons.prems(4) by auto
  note s = s3_upload_ok [OF assms(2) Cons.prems(1) u n assms(3)]
  have d: "\<forall>e \<in> set es. describes H w1 e \<and> no_nul (install_path e) \<and> no_nul (source_path e)"
    using Cons.prems(4) s describes_at [of w1 w H] by auto
  have rest: "requests w' = requests w1 \<and> faults w' = [] \<and>
      (\<forall>e \<in> set es. stored_entry (objects (cli.more w')) (bucket opts) H w release_id e) \<and>
      (\<forall>k. (\<forall>e \<in> set es. make_object_key release_id (install_path e) \<noteq> Inr k) \<longrightarrow>
         objects (cli.more w') (bucket opts) k = objects (cli.more w1) (bucket opts) k)"
    using Cons.IH [OF _ r _ d] s Cons.prems(3) stored_entry_at [of w1 w] by simp
  have new: "make_object_key release_id (install_path e') \<noteq> Inr key" if "e' \<in> set es" for e'
    using that Cons.prems(3) object_key_injective [OF k, of release_id "install_path e'"] by (auto simp: image_iff)
  then have "objects (cli.more w') (bucket opts) key = objects (cli.more w1) (bucket opts) key" using rest by blast
  moreover have "describes H w e" using Cons.prems(4) by simp
  ultimately have "stored_entry (objects (cli.more w')) (bucket opts) H w release_id e"
    using s k by (auto simp: stored_entry_def describes_def)
  then show ?case using rest s k by auto
qed

lemma build_spec:
  assumes "evp_sha256 D H" "faults w = []" "build D upload_files release_id now w = (Inr m, w1)"
  shows "w1 = w \<and> manifest_release_id m = release_id \<and> map source_path (artifacts m) = upload_files \<and>
    distinct (map install_path (artifacts m)) \<and> (\<forall>e \<in> set (artifacts m). describes H w e)"
  using assms(3) build_entries_spec [OF assms(1,2), of upload_files "[]" "[]"]
  by (fastforce simp: build_def split: if_splits prod.splits sum.splits)

lemma file_size_reads: "file_size p w = (r, w') \<Longrightarrow> reads w w'"
  by (auto simp: file_size_def dest: take_fault_reads split: prod.splits option.splits node.splits)

lemma build_entries_reads: "build_entries D sources claimed entries w = (r, w') \<Longrightarrow> reads w w'"
proof (induction sources arbitrary: claimed entries w)
  case Nil
  then show ?case by simp
next
  case (Cons source rest)
  show ?case
    using Cons.prems
    by (auto simp: Let_def split: prod.splits bool.splits if_splits sum.splits
        dest!: exists_reads is_regular_file_reads file_sha256_reads file_size_reads Cons.IH intro: reads_trans)
      (meson reads_trans)+
qed

lemma build_requests:
  assumes "build D sources release_id now (w :: 'a cli_scheme) = (r, w')"
  shows "requests w' = requests w"
proof -
  have "reads w w'"
    using assms by (auto simp: build_def dest: build_entries_reads split: if_splits prod.splits sum.splits)
  then have "w' = w\<lparr>faults := faults w'\<rparr>" by (simp add: reads_def)
  then have "requests w' = requests (w\<lparr>faults := faults w'\<rparr>)" by (rule arg_cong)
  then show ?thesis by simp
qed

lemma s3_upload_requests:
  assumes "faithful_s3 objects C" "s3_upload C opts key path w = (r, w')"
  shows "requests w' = requests w"
proof -
  obtain b w1 where b: "fs_is_regular_file (at w path) w = (b, w1)" by fastforce
  then have "requests w1 = requests w"
    by (auto simp: fs_is_regular_file_def take_fault_def split: prod.splits option.splits list.splits)
  moreover have "requests v' = requests v" if "upload_file C x y z v = (u, v')" for x y z u v v'
    using assms(1) that unfolding faithful_s3_def by blast
  ultimately show ?thesis
    using assms(2) b by (auto simp: s3_upload_def split: if_splits bool.splits prod.splits sum.splits)
qed

lemma upload_entries_requests:
  assumes "upload st = s3_upload C opts" "faithful_s3 objects C" "upload_entries st release_id es w = (r, w')"
  shows "requests w' = requests w"
  using assms(3)
proof (induction es arbitrary: w)
  case Nil
  then show ?case by simp
next
  case (Cons e es)
  then show ?case
    using s3_upload_requests [OF assms(2)] assms(1)
    by (fastforce split: sum.splits prod.splits)
qed

lemma filename_no_nul: "no_nul s \<Longrightarrow> no_nul (path_filename s)"
  unfolding path_filename_def no_nul_def by (auto dest: set_takeWhileD)

lemma make_release_id_no_nul: "no_nul (make_release_id now)"
  using make_release_id_plain by (simp add: plain_text_def)

lemma deploy_sends:
  assumes "deploy (make_commands E H c) w = (r, w')" "requests w' \<noteq> requests w"
    and "evp_sha256 (platform_digest H) D" "\<And>credentials configuration addressing. faithful_s3 objects (platform_s3 H credentials configuration addressing)"
    and "faults w = []" "no_nul (cli_s3_bucket c)" "\<forall>s \<in> set (upload_file_list c). no_nul s"
  shows "\<exists>m. requests w' = requests w @
      [make_request (make_rest_client (control_plane_url c) (api_token c) (request_timeout_seconds c))
        ''/api/v1/deployments'' (Some (serialize_value (env_json E) (deploy_request c m)))] \<and>
    map source_path (artifacts m) = upload_file_list c \<and>
    map install_path (artifacts m) = map path_filename (upload_file_list c) \<and> distinct (map install_path (artifacts m)) \<and>
    manifest_release_id m = make_release_id (wall w) \<and>
    (\<forall>e \<in> set (artifacts m). stored_entry (objects (cli.more w')) (cli_s3_bucket c) D w (manifest_release_id m) e)"
proof -
  let ?P = "make_commands E H c" and ?id = "make_release_id (wall w)" and ?o = "cli_store_options c"
  let ?C = "make_client (platform_s3 H) (platform_configuration H) ?o"
  let ?st = "s3_artifact_store (platform_s3 H) (platform_configuration H) ?o"
  have P: "settings ?P = c" "cli_json ?P = env_json E" "cli_digest ?P = platform_digest H" "cli_store ?P = Some ?st"
    "client ?P = make_rest_client (control_plane_url c) (api_token c) (request_timeout_seconds c)"
    by (simp_all add: make_commands_def)
  have st: "upload ?st = s3_upload ?C ?o" by (simp add: s3_artifact_store_def Let_def)
  have f: "faithful_s3 objects ?C" using assms(4) by (simp add: make_client_def Let_def)
  have o: "bucket ?o = cli_s3_bucket c" by (simp add: cli_store_options_def)
  obtain x w1 where b0: "build (platform_digest H) (upload_file_list c) ?id (wall w) w = (x, w1)" by fastforce
  obtain m where x: "x = Inr m"
    using assms(1,2) b0 build_requests [OF b0] by (auto simp: deploy_def P Let_def split: sum.splits)
  obtain y w2 where u: "upload_entries ?st (manifest_release_id m) (artifacts m) w1 = (y, w2)" by fastforce
  obtain response w3 where b: "build (platform_digest H) (upload_file_list c) ?id (wall w) w = (Inr m, w1)"
    and up: "upload_entries ?st (manifest_release_id m) (artifacts m) w1 = (Inr (), w2)"
    and post: "rest_send (client ?P) ''/api/v1/deployments''
      (Some (serialize_value (env_json E) (deploy_request c m))) w2 = (response, w3)"
    and fin: "conclude ?P ''deployment request rejected: '' (''deployed '' @ ?id) response w3 = (r, w')"
    using assms(1,2) b0 x u upload_entries_requests [OF st f u] build_requests [OF b0]
    by (auto simp: deploy_def P Let_def upload_release_def rest_post_def split: sum.splits prod.splits)
  note s = build_spec [OF assms(3,5) b]
  have d: "\<forall>e \<in> set (artifacts m). describes D w1 e \<and> no_nul (install_path e) \<and> no_nul (source_path e)"
  proof
    fix e
    assume e: "e \<in> set (artifacts m)"
    then have "source_path e \<in> set (map source_path (artifacts m))" by simp
    then have "source_path e \<in> set (upload_file_list c)" using s by (simp only: simp_thms)
    then have "no_nul (source_path e)" using assms(7) by blast
    then show "describes D w1 e \<and> no_nul (install_path e) \<and> no_nul (source_path e)"
      using s e filename_no_nul by (auto simp: describes_def)
  qed
  have names: "map install_path (artifacts m) = map path_filename (upload_file_list c)"
  proof -
    have "map install_path (artifacts m) = map (path_filename \<circ> source_path) (artifacts m)"
      using s by (auto simp: describes_def)
    then show ?thesis using s by (simp only: map_map [symmetric])
  qed
  have stored: "requests w2 = requests w"
      "\<forall>e \<in> set (artifacts m). stored_entry (objects (cli.more w2)) (cli_s3_bucket c) D w (manifest_release_id m) e"
    using upload_entries_store [OF st f _ _ _ _ _ d] up s o assms(5,6) make_release_id_no_nul by auto
  have q: "requests w' = requests w3" "cli.more w' = cli.more w3"
    using conclude_effect [OF fin] conclude_more [OF fin] by auto
  have more: "cli.more w3 = cli.more w2"
    using post by (auto simp: rest_send_def Let_def take_fault_def split: if_splits option.splits list.splits sum.splits prod.splits)
  have "requests w3 = requests w @
      [make_request (client ?P) ''/api/v1/deployments'' (Some (serialize_value (env_json E) (deploy_request c m)))]"
    using rest_send_effect [OF post] assms(2) q stored(1) by auto
  then show ?thesis using stored s names q more P by auto
qed


end
