(* ===== verification/AgentMessage.thy ===== *)
theory AgentMessage
  imports Json
begin

text \<open>
  \<open>YirangAgent/AgentMessage.cpp\<close>: the envelope in which commands reach the agent. \<open>payload\<close> is
  kept as text: the serialised JSON value, or the characters of a JSON string.
\<close>

record agent_message =
  command :: string
  payload :: string
  target_group :: string
  reply_queue_url :: string

definition kDownloadVersion :: string where "kDownloadVersion = ''download_version''"
definition kApplyVersion :: string where "kApplyVersion = ''apply_version''"
definition kCurrentStatus :: string where "kCurrentStatus = ''current_status''"
definition kCleanOldVersion :: string where "kCleanOldVersion = ''clean_old_version''"
definition kRollbackVersion :: string where "kRollbackVersion = ''rollback_version''"
definition kUpdateConfiguration :: string where "kUpdateConfiguration = ''update_configuration''"
definition kRestartService :: string where "kRestartService = ''restart_service''"
definition kRebootDevice :: string where "kRebootDevice = ''reboot_device''"

lemmas command_names =
  kDownloadVersion_def kApplyVersion_def kCurrentStatus_def kCleanOldVersion_def
  kRollbackVersion_def kUpdateConfiguration_def kRestartService_def kRebootDevice_def

definition message_payload :: "json_lib \<Rightarrow> json_object \<Rightarrow> string" where
  "message_payload L root =
     (case map_of root ''payload'' of
        None \<Rightarrow> ''{}''
      | Some (JString s) \<Rightarrow> c_str s
      | Some v \<Rightarrow> serialize_value L v)"

definition parse_agent_message :: "json_lib \<Rightarrow> string \<Rightarrow> agent_message expected" where
  "parse_agent_message L raw =
     (case parse_text L raw of
        Inl e \<Rightarrow> Inl (''cannot parse agent message: '' @ e)
      | Inr (JObject root) \<Rightarrow>
          (case string_field root ''command'' of
             None \<Rightarrow> Inl (''agent message field '' @ quoted ''command'' @ '' is missing or not a string'')
           | Some name \<Rightarrow>
               if name = '''' then Inl (''agent message field '' @ quoted ''command'' @ '' is empty'')
               else Inr
                 \<lparr>command = name, payload = message_payload L root,
                  target_group = (case string_field root ''target_group'' of Some s \<Rightarrow> s | None \<Rightarrow> ''''),
                  reply_queue_url =
                    (case string_field root ''reply_queue_url'' of Some s \<Rightarrow> s | None \<Rightarrow> '''')\<rparr>)
      | Inr _ \<Rightarrow> Inl ''agent message root is not a JSON object'')"

definition payload_value :: "json_lib \<Rightarrow> string \<Rightarrow> json" where
  "payload_value L p = (case parse_text L p of Inr v \<Rightarrow> v | Inl _ \<Rightarrow> JString p)"

definition message_json :: "json_lib \<Rightarrow> agent_message \<Rightarrow> json" where
  "message_json L m =
     JObject ([(''command'', JString (command m)), (''payload'', payload_value L (payload m))] @
       (if target_group m = '''' then [] else [(''target_group'', JString (target_group m))]) @
       (if reply_queue_url m = '''' then []
        else [(''reply_queue_url'', JString (reply_queue_url m))]))"

definition serialize_agent_message :: "json_lib \<Rightarrow> agent_message \<Rightarrow> string" where
  "serialize_agent_message L m = serialize_value L (message_json L m)"

section \<open>Round trip\<close>

text \<open>
  A message as the control plane makes it: plain texts, a command, and for a payload the text of
  a JSON object.
\<close>

definition plain_message :: "json_lib \<Rightarrow> agent_message \<Rightarrow> json_object \<Rightarrow> bool" where
  "plain_message L m obj \<longleftrightarrow>
     plain_text (command m) \<and> command m \<noteq> '''' \<and> plain_text (target_group m) \<and>
     plain_text (reply_queue_url m) \<and> payload m = serialize_value L (JObject obj) \<and>
     json_plain (JObject obj) \<and> canon (JObject obj) = JObject obj \<and> json_depth (JObject obj) \<le> 31"

lemma plain_message_value:
  "boost_json L \<Longrightarrow> plain_message L m obj \<Longrightarrow> payload_value L (payload m) = JObject obj"
  using boost_json_parse [of L "JObject obj"] by (simp add: plain_message_def payload_value_def)

lemma parse_message_json:
  assumes "boost_json L" "plain_message L m obj"
  shows "parse_text L (serialize_agent_message L m) = Inr (message_json L m)"
proof -
  have v: "payload_value L (payload m) = JObject obj" by (rule plain_message_value [OF assms])
  have p: "json_plain (message_json L m)" "json_depth (message_json L m) \<le> 32"
    "canon (message_json L m) = message_json L m"
    using assms(2) unfolding message_json_def v plain_message_def plain_text_def
    by (simp_all add: is_ascii_def)
  show ?thesis
    using boost_json_parse [OF assms(1) p(1,2)] p(3) by (simp add: serialize_agent_message_def)
qed

text \<open>
  A command message survives the queue: what \<open>serialize_agent_message\<close> made of a message with a
  command, plain texts and a JSON object for a payload is what \<open>parse_agent_message\<close> reads back.
  The optional fields are left out when empty and come back empty.
\<close>

theorem message_roundtrip:
  assumes "boost_json L" "plain_message L m obj"
  shows "parse_agent_message L (serialize_agent_message L m) = Inr m"
proof -
  have v: "payload_value L (payload m) = JObject obj" by (rule plain_message_value [OF assms])
  have p: "payload m = serialize_value L (JObject obj)" "command m \<noteq> ''''"
    "c_str (command m) = command m" "c_str (target_group m) = target_group m"
    "c_str (reply_queue_url m) = reply_queue_url m"
    using assms(2) by (simp_all add: plain_message_def)
  show ?thesis
    unfolding parse_agent_message_def parse_message_json [OF assms] message_json_def v
    using p by (cases m) (simp add: message_payload_def string_field_def)
qed

definition apply_message :: agent_message where
  "apply_message = \<lparr>command = kApplyVersion,
     payload = serialize_value unary_json (JObject [(''release_id'', JString ''rel_1'')]),
     target_group = ''kiosk'', reply_queue_url = ''''\<rparr>"

theorem message_roundtrip_witness:
  "parse_agent_message unary_json (serialize_agent_message unary_json apply_message) = Inr apply_message"
  by (rule message_roundtrip [OF boost_json_unary, where obj = "[(''release_id'', JString ''rel_1'')]"])
    (simp add: plain_message_def apply_message_def command_names is_ascii_def)

end
