(* ===== verification/Processes.thy ===== *)
theory Processes
  imports MachineFacts
begin

unbundle bit_operations_syntax

text \<open>
  The processes of the device and the system calls \<open>RolloutKit/Process\<close> makes on them, as an
  extension \<open>os\<close> of the machine, and the types of \<open>ProcessTypes.h\<close>.

  \<^item> \<open>procs\<close> is the process table by pid. A process is a child of the agent or not; a child that
    has ended stays in the table with its wait status until the agent waits for it, any other
    process that ends leaves the table at once.
  \<^item> The other processes run while the agent sleeps: each sleep takes the next entry of \<open>moves\<close>,
    which says which processes end with which status and which new ones appear. Between two
    sleeps the table changes only by the agent's own calls.
  \<^item> \<open>SIGKILL\<close> ends a child with wait status 9. Its effect on a process that is not a child, and
    the effect of \<open>SIGTERM\<close>, show in \<open>moves\<close>. \<open>signals\<close> records what was delivered, with the
    \<open>stat\<close> text of the receiver.
  \<^item> A blocking \<open>waitpid\<close> returns when the child ends; if it has not ended yet the model lets it
    end with status 0 then.
  \<^item> \<open>pids\<close> gives the pid of each coming fork and the text of its \<open>/proc/<pid>/stat\<close>.
  \<^item> Failing calls come from the fault plan of the machine; the reason \<open>EINTR\<close> is that errno.
    \<open>kill\<close> fails only as documented: no such process, or no permission.
  \<^item> \<open>finished\<close> and \<open>adopted_ids\<close> are the members \<open>finished_\<close> and \<open>adopted_\<close> of
    \<open>PosixProcessSupervisor\<close>; its mutex guards them and has no other effect.
\<close>

section \<open>\<open>ProcessTypes.h\<close>\<close>

record process_handle =
  handle_id :: int
  start_token :: "64 word"

datatype process_state = Running | Exited | Signaled | Unknown

record process_status =
  pstate :: process_state
  exit_code :: "32 word option"
  term_signal :: "32 word option"

record start_options =
  executable_path :: string
  arguments :: "string list"
  working_directory :: string
  option_environment :: "(string \<times> string) list"

section \<open>The process table\<close>

record pcb =
  stat_text :: string
  is_child :: bool
  ended :: "32 word option"
  permitted :: bool
  argv :: "string list"
  envp :: "string list"
  workdir :: string

type_synonym proc_table = "(int \<times> pcb) list"

record proc_move =
  ends :: "(int \<times> 32 word) list"
  appears :: proc_table

datatype signal = SIGTERM | SIGKILL

datatype errno = EINTR | ESRCH | EPERM | ECHILD | Errno string

record os = machine +
  procs :: proc_table
  moves :: "proc_move list"
  pids :: "(int \<times> string) list"
  environ :: "string list"
  boot_id :: "string option"
  signals :: "(int \<times> signal \<times> string) list"
  finished :: "(int \<times> process_status) list"
  adopted_ids :: "int list"

definition errno_of :: "fault \<Rightarrow> errno" where
  "errno_of f = (if reason f = ''EINTR'' then EINTR else Errno (reason f))"

fun strerror :: "errno \<Rightarrow> string" where
  "strerror EINTR = ''Interrupted system call''"
| "strerror ESRCH = ''No such process''"
| "strerror EPERM = ''Operation not permitted''"
| "strerror ECHILD = ''No child processes''"
| "strerror (Errno s) = s"

text \<open>One entry of the table when the other processes run: it goes on, is a zombie, or is gone.\<close>

definition live_on :: "(int \<times> 32 word) list \<Rightarrow> int \<times> pcb \<Rightarrow> proc_table" where
  "live_on es e =
     (case map_of es (fst e) of
        None \<Rightarrow> [e]
      | Some s \<Rightarrow>
          if ended (snd e) \<noteq> None then [e]
          else if is_child (snd e) then [(fst e, (snd e)\<lparr>ended := Some s\<rparr>)]
          else [])"

definition evolve :: "proc_move \<Rightarrow> proc_table \<Rightarrow> proc_table" where
  "evolve m ps =
     fold (\<lambda>e ps'. if map_of ps' (fst e) = None \<and> \<not> is_child (snd e) then ps' @ [e] else ps')
       (appears m) (concat (map (live_on (ends m)) ps))"

definition os_sleep :: "int \<Rightarrow> 'a os_scheme \<Rightarrow> 'a os_scheme" where
  "os_sleep d w =
     (let w1 = elapse d w in
      case moves w1 of
        [] \<Rightarrow> w1
      | m # ms \<Rightarrow> w1\<lparr>procs := evolve m (procs w1), moves := ms\<rparr>)"

section \<open>System calls\<close>

text \<open>\<open>static_cast<pid_t> (id)\<close>: the low 32 bits, signed.\<close>

definition pid_of :: "int \<Rightarrow> int" where
  "pid_of i = sint (word_of_int i :: 32 word)"

text \<open>\<open>kill (pid, 0)\<close>: the errno, or \<open>None\<close> for success.\<close>

definition kill_probe :: "int \<Rightarrow> 'a os_scheme \<Rightarrow> errno option \<times> 'a os_scheme" where
  "kill_probe i w =
     (case map_of (procs w) (pid_of i) of
        None \<Rightarrow> (Some ESRCH, w)
      | Some p \<Rightarrow> (if permitted p then None else Some EPERM, w))"

text \<open>
  \<open>kill (-pid, sig)\<close>: the group the process leads, represented by its leader. Every process the
  supervisor starts leads a group of its own (\<open>setpgid\<close> in the child); that a pid leads no group, or
  that a group outlives its leader, is not represented.
\<close>

definition deliver :: "signal \<Rightarrow> pcb \<Rightarrow> pcb" where
  "deliver s p = (if s = SIGKILL \<and> is_child p \<and> ended p = None then p\<lparr>ended := Some 9\<rparr> else p)"

definition kill_group :: "int \<Rightarrow> signal \<Rightarrow> 'a os_scheme \<Rightarrow> errno option \<times> 'a os_scheme" where
  "kill_group i s w =
     (case map_of (procs w) (pid_of i) of
        None \<Rightarrow> (Some ESRCH, w)
      | Some p \<Rightarrow>
          if \<not> permitted p then (Some EPERM, w)
          else (None, w\<lparr>procs := AList.update (pid_of i) (deliver s p) (procs w),
                        signals := signals w @ [(pid_of i, s, stat_text p)]\<rparr>))"

text \<open>\<open>waitpid\<close>: an errno, 0 (nothing to report yet), or the status of the child, now reaped.\<close>

datatype wait_result = WaitFailed errno | NotYet | Reaped "32 word"

definition waitpid :: "int \<Rightarrow> bool \<Rightarrow> 'a os_scheme \<Rightarrow> wait_result \<times> 'a os_scheme" where
  "waitpid i nohang w =
     (case take_fault w of
        (Some f, w1) \<Rightarrow> (WaitFailed (errno_of f), w1)
      | (None, w1) \<Rightarrow>
          (case map_of (procs w1) (pid_of i) of
             None \<Rightarrow> (WaitFailed ECHILD, w1)
           | Some p \<Rightarrow>
               if \<not> is_child p then (WaitFailed ECHILD, w1)
               else (case ended p of
                       Some s \<Rightarrow> (Reaped s, w1\<lparr>procs := AList.delete (pid_of i) (procs w1)\<rparr>)
                     | None \<Rightarrow>
                         if nohang then (NotYet, w1)
                         else (Reaped 0, w1\<lparr>procs := AList.delete (pid_of i) (procs w1)\<rparr>))))"

text \<open>The text of \<open>/proc/<id>/stat\<close>, and of the boot id.\<close>

definition proc_stat :: "int \<Rightarrow> 'a os_scheme \<Rightarrow> string option \<times> 'a os_scheme" where
  "proc_stat i w =
     (case take_fault w of
        (Some f, w1) \<Rightarrow> (None, w1)
      | (None, w1) \<Rightarrow> (map_option stat_text (map_of (procs w1) i), w1))"

definition read_boot_id :: "'a os_scheme \<Rightarrow> string option \<times> 'a os_scheme" where
  "read_boot_id w =
     (case take_fault w of
        (Some f, w1) \<Rightarrow> (None, w1)
      | (None, w1) \<Rightarrow> (boot_id w1, w1))"

end
