(* ===== verification/Supervisor.thy ===== *)
theory Supervisor
  imports Processes
begin

text \<open>
  \<open>RolloutKit/Process/PosixProcessSupervisor.cpp\<close> and \<open>PosixProcessIdentity.cpp\<close> (the Linux
  branch): starting, adopting, asking and stopping processes. A process is identified by its pid
  and its start token, so that a pid the kernel has given to another process is not mistaken for
  the recorded one.

  Member functions are definitions over the \<open>os\<close> record. The polling loops of \<open>stop\<close> and
  \<open>settle\<close> run until a deadline of the steady clock; they are total functions because every round
  sleeps 20 ms.
\<close>

section \<open>\<open>PosixProcessIdentity.cpp\<close>\<close>

definition isspace :: "char \<Rightarrow> bool" where
  "isspace c \<longleftrightarrow> (let n = (of_char c :: nat) in n = 32 \<or> (9 \<le> n \<and> n \<le> 13))"

definition isdigit :: "char \<Rightarrow> bool" where
  "isdigit c \<longleftrightarrow> 48 \<le> (of_char c :: nat) \<and> (of_char c :: nat) \<le> 57"

definition digits_value :: "string \<Rightarrow> int" where
  "digits_value s = foldl (\<lambda>n c. 10 * n + (int (of_char c) - 48)) 0 s"

text \<open>
  \<open>std::stoull\<close>: leading blanks, an optional sign, the longest run of digits. \<open>Inl\<close> is what the
  exception says; a minus sign negates modulo $2^{64}$.
\<close>

definition stoull :: "string \<Rightarrow> 64 word expected" where
  "stoull s =
     (let t = dropWhile isspace s;
          neg = (take 1 t = ''-'');
          u = (if neg \<or> take 1 t = ''+'' then tl t else t);
          ds = takeWhile isdigit u
      in if ds = [] then Inl ''stoull''
         else if digits_value ds \<ge> 2 ^ 64 then Inl ''stoull''
         else Inr (if neg then - word_of_int (digits_value ds) else word_of_int (digits_value ds)))"

text \<open>\<open>stream >> field\<close>: the next run of non-blanks, and the rest.\<close>

definition next_field :: "string \<Rightarrow> (string \<times> string) option" where
  "next_field s =
     (let t = dropWhile isspace s
      in if t = [] then None
         else Some (takeWhile (\<lambda>c. \<not> isspace c) t, dropWhile (\<lambda>c. \<not> isspace c) t))"

fun nth_field :: "nat \<Rightarrow> string \<Rightarrow> string option" where
  "nth_field 0 s = None"
| "nth_field (Suc n) s =
     (case next_field s of
        None \<Rightarrow> None
      | Some (field, rest) \<Rightarrow> if n = 0 then Some field else nth_field n rest)"

definition kStatStartTimeField :: nat where "kStatStartTimeField = 22"

definition getline :: "string \<Rightarrow> string" where
  "getline s = takeWhile (\<lambda>c. c \<noteq> CHR 0x0A) s"

text \<open>\<open>line.substr (line.rfind (c) + 1)\<close>, \<open>None\<close> for \<open>npos\<close>.\<close>

definition after_last :: "char \<Rightarrow> string \<Rightarrow> string option" where
  "after_last c s = (if c \<in> set s then Some (rev (takeWhile (\<lambda>x. x \<noteq> c) (rev s))) else None)"

definition parse_start_token :: "int \<Rightarrow> string \<Rightarrow> 64 word expected" where
  "parse_start_token i line =
     (case after_last (CHR '')'') line of
        None \<Rightarrow> Inl (''cannot parse /proc/'' @ int_text i @ ''/stat'')
      | Some remainder \<Rightarrow>
          (case nth_field (kStatStartTimeField - 2) remainder of
             None \<Rightarrow> Inl (''cannot parse /proc/'' @ int_text i @ ''/stat'')
           | Some field \<Rightarrow>
               (case stoull field of
                  Inl e \<Rightarrow> Inl (''cannot parse the start time of process '' @ int_text i @ '': '' @ e)
                | Inr t \<Rightarrow> Inr t)))"

definition read_start_token :: "int \<Rightarrow> 'a os_scheme \<Rightarrow> 64 word expected \<times> 'a os_scheme" where
  "read_start_token i w =
     (if i \<le> 0 then (Inl ''invalid process id'', w)
      else (case proc_stat i w of
              (None, w1) \<Rightarrow> (Inl (''process '' @ int_text i @ '' does not exist''), w1)
            | (Some content, w1) \<Rightarrow> (parse_start_token i (getline content), w1)))"

definition boot_identity :: "'a os_scheme \<Rightarrow> string expected \<times> 'a os_scheme" where
  "boot_identity w =
     (case read_boot_id w of
        (None, w1) \<Rightarrow> (Inl ''cannot read /proc/sys/kernel/random/boot_id'', w1)
      | (Some content, w1) \<Rightarrow>
          (let identity = getline content
           in if identity = '''' then (Inl ''/proc/sys/kernel/random/boot_id is empty'', w1)
              else (Inr identity, w1)))"

section \<open>Starting\<close>

definition build_arguments :: "start_options \<Rightarrow> string list" where
  "build_arguments opts = executable_path opts # arguments opts"

definition variable_name :: "string \<Rightarrow> string" where
  "variable_name line = takeWhile (\<lambda>c. c \<noteq> CHR ''='') line"

definition build_environment :: "start_options \<Rightarrow> string list \<Rightarrow> string list" where
  "build_environment opts inherited =
     filter (\<lambda>line. \<not> list_ex (\<lambda>pair. fst pair = variable_name line) (option_environment opts)) inherited @
     map (\<lambda>(name, value). name @ ''='' @ value) (option_environment opts)"

definition kPollInterval :: int where "kPollInterval = 20"

text \<open>
  \<open>fork\<close>, then \<open>chdir\<close> and \<open>execve\<close> in the child: the errno of the fork, or the pid together
  with the errno the child reported through the pipe before it exited. A child that reported
  one has been waited for. A pid that is taken or below 2 is not one a kernel hands out.
\<close>

definition exec_error :: "start_options \<Rightarrow> 'a os_scheme \<Rightarrow> errno option \<times> 'a os_scheme" where
  "exec_error opts w =
     (case take_fault w of
        (Some f, w1) \<Rightarrow> (Some (errno_of f), w1)
      | (None, w1) \<Rightarrow>
          (let dir = (if working_directory opts = '''' then cwd w1 else at w1 (working_directory opts))
           in if lookup (files w1) dir \<noteq> Some Directory then (Some (Errno ''No such file or directory''), w1)
              else (case lookup (files w1) (locate dir (executable_path opts)) of
                      Some (File c m) \<Rightarrow>
                        (if m AND 73 = 0 then Some (Errno ''Permission denied'') else None, w1)
                    | Some Directory \<Rightarrow> (Some (Errno ''Permission denied''), w1)
                    | _ \<Rightarrow> (Some (Errno ''No such file or directory''), w1))))"

definition fork_exec ::
    "start_options \<Rightarrow> 'a os_scheme \<Rightarrow> (errno + (int \<times> errno option)) \<times> 'a os_scheme" where
  "fork_exec opts w =
     (case take_fault w of
        (Some f, w1) \<Rightarrow> (Inl (errno_of f), w1)
      | (None, w1) \<Rightarrow>
          (case pids w1 of
             [] \<Rightarrow> (Inl (Errno ''Resource temporarily unavailable''), w1)
           | (child, stat) # rest \<Rightarrow>
               if child \<le> 1 \<or> 2 ^ 31 \<le> child \<or> map_of (procs w1) child \<noteq> None then
                 (Inl (Errno ''Resource temporarily unavailable''), w1)
               else
                 (let w2 = w1\<lparr>pids := rest\<rparr> in
                  case exec_error opts w2 of
                    (Some e, w3) \<Rightarrow> (Inr (child, Some e), w3)
                  | (None, w3) \<Rightarrow>
                      (Inr (child, None),
                       w3\<lparr>procs := (child,
                         \<lparr>stat_text = stat, is_child = True, ended = None, permitted = True,
                          argv = build_arguments opts,
                          envp = build_environment opts (environ w3),
                          workdir = working_directory opts\<rparr>) # procs w3\<rparr>))))"

definition start :: "start_options \<Rightarrow> 'a os_scheme \<Rightarrow> process_handle expected \<times> 'a os_scheme" where
  "start opts w =
     (if executable_path opts = '''' then (Inl ''executable_path is required'', w)
      else (case take_fault w of
        (Some f, w1) \<Rightarrow> (Inl (''cannot create report pipe: '' @ strerror (errno_of f)), w1)
      | (None, w1) \<Rightarrow>
          (case take_fault w1 of
             (Some f, w2) \<Rightarrow> (Inl (''cannot set FD_CLOEXEC on report pipe: '' @ strerror (errno_of f)), w2)
           | (None, w2) \<Rightarrow>
               (case fork_exec opts w2 of
                  (Inl e, w3) \<Rightarrow> (Inl (''cannot fork: '' @ strerror e), w3)
                | (Inr (child, Some e), w3) \<Rightarrow>
                    (Inl (''cannot start '' @ quoted (executable_path opts) @ '': '' @ strerror e), w3)
                | (Inr (child, None), w3) \<Rightarrow>
                    (case read_start_token child w3 of
                       (token, w4) \<Rightarrow>
                         (Inr \<lparr>handle_id = child,
                               start_token = (case token of Inr t \<Rightarrow> t | Inl e \<Rightarrow> 0)\<rparr>,
                          w4\<lparr>finished := AList.delete child (finished w4),
                             adopted_ids := removeAll child (adopted_ids w4)\<rparr>))))))"

section \<open>Asking\<close>

text \<open>The wait macros of \<open>sys/wait.h\<close>.\<close>

definition to_status :: "32 word \<Rightarrow> process_status" where
  "to_status s =
     (if s AND 0x7F = 0 then
        \<lparr>pstate = Exited, exit_code = Some (drop_bit 8 (s AND 0xFF00)), term_signal = None\<rparr>
      else if s AND 0x7F \<noteq> 0x7F then
        \<lparr>pstate = Signaled, exit_code = None, term_signal = Some (s AND 0x7F)\<rparr>
      else \<lparr>pstate = Unknown, exit_code = None, term_signal = None\<rparr>)"

definition plain_status :: "process_state \<Rightarrow> process_status" where
  "plain_status s = \<lparr>pstate = s, exit_code = None, term_signal = None\<rparr>"

text \<open>\<open>finished_.insert\<close> keeps an entry that is there already.\<close>

definition insert_finished :: "int \<Rightarrow> process_status \<Rightarrow> (int \<times> process_status) list \<Rightarrow> (int \<times> process_status) list" where
  "insert_finished i s fs = (if map_of fs i = None then (i, s) # fs else fs)"

definition adopted :: "int \<Rightarrow> 'a os_scheme \<Rightarrow> bool" where
  "adopted i w \<longleftrightarrow> i \<in> set (adopted_ids w)"

text \<open>Remember that an adopted process has ended.\<close>

definition settle_adopted :: "int \<Rightarrow> process_status \<Rightarrow> 'a os_scheme \<Rightarrow> 'a os_scheme" where
  "settle_adopted i s w =
     w\<lparr>finished := insert_finished i s (finished w), adopted_ids := removeAll i (adopted_ids w)\<rparr>"

definition adopted_status ::
    "process_handle \<Rightarrow> 'a os_scheme \<Rightarrow> process_status expected \<times> 'a os_scheme" where
  "adopted_status h w =
     (let i = handle_id h;
          gone = (\<lambda>v. (Inr (plain_status Exited), settle_adopted i (plain_status Exited) v)) in
      case waitpid i True w of
        (Reaped s, w1) \<Rightarrow> (Inr (to_status s), settle_adopted i (to_status s) w1)
      | (NotYet, w1) \<Rightarrow> (Inr (plain_status Running), w1)
      | (WaitFailed e, w1) \<Rightarrow>
          if e \<noteq> ECHILD then (Inl (''cannot query process '' @ int_text i @ '': '' @ strerror e), w1)
          else
            (case kill_probe i w1 of
               (r, w2) \<Rightarrow>
                 if r = None \<or> r = Some EPERM then
                   (case read_start_token i w2 of
                      (Inr t, w3) \<Rightarrow>
                        if t = start_token h then (Inr (plain_status Running), w3) else gone w3
                    | (Inl e', w3) \<Rightarrow>
                        (case kill_probe i w3 of
                           (r', w4) \<Rightarrow>
                             if r' = None \<or> r' = Some EPERM then (Inl e', w4) else gone w4))
                 else if r \<noteq> Some ESRCH then
                   (Inl (''cannot query process '' @ int_text i @ '': '' @ strerror (the r)), w2)
                 else gone w2))"

definition status ::
    "process_handle \<Rightarrow> 'a os_scheme \<Rightarrow> process_status expected \<times> 'a os_scheme" where
  "status h w =
     (let i = handle_id h in
      if i \<le> 0 then (Inl ''invalid process handle'', w)
      else (case map_of (finished w) i of
              Some s \<Rightarrow> (Inr s, w)
            | None \<Rightarrow>
                if adopted i w then adopted_status h w
                else (case waitpid i True w of
                        (NotYet, w1) \<Rightarrow> (Inr (plain_status Running), w1)
                      | (WaitFailed e, w1) \<Rightarrow>
                          if e = ECHILD then (Inr (plain_status Unknown), w1)
                          else (Inl (''cannot query process '' @ int_text i @ '': '' @ strerror e), w1)
                      | (Reaped s, w1) \<Rightarrow>
                          (Inr (to_status s),
                           w1\<lparr>finished := insert_finished i (to_status s) (finished w1)\<rparr>))))"

section \<open>Adopting\<close>

definition adopt :: "process_handle \<Rightarrow> 'a os_scheme \<Rightarrow> process_handle expected \<times> 'a os_scheme" where
  "adopt h w =
     (let i = handle_id h in
      if i \<le> 1 then (Inl ''invalid process handle'', w)
      else if start_token h = 0 then
        (Inl (''process '' @ int_text i @ '' has no start token to verify''), w)
      else (case read_start_token i w of
        (Inl e, w1) \<Rightarrow> (Inl e, w1)
      | (Inr t, w1) \<Rightarrow>
          if t \<noteq> start_token h then
            (Inl (''process '' @ int_text i @ '' is not the recorded instance''), w1)
          else
            (case kill_probe i w1 of
               (r, w2) \<Rightarrow>
                 if r \<noteq> None \<and> r \<noteq> Some EPERM then
                   (Inl (''cannot signal process '' @ int_text i @ '': '' @ strerror (the r)), w2)
                 else
                   (Inr h, w2\<lparr>finished := AList.delete i (finished w2),
                              adopted_ids := List.insert i (adopted_ids w2)\<rparr>))))"

section \<open>Stopping\<close>

lemma take_fault_steady: "take_fault w = (f, w') \<Longrightarrow> steady w' = steady w"
  by (auto simp: take_fault_def split: list.splits)

lemma waitpid_steady: "waitpid i b w = (r, w') \<Longrightarrow> steady w' = steady w"
  by (auto simp: waitpid_def dest: take_fault_steady split: prod.splits option.splits if_splits)

lemma kill_probe_steady: "kill_probe i w = (r, w') \<Longrightarrow> steady w' = steady w"
  by (auto simp: kill_probe_def split: option.splits)

lemma read_start_token_steady: "read_start_token i w = (r, w') \<Longrightarrow> steady w' = steady w"
  by (auto simp: read_start_token_def proc_stat_def dest: take_fault_steady
      split: prod.splits option.splits if_splits)

lemma adopted_status_steady: "adopted_status h w = (r, w') \<Longrightarrow> steady w' = steady w"
  by (auto simp: adopted_status_def Let_def settle_adopted_def
      dest!: waitpid_steady kill_probe_steady read_start_token_steady
      split: prod.splits wait_result.splits sum.splits if_splits)

lemma status_steady: "status h w = (r, w') \<Longrightarrow> steady w' = steady w"
  by (auto simp: status_def Let_def dest!: waitpid_steady adopted_status_steady
      split: prod.splits wait_result.splits option.splits if_splits)

lemma os_sleep_steady: "0 \<le> d \<Longrightarrow> steady w + d \<le> steady (os_sleep d w)"
  by (auto simp: os_sleep_def elapse_def Let_def split: list.splits)

text \<open>
  The two polling loops: \<open>Some\<close> what they return from the function with, \<open>None\<close> when the
  deadline passes with the process still running.
\<close>

function stop_poll ::
    "process_handle \<Rightarrow> int \<Rightarrow> 'a os_scheme \<Rightarrow> unit expected option \<times> 'a os_scheme" where
  "stop_poll h deadline w =
     (if steady w < deadline then
        (case status h w of
           (Inl e, w1) \<Rightarrow> (Some (Inl e), w1)
         | (Inr s, w1) \<Rightarrow>
             if pstate s \<noteq> Running then (Some (Inr ()), w1)
             else stop_poll h deadline (os_sleep kPollInterval w1))
      else (None, w))"
  by pat_completeness auto
termination
proof (relation "measure (\<lambda>(h, d, w). nat (d - steady w))", goal_cases)
  case 1
  then show ?case by simp
next
  case (2 h d w r w1 s)
  have "steady w1 = steady w" using 2(2,3) status_steady by metis
  then show ?case using 2(1) os_sleep_steady [of kPollInterval w1] by (simp add: kPollInterval_def)
qed

declare stop_poll.simps [simp del]

function settle_poll ::
    "process_handle \<Rightarrow> int \<Rightarrow> 'a os_scheme \<Rightarrow> unit expected option \<times> 'a os_scheme" where
  "settle_poll h deadline w =
     (if steady w < deadline then
        (case adopted_status h w of
           (Inl e, w1) \<Rightarrow> (Some (Inl e), w1)
         | (Inr s, w1) \<Rightarrow>
             if pstate s \<noteq> Running then (Some (Inr ()), w1)
             else settle_poll h deadline (os_sleep kPollInterval w1))
      else (None, w))"
  by pat_completeness auto
termination
proof (relation "measure (\<lambda>(h, d, w). nat (d - steady w))", goal_cases)
  case 1
  then show ?case by simp
next
  case (2 h d w r w1 s)
  have "steady w1 = steady w" using 2(2,3) adopted_status_steady by metis
  then show ?case using 2(1) os_sleep_steady [of kPollInterval w1] by (simp add: kPollInterval_def)
qed

declare settle_poll.simps [simp del]

definition settle :: "process_handle \<Rightarrow> int \<Rightarrow> 'a os_scheme \<Rightarrow> unit expected \<times> 'a os_scheme" where
  "settle h timeout w =
     (case settle_poll h (steady w + 1000 * timeout) w of
        (Some r, w1) \<Rightarrow> (r, w1)
      | (None, w1) \<Rightarrow>
          (Inl (''process '' @ int_text (handle_id h) @ '' is still alive after SIGKILL''), w1))"

text \<open>\<open>waitpid\<close> repeated while it is interrupted; each interruption uses up an entry of the plan.\<close>

function wait_blocking :: "int \<Rightarrow> 'a os_scheme \<Rightarrow> wait_result \<times> 'a os_scheme" where
  "wait_blocking i w =
     (case waitpid i False w of
        (r, w1) \<Rightarrow> if r = WaitFailed EINTR \<and> faults w \<noteq> [] then wait_blocking i w1 else (r, w1))"
  by pat_completeness auto
termination
  by (relation "measure (\<lambda>(i, w). length (faults w))")
    (auto simp: waitpid_def take_fault_def split: list.splits option.splits if_splits)

declare wait_blocking.simps [simp del]

definition reap :: "int \<Rightarrow> 'a os_scheme \<Rightarrow> process_status expected \<times> 'a os_scheme" where
  "reap i w =
     (case wait_blocking i w of
        (WaitFailed e, w1) \<Rightarrow>
          if e = ECHILD then (Inr (plain_status Unknown), w1)
          else (Inl (''cannot wait for process '' @ int_text i @ '': '' @ strerror e), w1)
      | (NotYet, w1) \<Rightarrow> (Inr (to_status 0), w1)
      | (Reaped s, w1) \<Rightarrow>
          (Inr (to_status s), w1\<lparr>finished := insert_finished i (to_status s) (finished w1)\<rparr>))"

definition stop :: "process_handle \<Rightarrow> int \<Rightarrow> 'a os_scheme \<Rightarrow> unit expected \<times> 'a os_scheme" where
  "stop h timeout w =
     (let i = handle_id h in
      if i \<le> 0 then (Inl ''invalid process handle'', w)
      else
        let is_adopted = adopted i w in
        (case status h w of
           (Inl e, w1) \<Rightarrow> (Inl e, w1)
         | (Inr s, w1) \<Rightarrow>
             if pstate s \<noteq> Running then (Inr (), w1)
             else
               (case kill_group i SIGTERM w1 of
                  (r, w2) \<Rightarrow>
                    if r \<noteq> None \<and> r \<noteq> Some ESRCH then
                      (Inl (''cannot send SIGTERM to '' @ int_text i @ '': '' @ strerror (the r)), w2)
                    else
                      (case stop_poll h (steady w2 + 1000 * timeout) w2 of
                         (Some res, w3) \<Rightarrow> (res, w3)
                       | (None, w3) \<Rightarrow>
                           (case kill_group i SIGKILL w3 of
                              (r', w4) \<Rightarrow>
                                if r' \<noteq> None \<and> r' \<noteq> Some ESRCH then
                                  (Inl (''cannot send SIGKILL to '' @ int_text i @ '': '' @ strerror (the r')), w4)
                                else if is_adopted then settle h timeout w4
                                else (case reap i w4 of
                                        (Inl e, w5) \<Rightarrow> (Inl e, w5)
                                      | (Inr s', w5) \<Rightarrow> (Inr (), w5)))))))"

section \<open>The virtual table\<close>

record 'w supervisor =
  sup_start :: "start_options \<Rightarrow> 'w \<Rightarrow> process_handle expected \<times> 'w"
  sup_adopt :: "process_handle \<Rightarrow> 'w \<Rightarrow> process_handle expected \<times> 'w"
  sup_stop :: "process_handle \<Rightarrow> int \<Rightarrow> 'w \<Rightarrow> unit expected \<times> 'w"
  sup_status :: "process_handle \<Rightarrow> 'w \<Rightarrow> process_status expected \<times> 'w"

definition posix_supervisor :: "'a os_scheme supervisor" where
  "posix_supervisor = \<lparr>sup_start = start, sup_adopt = adopt, sup_stop = stop, sup_status = status\<rparr>"

end
