(* ===== verification/SupervisorFacts.thy ===== *)
theory SupervisorFacts
  imports Supervisor
begin

text \<open>
  What the supervisor guarantees. \<open>present h w\<close> says that the process the handle stands for (its
  pid with its start token) is in the process table; \<open>tracked h w\<close> is the invariant of a handle
  that came from \<open>start\<close> or \<open>adopt\<close>. Asking is sound (a state other than \<open>Running\<close> means the
  process is gone), and \<open>stop\<close> succeeds only when it is gone.
\<close>

definition has_token :: "process_handle \<Rightarrow> pcb \<Rightarrow> bool" where
  "has_token h p \<longleftrightarrow> parse_start_token (handle_id h) (getline (stat_text p)) = Inr (start_token h)"

definition present :: "process_handle \<Rightarrow> 'a os_scheme \<Rightarrow> bool" where
  "present h w \<longleftrightarrow> (\<exists>p. map_of (procs w) (handle_id h) = Some p \<and> has_token h p)"

text \<open>
  The kernel never gives the same pid with the same start time to a second process: not to one
  that appears by itself, and not to a coming child.
\<close>

definition no_twin :: "process_handle \<Rightarrow> 'a os_scheme \<Rightarrow> bool" where
  "no_twin h w \<longleftrightarrow>
     (\<forall>m \<in> set (moves w). \<forall>e \<in> set (appears m). fst e = handle_id h \<longrightarrow> \<not> has_token h (snd e))"

definition no_return :: "process_handle \<Rightarrow> 'a os_scheme \<Rightarrow> bool" where
  "no_return h w \<longleftrightarrow> no_twin h w \<and>
     (\<forall>e \<in> set (pids w). fst e = handle_id h \<longrightarrow>
        parse_start_token (handle_id h) (getline (snd e)) \<noteq> Inr (start_token h))"

definition tracked :: "process_handle \<Rightarrow> 'a os_scheme \<Rightarrow> bool" where
  "tracked h w \<longleftrightarrow>
     0 < handle_id h \<and> handle_id h < 2 ^ 31 \<and> distinct (map fst (procs w)) \<and> no_return h w \<and>
     (map_of (finished w) (handle_id h) \<noteq> None \<longrightarrow> \<not> present h w) \<and>
     (\<forall>i s. map_of (finished w) i = Some s \<longrightarrow> pstate s \<noteq> Running) \<and>
     (adopted (handle_id h) w \<or>
      (\<forall>p. map_of (procs w) (handle_id h) = Some p \<and> has_token h p \<longrightarrow> is_child p))"

lemma pid_of_id: "0 < i \<Longrightarrow> i < 2 ^ 31 \<Longrightarrow> pid_of i = i"
  by (simp add: pid_of_def signed_of_int signed_take_bit_int_eq_self)

lemma to_status_not_running [simp]: "pstate (to_status s) \<noteq> Running"
  by (simp add: to_status_def)

lemma plain_status_state [simp]: "pstate (plain_status s) = s"
  by (simp add: plain_status_def)

section \<open>What the other processes do\<close>

lemma keys_live_on: "set (map fst (live_on es e)) \<subseteq> {fst e}"
  by (auto simp: live_on_def split: option.splits)

lemma keys_concat_live_on: "set (map fst (concat (map (live_on es) ps))) \<subseteq> set (map fst ps)"
proof
  fix i
  assume "i \<in> set (map fst (concat (map (live_on es) ps)))"
  then obtain e x where "e \<in> set ps" "x \<in> set (live_on es e)" "i = fst x" by auto
  moreover then have "fst x = fst e" using keys_live_on [of es e] by auto
  ultimately show "i \<in> set (map fst ps)" by simp
qed

lemma distinct_live_on:
  "distinct (map fst ps) \<Longrightarrow> distinct (map fst (concat (map (live_on es) ps)))"
proof (induction ps)
  case Nil
  then show ?case by simp
next
  case (Cons e ps)
  have d: "distinct (map fst (live_on es e))" by (auto simp: live_on_def split: option.splits)
  have "set (map fst (live_on es e)) \<inter> set (map fst (concat (map (live_on es) ps))) = {}"
  proof -
    have "fst e \<notin> set (map fst ps)" using Cons.prems by simp
    then show ?thesis using keys_live_on [of es e] keys_concat_live_on [of es ps] by blast
  qed
  with d Cons show ?case by simp
qed

lemma map_of_live_on:
  assumes "distinct (map fst ps)" "map_of (concat (map (live_on es) ps)) i = Some p"
  shows "\<exists>p'. map_of ps i = Some p' \<and> stat_text p = stat_text p' \<and> is_child p = is_child p'"
proof -
  have "(i, p) \<in> set (concat (map (live_on es) ps))" using assms(2) by (rule map_of_SomeD)
  then obtain e where "e \<in> set ps" "(i, p) \<in> set (live_on es e)" by auto
  then have "fst e = i \<and> stat_text p = stat_text (snd e) \<and> is_child p = is_child (snd e)"
    by (auto simp: live_on_def split: option.splits if_splits)
  then show ?thesis
    using \<open>e \<in> set ps\<close> map_of_is_SomeI [OF assms(1), of i "snd e"] by (cases e) auto
qed

lemma fold_appears:
  "distinct (map fst ps) \<Longrightarrow>
     (let ps' = fold (\<lambda>e ps'. if map_of ps' (fst e) = None \<and> \<not> is_child (snd e) then ps' @ [e] else ps') es ps
      in distinct (map fst ps') \<and>
         (\<forall>i p. map_of ps' i = Some p \<longrightarrow> map_of ps i = Some p \<or> (i, p) \<in> set es \<and> \<not> is_child p))"
proof (induction es arbitrary: ps)
  case Nil
  then show ?case by simp
next
  case (Cons e es)
  let ?ps = "if map_of ps (fst e) = None \<and> \<not> is_child (snd e) then ps @ [e] else ps"
  have "distinct (map fst ?ps)"
    using Cons.prems by (auto simp: map_of_eq_None_iff)
  moreover have "map_of ?ps i = Some p \<Longrightarrow> map_of ps i = Some p \<or> (i, p) = e \<and> \<not> is_child p" for i p
    by (auto simp: map_add_def split: if_splits option.splits)
  ultimately show ?case using Cons.IH [of ?ps] by (fastforce simp: Let_def)
qed

lemma evolve_entries:
  assumes "distinct (map fst ps)"
  shows "distinct (map fst (evolve m ps))"
    and "map_of (evolve m ps) i = Some p \<Longrightarrow>
      (\<exists>p'. map_of ps i = Some p' \<and> stat_text p = stat_text p' \<and> is_child p = is_child p') \<or>
      (i, p) \<in> set (appears m) \<and> \<not> is_child p"
proof -
  let ?ps = "concat (map (live_on (ends m)) ps)"
  have d: "distinct (map fst ?ps)" by (rule distinct_live_on [OF assms])
  note f = fold_appears [OF d, of "appears m", unfolded Let_def, folded evolve_def]
  show "distinct (map fst (evolve m ps))" using f by blast
  show "(\<exists>p'. map_of ps i = Some p' \<and> stat_text p = stat_text p' \<and> is_child p = is_child p') \<or>
      (i, p) \<in> set (appears m) \<and> \<not> is_child p" if "map_of (evolve m ps) i = Some p"
    using f that map_of_live_on [OF assms, of "ends m" i p] by blast
qed

lemma has_token_stat: "stat_text p = stat_text q \<Longrightarrow> has_token h p = has_token h q"
  by (simp add: has_token_def)

lemma os_sleep_fields:
  "finished (os_sleep d w) = finished w" "adopted_ids (os_sleep d w) = adopted_ids w"
  "signals (os_sleep d w) = signals w" "set (moves (os_sleep d w)) \<subseteq> set (moves w)"
  "pids (os_sleep d w) = pids w" "files (os_sleep d w) = files w" "cwd (os_sleep d w) = cwd w" "faults (os_sleep d w) = faults w"
  by (auto simp: os_sleep_def elapse_def Let_def split: list.splits)

lemma os_sleep_procs:
  "procs (os_sleep d w) = procs w \<or> (\<exists>m \<in> set (moves w). procs (os_sleep d w) = evolve m (procs w))"
  by (auto simp: os_sleep_def elapse_def Let_def split: list.splits)

lemma os_sleep_entry:
  assumes "distinct (map fst (procs w))" "no_return h w"
    and "map_of (procs (os_sleep d w)) (handle_id h) = Some p" "has_token h p"
  shows "\<exists>p'. map_of (procs w) (handle_id h) = Some p' \<and> has_token h p' \<and> is_child p = is_child p'"
  using os_sleep_procs [of d w]
proof
  assume "procs (os_sleep d w) = procs w"
  then show ?thesis using assms by auto
next
  assume "\<exists>m \<in> set (moves w). procs (os_sleep d w) = evolve m (procs w)"
  then obtain m where m: "m \<in> set (moves w)" "procs (os_sleep d w) = evolve m (procs w)" by blast
  have "(handle_id h, p) \<notin> set (appears m)"
    using assms(2,4) m(1) unfolding no_return_def no_twin_def by fastforce
  then show ?thesis
    using evolve_entries(2) [OF assms(1), of m "handle_id h" p] assms(3,4) m(2) has_token_stat by metis
qed

lemma tracked_sleep:
  assumes "tracked h w"
  shows "tracked h (os_sleep d w)" "present h (os_sleep d w) \<Longrightarrow> present h w"
proof -
  note t = assms [unfolded tracked_def]
  have d: "distinct (map fst (procs w))" and n: "no_return h w" using t by blast+
  note e = os_sleep_entry [OF d n, of d]
  have "distinct (map fst (procs (os_sleep d w)))"
    using os_sleep_procs [of d w] evolve_entries(1) [OF d] d by auto
  moreover have "no_return h (os_sleep d w)"
    using n os_sleep_fields(4) [of d w] unfolding no_return_def no_twin_def os_sleep_fields by blast
  moreover show p: "present h (os_sleep d w) \<Longrightarrow> present h w"
    using e unfolding present_def by blast
  ultimately show "tracked h (os_sleep d w)"
    using t e p unfolding tracked_def os_sleep_fields adopted_def by blast
qed

section \<open>What asking changes\<close>

definition same_os :: "'a os_scheme \<Rightarrow> 'a os_scheme \<Rightarrow> bool" where
  "same_os w w' \<longleftrightarrow>
     procs w' = procs w \<and> moves w' = moves w \<and> pids w' = pids w \<and> finished w' = finished w \<and>
     adopted_ids w' = adopted_ids w \<and> signals w' = signals w"

lemma same_os_refl [simp]: "same_os w w"
  by (simp add: same_os_def)

lemma same_os_trans: "same_os w w1 \<Longrightarrow> same_os w1 w2 \<Longrightarrow> same_os w w2"
  by (simp add: same_os_def)

lemma same_os_tracked: "same_os w w' \<Longrightarrow> tracked h w' = tracked h w"
  by (simp add: same_os_def tracked_def present_def no_return_def no_twin_def adopted_def)

lemma same_os_present: "same_os w w' \<Longrightarrow> present h w' = present h w"
  by (simp add: same_os_def present_def)

lemma take_fault_same: "take_fault w = (f, w') \<Longrightarrow> same_os w w'"
  by (auto simp: take_fault_def same_os_def split: list.splits)

lemma kill_probe_same:
  assumes "kill_probe i w = (r, w')"
  shows "same_os w w'"
  using assms by (auto simp: kill_probe_def split: option.splits)

lemma kill_probe_absent:
  assumes "kill_probe i w = (Some ESRCH, w')" "0 < i" "i < 2 ^ 31"
  shows "map_of (procs w) i = None"
  using assms by (auto simp: kill_probe_def pid_of_id split: option.splits if_splits)

lemma read_start_token_same:
  assumes "read_start_token i w = (r, w')"
  shows "same_os w w'"
  using assms
  by (auto simp: read_start_token_def proc_stat_def dest: take_fault_same
      split: prod.splits option.splits if_splits)

lemma read_start_token_entry:
  assumes "read_start_token i w = (Inr t, w')"
  shows "\<exists>p. map_of (procs w) i = Some p \<and> parse_start_token i (getline (stat_text p)) = Inr t"
  using assms
  by (auto simp: read_start_token_def proc_stat_def same_os_def dest!: take_fault_same
      split: prod.splits option.splits if_splits)

lemma waitpid_failed:
  assumes "waitpid i b w = (WaitFailed e, w')"
  shows "same_os w w'"
    and "e = ECHILD \<Longrightarrow> 0 < i \<Longrightarrow> i < 2 ^ 31 \<Longrightarrow>
      (\<forall>p. map_of (procs w) i = Some p \<longrightarrow> \<not> is_child p)"
  using assms
  by (auto simp: waitpid_def errno_of_def pid_of_id same_os_def dest!: take_fault_same
      split: prod.splits option.splits if_splits)

lemma waitpid_not_yet:
  assumes "waitpid i b w = (NotYet, w')" "0 < i" "i < 2 ^ 31"
  shows "same_os w w'" "\<exists>p. map_of (procs w) i = Some p \<and> is_child p \<and> ended p = None"
  using assms
  by (auto simp: waitpid_def pid_of_id same_os_def dest!: take_fault_same
      split: prod.splits option.splits if_splits)

lemma waitpid_not_yet_same: "waitpid i b w = (NotYet, w') \<Longrightarrow> same_os w w'"
  by (auto simp: waitpid_def dest!: take_fault_same split: prod.splits option.splits if_splits)

lemma waitpid_reaped:
  assumes "waitpid i b w = (Reaped s, w')" "0 < i" "i < 2 ^ 31"
  shows "procs w' = AList.delete i (procs w)" "moves w' = moves w" "pids w' = pids w"
    "finished w' = finished w" "adopted_ids w' = adopted_ids w" "signals w' = signals w"
  using assms
  by (auto simp: waitpid_def pid_of_id same_os_def dest!: take_fault_same
      split: prod.splits option.splits if_splits)

text \<open>The three ways an answer can leave the books.\<close>

lemma tracked_reaped:
  assumes "tracked h w"
    and "procs w' = AList.delete (handle_id h) (procs w)" "moves w' = moves w" "pids w' = pids w"
    and "\<And>i s. map_of (finished w') i = Some s \<Longrightarrow> pstate s \<noteq> Running"
  shows "tracked h w'" "\<not> present h w'"
proof -
  show n: "\<not> present h w'" using assms(2) by (simp add: present_def delete_conv)
  have none: "map_of (procs w') (handle_id h) = None" using assms(2) by (simp add: delete_conv)
  show "tracked h w'"
    using assms(1,5) n none
    unfolding tracked_def no_return_def no_twin_def assms(2,3,4) by (auto simp: distinct_delete)
qed

lemma tracked_gone:
  assumes "tracked h w" "\<not> present h w"
    and "procs w' = procs w" "moves w' = moves w" "pids w' = pids w"
    and "\<And>i s. map_of (finished w') i = Some s \<Longrightarrow> pstate s \<noteq> Running"
  shows "tracked h w'" "\<not> present h w'"
  using assms unfolding tracked_def no_return_def no_twin_def present_def by auto

lemma insert_finished_not_running:
  assumes "\<And>i s. map_of fs i = Some s \<Longrightarrow> pstate s \<noteq> Running" "pstate s \<noteq> Running"
  shows "map_of (insert_finished j s fs) i = Some s' \<Longrightarrow> pstate s' \<noteq> Running"
  using assms by (auto simp: insert_finished_def split: if_splits)

lemma settled_gone:
  assumes "tracked h w" "\<not> present h w" "pstate s \<noteq> Running"
  shows "tracked h (settle_adopted (handle_id h) s w)"
    and "\<not> present h (settle_adopted (handle_id h) s w)"
proof -
  have "map_of (finished w) i = Some s \<Longrightarrow> pstate s \<noteq> Running" for i s
    using assms(1) by (auto simp: tracked_def)
  note f = insert_finished_not_running [OF this assms(3)]
  show "tracked h (settle_adopted (handle_id h) s w)" "\<not> present h (settle_adopted (handle_id h) s w)"
    using tracked_gone [OF assms(1,2), of "settle_adopted (handle_id h) s w"] f
    by (simp_all add: settle_adopted_def)
qed

text \<open>\<open>answers h w s w'\<close>: asking gave \<open>s\<close> and left the invariant in place.\<close>

definition answers :: "process_handle \<Rightarrow> 'a os_scheme \<Rightarrow> process_status \<Rightarrow> 'a os_scheme \<Rightarrow> bool" where
  "answers h w s w' \<longleftrightarrow>
     tracked h w' \<and> signals w' = signals w \<and> (present h w' \<longrightarrow> present h w) \<and>
     set (adopted_ids w') \<subseteq> set (adopted_ids w) \<and>
     (pstate s \<noteq> Running \<longrightarrow> \<not> present h w')"

lemma same_os_answers: "same_os w v \<Longrightarrow> tracked h w \<Longrightarrow> answers h w (plain_status Running) v"
  using same_os_tracked [of w v h] same_os_present [of w v h] by (simp add: answers_def same_os_def)

lemma adopted_status_answers:
  assumes "adopted_status h w = (Inr s, w')" "tracked h w" "adopted (handle_id h) w"
  shows "answers h w s w'"
proof -
  let ?i = "handle_id h"
  have i: "0 < ?i" "?i < 2 ^ 31" and
    nr: "\<And>i s. map_of (finished w) i = Some s \<Longrightarrow> pstate s \<noteq> Running"
    using assms(2) by (auto simp: tracked_def)
  obtain r w1 where wp: "waitpid ?i True w = (r, w1)" by fastforce
  show ?thesis
  proof (cases r)
    case (Reaped c)
    note wr = waitpid_reaped [OF wp [unfolded Reaped] i]
    have s: "s = to_status c" "w' = settle_adopted ?i (to_status c) w1"
      using assms(1) wp Reaped by (auto simp: adopted_status_def)
    have f: "map_of (finished w') i = Some s \<Longrightarrow> pstate s \<noteq> Running" for i s
      using insert_finished_not_running [OF nr to_status_not_running] s wr
      by (simp add: settle_adopted_def)
    have "procs w' = AList.delete ?i (procs w)" "moves w' = moves w" "pids w' = pids w" "signals w' = signals w"
      "set (adopted_ids w') \<subseteq> set (adopted_ids w)"
      using s wr by (auto simp: settle_adopted_def)
    with tracked_reaped [OF assms(2) this(1-3) f] show ?thesis by (simp add: answers_def)
  next
    case NotYet
    then have "w' = w1" "s = plain_status Running" using assms(1) wp by (auto simp: adopted_status_def)
    then show ?thesis using same_os_answers [OF waitpid_not_yet(1) [OF wp [unfolded NotYet] i] assms(2)] by simp
  next
    case (WaitFailed e)
    note s1 = waitpid_failed(1) [OF wp [unfolded WaitFailed]]
    have e: "e = ECHILD" using assms(1) wp WaitFailed by (auto simp: adopted_status_def Let_def split: if_splits)
    obtain k w2 where kp: "kill_probe ?i w1 = (k, w2)" by fastforce
    note s2 = same_os_trans [OF s1 kill_probe_same [OF kp]]
    obtain t w3 where tk: "read_start_token ?i w2 = (t, w3)" by fastforce
    note s3 = same_os_trans [OF s2 read_start_token_same [OF tk]]
    obtain k' w4 where kp': "kill_probe ?i w3 = (k', w4)" by fastforce
    note s4 = same_os_trans [OF s3 kill_probe_same [OF kp']]
    have gone: "answers h w (plain_status Exited) (settle_adopted ?i (plain_status Exited) v)"
      if "same_os w v" "\<not> present h w" for v
      using settled_gone [of h v "plain_status Exited"] same_os_tracked [OF that(1)] same_os_present [OF that(1)]
        that assms(2) by (auto simp: answers_def settle_adopted_def same_os_def)
    have stay: "answers h w (plain_status Running) v" if "same_os w v" for v
      by (rule same_os_answers [OF that assms(2)])
    have absent1: "\<not> present h w" if "k = Some ESRCH"
      using kill_probe_absent [OF kp [unfolded that] i] s1 by (simp add: present_def same_os_def)
    have other: "\<not> present h w" if "t = Inr x" "x \<noteq> start_token h" for x
      using read_start_token_entry [OF tk [unfolded that(1)]] that(2) s2
      by (auto simp: present_def same_os_def has_token_def)
    have absent2: "\<not> present h w" if "k' \<noteq> None" "k' \<noteq> Some EPERM"
    proof -
      have "k' = Some ESRCH" using kp' that by (auto simp: kill_probe_def split: option.splits if_splits)
      then show ?thesis
        using kill_probe_absent [of ?i w3 w4] kp' i s3 by (simp add: present_def same_os_def)
    qed
    show ?thesis
      using assms(1) wp WaitFailed e kp tk kp' gone [OF s2] gone [OF s3] gone [OF s4] stay [OF s3]
        absent1 other absent2
      by (auto simp: adopted_status_def Let_def split: if_splits sum.splits)
  qed
qed

lemma status_answers:
  assumes "status h w = (Inr s, w')" "tracked h w"
  shows "answers h w s w'"
proof -
  let ?i = "handle_id h"
  have i: "0 < ?i" "?i < 2 ^ 31" and
    nr: "\<And>i s. map_of (finished w) i = Some s \<Longrightarrow> pstate s \<noteq> Running"
    using assms(2) by (auto simp: tracked_def)
  consider (known) c where "map_of (finished w) ?i = Some c"
    | (adopted) "map_of (finished w) ?i = None" "adopted ?i w"
    | (child) "map_of (finished w) ?i = None" "\<not> adopted ?i w"
    by (cases "map_of (finished w) ?i") auto
  then show ?thesis
  proof cases
    case known
    then have "s = c" "w' = w" using assms(1) i by (auto simp: status_def)
    then show ?thesis using known assms(2) by (auto simp: answers_def tracked_def)
  next
    case adopted
    then show ?thesis using assms i adopted_status_answers by (simp add: status_def)
  next
    case child
    obtain r w1 where wp: "waitpid ?i True w = (r, w1)" by fastforce
    show ?thesis
    proof (cases r)
      case (Reaped c)
      note wr = waitpid_reaped [OF wp [unfolded Reaped] i]
      have s: "s = to_status c" "w' = w1\<lparr>finished := insert_finished ?i (to_status c) (finished w1)\<rparr>"
        using assms(1) wp Reaped child i by (auto simp: status_def)
      have f: "map_of (finished w') i = Some s \<Longrightarrow> pstate s \<noteq> Running" for i s
        using insert_finished_not_running [OF nr to_status_not_running] s wr by simp
      have "procs w' = AList.delete ?i (procs w)" "moves w' = moves w" "pids w' = pids w" "signals w' = signals w"
        "set (adopted_ids w') \<subseteq> set (adopted_ids w)"
        using s wr by simp_all
      with tracked_reaped [OF assms(2) this(1-3) f] show ?thesis by (simp add: answers_def)
    next
      case NotYet
      then have "w' = w1" "s = plain_status Running"
        using assms(1) wp child i by (auto simp: status_def)
      then show ?thesis
        using same_os_answers [OF waitpid_not_yet(1) [OF wp [unfolded NotYet] i] assms(2)] by simp
    next
      case (WaitFailed e)
      note s1 = waitpid_failed(1) [OF wp [unfolded WaitFailed]]
      have e: "e = ECHILD" "s = plain_status Unknown" "w' = w1"
        using assms(1) wp WaitFailed child i by (auto simp: status_def split: if_splits)
      have "\<not> present h w"
        using waitpid_failed(2) [OF wp [unfolded WaitFailed] e(1) i] assms(2) child
        unfolding tracked_def present_def by blast
      then show ?thesis
        using same_os_tracked [OF s1] same_os_present [OF s1] s1 assms(2) e
        by (simp add: answers_def same_os_def)
    qed
  qed
qed

section \<open>Stopping\<close>

lemma adopted_status_failed: "adopted_status h w = (Inl e, w') \<Longrightarrow> same_os w w'"
  by (auto simp: adopted_status_def Let_def dest!: waitpid_failed(1) kill_probe_same read_start_token_same
      intro: same_os_trans split: prod.splits wait_result.splits sum.splits if_splits)

lemma status_failed: "status h w = (Inl e, w') \<Longrightarrow> same_os w w'"
  by (auto simp: status_def Let_def dest!: waitpid_failed(1) adopted_status_failed
      split: prod.splits wait_result.splits option.splits if_splits)

lemma adopted_status_running:
  "adopted_status h w = (Inr s, w') \<Longrightarrow> pstate s = Running \<Longrightarrow> same_os w w'"
  by (auto simp: adopted_status_def Let_def waitpid_not_yet_same
      dest!: waitpid_failed(1) kill_probe_same read_start_token_same
      intro: same_os_trans split: prod.splits wait_result.splits sum.splits if_splits)

lemma status_running:
  "status h w = (Inr s, w') \<Longrightarrow> pstate s = Running \<Longrightarrow> tracked h w \<Longrightarrow> same_os w w'"
  by (auto simp: status_def Let_def waitpid_not_yet_same tracked_def dest: adopted_status_running
      split: prod.splits wait_result.splits option.splits if_splits)

text \<open>\<open>keeps h w w'\<close>: the invariant holds on, and the process has not come back.\<close>

definition keeps :: "process_handle \<Rightarrow> 'a os_scheme \<Rightarrow> 'a os_scheme \<Rightarrow> bool" where
  "keeps h w w' \<longleftrightarrow>
     tracked h w' \<and> (present h w' \<longrightarrow> present h w) \<and> set (adopted_ids w') \<subseteq> set (adopted_ids w)"

lemma keeps_trans: "keeps h w w1 \<Longrightarrow> keeps h w1 w2 \<Longrightarrow> keeps h w w2"
  by (auto simp: keeps_def)

lemma keeps_same: "same_os w w' \<Longrightarrow> tracked h w \<Longrightarrow> keeps h w w'"
  using same_os_tracked [of w w' h] same_os_present [of w w' h] by (simp add: keeps_def same_os_def)

lemma keeps_answer: "answers h w s w' \<Longrightarrow> keeps h w w'"
  by (simp add: answers_def keeps_def)

lemma keeps_sleep: "tracked h w \<Longrightarrow> keeps h w (os_sleep d w)"
  using tracked_sleep [of h w d] os_sleep_fields(2) [of d w] by (simp add: keeps_def)

lemma stop_poll_keeps:
  "stop_poll h deadline w = (r, w') \<Longrightarrow> tracked h w \<Longrightarrow>
     keeps h w w' \<and> signals w' = signals w \<and> (r = Some (Inr ()) \<longrightarrow> \<not> present h w') \<and>
     (r = None \<longrightarrow> adopted_ids w' = adopted_ids w)"
proof (induction h deadline w arbitrary: r w' rule: stop_poll.induct)
  case (1 h deadline w)
  obtain x w1 where st: "status h w = (x, w1)" by fastforce
  show ?case
  proof (cases "steady w < deadline")
    case False
    then show ?thesis using 1(2,3) keeps_same [of w w h] by (simp add: stop_poll.simps [of h deadline w])
  next
    case True
    show ?thesis
    proof (cases x)
      case (Inl e)
      then have "same_os w w1" using st status_failed by simp
      then show ?thesis
        using 1(2,3) True st Inl keeps_same [of w w1 h]
        by (auto simp add: stop_poll.simps [of h deadline w] same_os_def)
    next
      case (Inr s)
      note a = status_answers [OF st [unfolded Inr] 1(3)]
      show ?thesis
      proof (cases "pstate s = Running")
        case False
        then show ?thesis
          using 1(2) True st Inr a keeps_answer [OF a]
          by (auto simp: stop_poll.simps [of h deadline w] answers_def)
      next
        case running: True
        let ?w2 = "os_sleep kPollInterval w1"
        have k: "keeps h w ?w2"
          using keeps_trans [OF keeps_answer [OF a] keeps_sleep] a by (simp add: answers_def)
        have "stop_poll h deadline ?w2 = (r, w')"
          using 1(2) True st Inr running by (simp add: stop_poll.simps [of h deadline w])
        moreover have "tracked h ?w2" using k by (simp add: keeps_def)
        ultimately have "keeps h ?w2 w' \<and> signals w' = signals ?w2 \<and>
            (r = Some (Inr ()) \<longrightarrow> \<not> present h w') \<and> (r = None \<longrightarrow> adopted_ids w' = adopted_ids ?w2)"
          using 1(1) True st Inr running by auto
        moreover have "adopted_ids w1 = adopted_ids w"
          using status_running [OF st [unfolded Inr] running 1(3)] by (simp add: same_os_def)
        ultimately show ?thesis using keeps_trans [OF k, of w'] a by (simp add: answers_def os_sleep_fields)
      qed
    qed
  qed
qed

lemma settle_poll_keeps:
  "settle_poll h deadline w = (r, w') \<Longrightarrow> tracked h w \<Longrightarrow> adopted (handle_id h) w \<Longrightarrow>
     keeps h w w' \<and> (r = Some (Inr ()) \<longrightarrow> \<not> present h w')"
proof (induction h deadline w arbitrary: r w' rule: settle_poll.induct)
  case (1 h deadline w)
  obtain x w1 where st: "adopted_status h w = (x, w1)" by fastforce
  show ?case
  proof (cases "steady w < deadline")
    case False
    then show ?thesis using 1(2,3) keeps_same [of w w h] by (simp add: settle_poll.simps [of h deadline w])
  next
    case True
    show ?thesis
    proof (cases x)
      case (Inl e)
      then have "same_os w w1" using st adopted_status_failed by simp
      then show ?thesis
        using 1(2,3) True st Inl keeps_same [of w w1 h]
        by (auto simp: settle_poll.simps [of h deadline w])
    next
      case (Inr s)
      note a = adopted_status_answers [OF st [unfolded Inr] 1(3,4)]
      show ?thesis
      proof (cases "pstate s = Running")
        case False
        then show ?thesis
          using 1(2) True st Inr a keeps_answer [OF a]
          by (simp add: settle_poll.simps [of h deadline w] answers_def)
      next
        case running: True
        let ?w2 = "os_sleep kPollInterval w1"
        have k: "keeps h w ?w2"
          using keeps_trans [OF keeps_answer [OF a] keeps_sleep] a by (simp add: answers_def)
        have "adopted_ids w1 = adopted_ids w"
          using adopted_status_running [OF st [unfolded Inr] running] by (simp add: same_os_def)
        then have "adopted (handle_id h) ?w2" using 1(4) by (simp add: adopted_def os_sleep_fields)
        moreover have "settle_poll h deadline ?w2 = (r, w')"
          using 1(2) True st Inr running by (simp add: settle_poll.simps [of h deadline w])
        moreover have "tracked h ?w2" using k by (simp add: keeps_def)
        ultimately have "keeps h ?w2 w' \<and> (r = Some (Inr ()) \<longrightarrow> \<not> present h w')"
          using 1(1) True st Inr running by auto
        then show ?thesis using keeps_trans [OF k, of w'] by simp
      qed
    qed
  qed
qed

lemma settle_keeps:
  assumes "settle h timeout w = (r, w')" "tracked h w" "adopted (handle_id h) w"
  shows "keeps h w w' \<and> (r = Inr () \<longrightarrow> \<not> present h w')"
proof -
  obtain x w1 where p: "settle_poll h (steady w + 1000 * timeout) w = (x, w1)" by fastforce
  show ?thesis
    using settle_poll_keeps [OF p assms(2,3)] assms(1) p by (cases x) (auto simp: settle_def)
qed

lemma kill_group_ids: "kill_group i s w = (r, w') \<Longrightarrow> adopted_ids w' = adopted_ids w"
  by (auto simp: kill_group_def split: option.splits if_splits)

lemma kill_group_keeps:
  assumes "kill_group (handle_id h) s w = (r, w')" "tracked h w"
  shows "keeps h w w'"
proof -
  have i: "pid_of (handle_id h) = handle_id h"
    using assms(2) pid_of_id by (simp add: tracked_def)
  have "w' = w \<or> (\<exists>p. map_of (procs w) (handle_id h) = Some p \<and>
      procs w' = AList.update (handle_id h) (deliver s p) (procs w) \<and> moves w' = moves w \<and> pids w' = pids w \<and>
      finished w' = finished w \<and> adopted_ids w' = adopted_ids w)"
    using assms(1) by (auto simp: kill_group_def i split: option.splits if_splits)
  then consider "w' = w" | p where "map_of (procs w) (handle_id h) = Some p"
      "procs w' = AList.update (handle_id h) (deliver s p) (procs w)" "moves w' = moves w" "pids w' = pids w"
      "finished w' = finished w" "adopted_ids w' = adopted_ids w"
    by blast
  then show ?thesis
  proof cases
    case 1
    then show ?thesis using assms(2) by (simp add: keeps_def)
  next
    case 2
    have t: "has_token h (deliver s p) = has_token h p" "is_child (deliver s p) = is_child p"
      by (simp_all add: deliver_def has_token_def)
    have "present h w' = present h w" using 2(1,2) t by (simp add: present_def update_conv)
    then show ?thesis
      using assms(2) 2 t
      by (auto simp: keeps_def tracked_def no_return_def no_twin_def adopted_def update_conv distinct_update)
  qed
qed

lemma wait_blocking_result:
  "wait_blocking i w = (r, w') \<Longrightarrow>
     r \<noteq> NotYet \<and> (\<exists>v. same_os w v \<and> waitpid i False v = (r, w'))"
proof (induction i w arbitrary: r w' rule: wait_blocking.induct)
  case (1 i w)
  obtain x w1 where wp: "waitpid i False w = (x, w1)" by fastforce
  show ?case
  proof (cases "x = WaitFailed EINTR \<and> faults w \<noteq> []")
    case True
    then have "same_os w w1" using waitpid_failed(1) wp by blast
    moreover have "wait_blocking i w1 = (r, w')"
      using 1(2) wp True by (simp add: wait_blocking.simps [of i w])
    ultimately show ?thesis using 1(1) [OF wp [symmetric] True] same_os_trans by blast
  next
    case False
    then have "(r, w') = (x, w1)" using 1(2) wp by (auto simp: wait_blocking.simps [of i w])
    moreover have "x \<noteq> NotYet"
      using wp by (auto simp: waitpid_def split: prod.splits option.splits if_splits)
    ultimately show ?thesis using wp same_os_refl [of w] by blast
  qed
qed

lemma reap_keeps:
  assumes "reap (handle_id h) w = (r, w')" "tracked h w" "\<not> adopted (handle_id h) w"
  shows "keeps h w w' \<and> (is_ok r \<longrightarrow> \<not> present h w')"
proof -
  let ?i = "handle_id h"
  have i: "0 < ?i" "?i < 2 ^ 31" and
    nr: "\<And>i s. map_of (finished w) i = Some s \<Longrightarrow> pstate s \<noteq> Running"
    using assms(2) by (auto simp: tracked_def)
  obtain x w1 where wb: "wait_blocking ?i w = (x, w1)" by fastforce
  obtain v where v: "x \<noteq> NotYet" "same_os w v" "waitpid ?i False v = (x, w1)"
    using wait_blocking_result [OF wb] by blast
  have tv: "tracked h v" "\<not> adopted ?i v"
    using assms(2,3) same_os_tracked [OF v(2)] v(2) by (simp_all add: same_os_def adopted_def)
  show ?thesis
  proof (cases x)
    case (WaitFailed e)
    note s = same_os_trans [OF v(2) waitpid_failed(1) [OF v(3) [unfolded WaitFailed]]]
    have "w' = w1" "is_ok r \<longrightarrow> e = ECHILD"
      using assms(1) wb WaitFailed by (auto simp: reap_def split: if_splits)
    moreover have "\<not> present h v" if "e = ECHILD"
      using waitpid_failed(2) [OF v(3) [unfolded WaitFailed] that i] tv
      unfolding tracked_def present_def by blast
    ultimately show ?thesis
      using keeps_same [OF s assms(2)] same_os_present [OF s] same_os_present [OF v(2)] by auto
  next
    case NotYet
    then show ?thesis using v(1) by simp
  next
    case (Reaped c)
    note wr = waitpid_reaped [OF v(3) [unfolded Reaped] i]
    have w': "w' = w1\<lparr>finished := insert_finished ?i (to_status c) (finished w1)\<rparr>"
      using assms(1) wb Reaped by (auto simp: reap_def)
    have f: "map_of (finished w') j = Some s \<Longrightarrow> pstate s \<noteq> Running" for j s
      using insert_finished_not_running [OF nr to_status_not_running] w' wr v(2) by (simp add: same_os_def)
    have "procs w' = AList.delete ?i (procs v)" "moves w' = moves v" "pids w' = pids v" using w' wr by simp_all
    note t = tracked_reaped [OF tv(1) this f]
    show ?thesis using t w' wr v(2) by (simp add: keeps_def same_os_def)
  qed
qed

lemma stop_keeps:
  assumes "stop h timeout w = (r, w')" "tracked h w"
  shows "keeps h w w' \<and> (r = Inr () \<longrightarrow> \<not> present h w')"
proof -
  let ?i = "handle_id h"
  have i: "0 < ?i" using assms(2) by (simp add: tracked_def)
  obtain x w1 where st: "status h w = (x, w1)" by fastforce
  show ?thesis
  proof (cases "\<exists>s. x = Inr s \<and> pstate s = Running")
    case False
    then have w': "w' = w1" "r = Inr () \<longleftrightarrow> is_ok x"
      using assms(1) st i by (cases x; auto simp: stop_def)+
    show ?thesis
    proof (cases x)
      case (Inl e)
      then show ?thesis using keeps_same [OF status_failed assms(2)] st w' by auto
    next
      case (Inr s)
      then show ?thesis
        using status_answers [OF st [unfolded Inr] assms(2)] keeps_answer False w'
        by (auto simp: answers_def)
    qed
  next
    case True
    then obtain s where s: "x = Inr s" "pstate s = Running" by blast
    have s1: "same_os w w1" using status_running [OF _ s(2) assms(2)] st s(1) by simp
    note k1 = keeps_same [OF s1 assms(2)]
    obtain e w2 where kt: "kill_group ?i SIGTERM w1 = (e, w2)" by fastforce
    have k2: "keeps h w w2" using keeps_trans [OF k1 kill_group_keeps [OF kt]] k1 by (simp add: keeps_def)
    obtain y w3 where sp: "stop_poll h (steady w2 + 1000 * timeout) w2 = (y, w3)" by fastforce
    note p = stop_poll_keeps [OF sp]
    have k3: "keeps h w w3" using keeps_trans [OF k2] p k2 by (simp add: keeps_def)
    obtain e' w4 where kk: "kill_group ?i SIGKILL w3 = (e', w4)" by fastforce
    have k4: "keeps h w w4" using keeps_trans [OF k3 kill_group_keeps [OF kk]] k3 by (simp add: keeps_def)
    have t4: "tracked h w4" using k4 by (simp add: keeps_def)
    have ids: "adopted ?i w4 = adopted ?i w" if "y = None"
      using that p k2 s1 kill_group_ids [OF kt] kill_group_ids [OF kk]
      by (simp add: keeps_def adopted_def same_os_def)
    obtain z w5 where se: "settle h timeout w4 = (z, w5)" by fastforce
    obtain v w6 where rp: "reap ?i w4 = (v, w6)" by fastforce
    have se': "keeps h w w5 \<and> (z = Inr () \<longrightarrow> \<not> present h w5)" if "y = None" "adopted ?i w"
      using settle_keeps [OF se t4] ids that keeps_trans [OF k4] by simp
    have rp': "keeps h w w6 \<and> (is_ok v \<longrightarrow> \<not> present h w6)" if "y = None" "\<not> adopted ?i w"
      using reap_keeps [OF rp t4] ids that keeps_trans [OF k4] by simp
    have p': "keeps h w w3 \<and> (y = Some (Inr ()) \<longrightarrow> \<not> present h w3)"
      using k3 p k2 by (simp add: keeps_def)
    note run = assms(1) [unfolded stop_def Let_def, symmetric]
    show ?thesis
    proof (cases "(e = None \<or> e = Some ESRCH) \<and> y = None \<and> (e' = None \<or> e' = Some ESRCH)")
      case True
      have "(r, w') = (if adopted ?i w then (z, w5) else (map_sum id (\<lambda>_. ()) v, w6))"
        using run i st s kt sp kk se rp True by (cases v) auto
      then show ?thesis using se' rp' True by (cases v) (auto split: if_splits)
    next
      case False
      have "w' = w2 \<and> isl r \<or> w' = w3 \<and> Some r = y \<or> w' = w4 \<and> isl r"
        using run i st s kt sp kk False by (cases y) (auto split: if_splits)
      then show ?thesis using k2 p' k4 by auto
    qed
  qed
qed

text \<open>
  C18: Stopping really stops. When \<open>stop\<close> reports success for a handle that came from \<open>start\<close> or
  \<open>adopt\<close>, the process the handle stands for is no longer in the process table: it is not
  running and, if it was a child, it has been waited for. This holds whether it ended before, on
  \<open>SIGTERM\<close> or on \<open>SIGKILL\<close>, whatever the other processes did meanwhile and whichever system
  calls failed.
\<close>

theorem stop_stops:
  assumes "stop h timeout w = (Inr (), w')" "tracked h w"
  shows "\<not> (\<exists>p. map_of (procs w') (handle_id h) = Some p \<and>
      parse_start_token (handle_id h) (getline (stat_text p)) = Inr (start_token h))"
  using stop_keeps [OF assms] by (simp add: present_def has_token_def)

section \<open>Adopting and starting\<close>

text \<open>What adopting and starting need of the books for the handle to be tracked afterwards.\<close>

definition ready :: "process_handle \<Rightarrow> 'a os_scheme \<Rightarrow> bool" where
  "ready h w \<longleftrightarrow>
     handle_id h < 2 ^ 31 \<and> distinct (map fst (procs w)) \<and> no_return h w \<and>
     (\<forall>i s. map_of (finished w) i = Some s \<longrightarrow> pstate s \<noteq> Running)"

definition startable :: "process_handle \<Rightarrow> 'a os_scheme \<Rightarrow> bool" where
  "startable h w \<longleftrightarrow>
     distinct (map fst (procs w)) \<and> no_twin h w \<and> distinct (map fst (pids w)) \<and>
     (\<forall>i s. map_of (finished w) i = Some s \<longrightarrow> pstate s \<noteq> Running)"

lemma adopt_result:
  assumes "adopt h w = (Inr h', w')"
  obtains p w2 where "h' = h" "1 < handle_id h" "start_token h \<noteq> 0" "same_os w w2"
    "map_of (procs w) (handle_id h) = Some p" "has_token h p"
    "w' = w2\<lparr>finished := AList.delete (handle_id h) (finished w2),
            adopted_ids := List.insert (handle_id h) (adopted_ids w2)\<rparr>"
proof -
  let ?i = "handle_id h"
  obtain t w1 where tk: "read_start_token ?i w = (t, w1)" by fastforce
  obtain k w2 where kp: "kill_probe ?i w1 = (k, w2)" by fastforce
  have run: "1 < ?i" "start_token h \<noteq> 0" "t = Inr (start_token h)" "h' = h"
    "w' = w2\<lparr>finished := AList.delete ?i (finished w2), adopted_ids := List.insert ?i (adopted_ids w2)\<rparr>"
    using assms tk kp by (auto simp: adopt_def Let_def split: if_splits sum.splits)
  obtain p where "map_of (procs w) ?i = Some p" "has_token h p"
    using read_start_token_entry [OF tk [unfolded run(3)]] by (auto simp: has_token_def)
  then show ?thesis
    using that run same_os_trans [OF read_start_token_same [OF tk] kill_probe_same [OF kp]] by blast
qed

text \<open>
  Adopting verifies the instance. \<open>adopt\<close> accepts a handle only when the process with its
  pid exists and carries exactly the recorded start token (which must not be 0), so after a
  reboot or a reuse of the pid a foreign process is never taken over. The handle is then tracked:
  an older answer remembered for the pid is forgotten, and it counts as adopted.
\<close>

theorem adopt_verifies:
  assumes "adopt h w = (Inr h', w')" "ready h w"
  shows "h' = h \<and> 1 < handle_id h \<and> start_token h \<noteq> 0 \<and> present h w' \<and>
    adopted (handle_id h) w' \<and> map_of (finished w') (handle_id h) = None \<and> tracked h w'"
  using assms(1)
proof (rule adopt_result)
  fix p w2
  assume h: "h' = h" "1 < handle_id h" "start_token h \<noteq> 0" and s: "same_os w w2"
    and p: "map_of (procs w) (handle_id h) = Some p" "has_token h p"
    and w': "w' = w2\<lparr>finished := AList.delete (handle_id h) (finished w2),
            adopted_ids := List.insert (handle_id h) (adopted_ids w2)\<rparr>"
  have "map_of (finished w') i = Some st \<Longrightarrow> pstate st \<noteq> Running" for i st
    using assms(2) s by (simp add: w' delete_conv ready_def same_os_def split: if_splits)
  then show ?thesis
    using assms(2) s h p
    by (auto simp: w' ready_def same_os_def present_def adopted_def tracked_def
        no_return_def no_twin_def delete_conv)
qed

lemma start_result:
  assumes "start opts w = (Inr h, w')"
  obtains w3 w4 stat t where
    "1 < handle_id h" "handle_id h < 2 ^ 31" "map_of (procs w) (handle_id h) = None"
    "procs w3 = (handle_id h,
       \<lparr>stat_text = stat, is_child = True, ended = None, permitted = True,
        argv = build_arguments opts, envp = build_environment opts (environ w),
        workdir = working_directory opts\<rparr>) # procs w"
    "moves w3 = moves w" "pids w = (handle_id h, stat) # pids w3" "finished w3 = finished w"
    "adopted_ids w3 = adopted_ids w"
    "read_start_token (handle_id h) w3 = (t, w4)"
    "start_token h = (case t of Inr t \<Rightarrow> t | Inl e \<Rightarrow> 0)"
    "w' = w4\<lparr>finished := AList.delete (handle_id h) (finished w4),
            adopted_ids := removeAll (handle_id h) (adopted_ids w4)\<rparr>"
proof -
  have tf: "take_fault u = (x, v) \<Longrightarrow> same_os u v \<and> environ v = environ u \<and> pids v = pids u"
    for u v :: "'a os_scheme" and x
    by (auto simp: take_fault_def same_os_def split: list.splits)
  have ee: "exec_error opts u = (x, v) \<Longrightarrow> same_os u v \<and> environ v = environ u" for u v :: "'a os_scheme" and x
    by (auto simp: exec_error_def Let_def dest: tf split: prod.splits option.splits node.splits if_splits)
  obtain w1 where t1: "take_fault w = (None, w1)" and r1: "executable_path opts \<noteq> ''''"
    using assms by (auto simp: start_def split: if_splits prod.splits option.splits)
  obtain w2 where t2: "take_fault w1 = (None, w2)"
    using assms t1 r1 by (auto simp: start_def split: prod.splits option.splits)
  obtain child w3 where f: "fork_exec opts w2 = (Inr (child, None), w3)"
    using assms t1 r1 t2
    by (cases "fork_exec opts w2") (auto simp: start_def split: sum.splits prod.splits option.splits)
  obtain t w4 where k: "read_start_token child w3 = (t, w4)" by fastforce
  have h: "handle_id h = child" "start_token h = (case t of Inr t \<Rightarrow> t | Inl e \<Rightarrow> 0)"
    "w' = w4\<lparr>finished := AList.delete child (finished w4), adopted_ids := removeAll child (adopted_ids w4)\<rparr>"
    using assms t1 r1 t2 f k by (auto simp: start_def)
  obtain v0 where v0: "take_fault w2 = (None, v0)" using f by (auto simp: fork_exec_def split: prod.splits option.splits)
  obtain stat rest where ps: "pids v0 = (child, stat) # rest" "\<not> (child \<le> 1 \<or> 2 ^ 31 \<le> child \<or> map_of (procs v0) child \<noteq> None)"
    using f v0 by (auto simp: fork_exec_def Let_def split: list.splits prod.splits if_splits option.splits)
  obtain v1 where e: "exec_error opts (v0\<lparr>pids := rest\<rparr>) = (None, v1)"
    using f v0 ps by (auto simp: fork_exec_def Let_def split: prod.splits option.splits)
  have w3: "w3 = v1\<lparr>procs := (child, \<lparr>stat_text = stat, is_child = True, ended = None, permitted = True,
        argv = build_arguments opts, envp = build_environment opts (environ v1),
        workdir = working_directory opts\<rparr>) # procs v1\<rparr>"
    using f v0 ps e by (simp add: fork_exec_def Let_def)
  show ?thesis
    by (rule that [of w3 stat t w4])
      (use h k w3 ps ee [OF e] tf [OF t1] tf [OF t2] tf [OF v0] in \<open>auto simp: same_os_def\<close>)
qed

text \<open>
  The environment of a started process is the agent's own with the configured variables on
  top: for every variable name, the entries of the new environment with that name are the
  configured ones if there are any, and otherwise exactly the inherited ones.
\<close>

theorem environment_overrides:
  assumes "list_all (\<lambda>(n, v). CHR ''='' \<notin> set n) (option_environment opts)"
  shows "filter (\<lambda>line. variable_name line = name) (build_environment opts inherited) =
    (if name \<in> fst ` set (option_environment opts)
     then map (\<lambda>(n, v). n @ ''='' @ v) (filter (\<lambda>(n, v). n = name) (option_environment opts))
     else filter (\<lambda>line. variable_name line = name) inherited)"
proof -
  let ?env = "option_environment opts"
  have nm: "variable_name (n @ CHR ''='' # v) = n" if "(n, v) \<in> set ?env" for n v
    using assms that takeWhile_sep [of "CHR ''=''" n v] by (auto simp: variable_name_def list_all_iff)
  have a: "filter (\<lambda>line. variable_name line = name) (map (\<lambda>(n, v). n @ ''='' @ v) ?env) =
      map (\<lambda>(n, v). n @ ''='' @ v) (filter (\<lambda>(n, v). n = name) ?env)"
    using nm by (auto simp: filter_map comp_def case_prod_beta intro!: arg_cong [of _ _ "map _"] filter_cong)
  have b: "list_ex (\<lambda>pair. fst pair = n) ?env \<longleftrightarrow> n \<in> fst ` set ?env" for n
    by (auto simp: list_ex_iff)
  have c: "filter (\<lambda>(n, v). n = name) ?env = []" if "name \<notin> fst ` set ?env"
    using that by (force simp: filter_empty_conv)
  show ?thesis
    using a c by (auto simp: build_environment_def b filter_filter conj_commute
        intro: filter_cong simp: filter_empty_conv)
qed

text \<open>
  C34: A started process begins with a clean record. After a successful \<open>start\<close> the process is a
  running child with the requested arguments and working directory. For every variable name its
  environment has the configured values if there are any, and otherwise exactly the inherited
  ones (names holding \<open>=\<close>, which name no variable, apart). No answer
  remembered for an earlier process with the same pid, and no adoption of one, survives, so the
  new process can never be reported as ended because of its predecessor; and the handle is
  tracked.
\<close>

theorem start_fresh:
  assumes "start opts w = (Inr h, w')" "startable h w"
  shows "(\<exists>p. map_of (procs w') (handle_id h) = Some p \<and> is_child p \<and> ended p = None \<and>
      argv p = executable_path opts # arguments opts \<and> workdir p = working_directory opts \<and>
      (list_all (\<lambda>(n, v). CHR ''='' \<notin> set n) (option_environment opts) \<longrightarrow>
        (\<forall>name. filter (\<lambda>line. variable_name line = name) (envp p) =
          (if name \<in> fst ` set (option_environment opts)
           then map (\<lambda>(n, v). n @ ''='' @ v) (filter (\<lambda>(n, v). n = name) (option_environment opts))
           else filter (\<lambda>line. variable_name line = name) (environ w))))) \<and>
    map_of (finished w') (handle_id h) = None \<and> \<not> adopted (handle_id h) w' \<and> tracked h w'"
  using assms(1)
proof (rule start_result)
  fix w3 w4 stat t
  assume s: "1 < handle_id h" "handle_id h < 2 ^ 31" "map_of (procs w) (handle_id h) = None"
    "procs w3 = (handle_id h,
       \<lparr>stat_text = stat, is_child = True, ended = None, permitted = True,
        argv = build_arguments opts, envp = build_environment opts (environ w),
        workdir = working_directory opts\<rparr>) # procs w"
    "moves w3 = moves w" "pids w = (handle_id h, stat) # pids w3" "finished w3 = finished w"
    "adopted_ids w3 = adopted_ids w"
    and t: "read_start_token (handle_id h) w3 = (t, w4)"
    and w': "w' = w4\<lparr>finished := AList.delete (handle_id h) (finished w4),
            adopted_ids := removeAll (handle_id h) (adopted_ids w4)\<rparr>"
  note same = read_start_token_same [OF t]
  have "map_of (finished w') i = Some st \<Longrightarrow> pstate st \<noteq> Running" for i st
    using assms(2) s same by (simp add: w' delete_conv startable_def same_os_def split: if_splits)
  moreover have "no_return h w'"
  proof -
    have "fst e \<noteq> handle_id h" if "e \<in> set (pids w3)" for e
    proof -
      have "handle_id h \<notin> fst ` set (pids w3)" using assms(2) s(6) by (simp add: startable_def)
      then show ?thesis using that by (metis image_eqI)
    qed
    then show ?thesis
      using assms(2) s(5) same by (auto simp: no_return_def no_twin_def startable_def w' same_os_def)
  qed
  moreover have "procs w' = procs w3" using same by (simp add: w' same_os_def)
  moreover have "distinct (map fst (procs w3))"
    using assms(2) s(3,4) by (simp add: startable_def map_of_eq_None_iff)
  ultimately show ?thesis
    using s(1,2,4) environment_overrides [of opts _ "environ w"]
    by (simp add: tracked_def build_arguments_def adopted_def w' delete_conv)
qed

section \<open>A reused pid\<close>

lemma waitpid_stranger:
  assumes "map_of (procs w) i = Some p" "\<not> is_child p" "0 < i" "i < 2 ^ 31"
    and "waitpid i b w = (r, w')"
  shows "\<exists>e. r = WaitFailed e"
  using assms by (auto simp: waitpid_def pid_of_id same_os_def dest!: take_fault_same
      split: prod.splits option.splits)

text \<open>
  C35: A reused pid is recognised. When the pid of an adopted handle now belongs to another
  process (one that is not a child of the agent and does not have the recorded start token),
  \<open>status\<close> never answers \<open>Running\<close>, and \<open>stop\<close> delivers no signal at all, whatever it returns.
\<close>

theorem stop_spares_reused_pid:
  assumes "tracked h w" "adopted (handle_id h) w"
    and "map_of (procs w) (handle_id h) = Some p" "\<not> is_child p"
    and "parse_start_token (handle_id h) (getline (stat_text p)) \<noteq> Inr (start_token h)"
    and "status h w = (s, w1)" "stop h timeout w = (r, w')"
  shows "signals w' = signals w \<and> (\<forall>st. s = Inr st \<longrightarrow> pstate st \<noteq> Running)"
proof -
  let ?i = "handle_id h"
  have i: "0 < ?i" "?i < 2 ^ 31" using assms(1) by (auto simp: tracked_def)
  have absent: "\<not> present h w" using assms(3,5) by (simp add: present_def has_token_def)
  obtain e v1 where wp: "waitpid ?i True w = (WaitFailed e, v1)"
    using waitpid_stranger [OF assms(3,4) i] by (cases "waitpid ?i True w") blast
  note s1 = waitpid_failed(1) [OF wp]
  obtain t v2 where tk: "read_start_token ?i v1 = (t, v2)" by fastforce
  have "t \<noteq> Inr (start_token h)"
    using read_start_token_entry [of ?i v1 "start_token h" v2] tk s1 assms(3,5) by (auto simp: same_os_def)
  moreover have kp: "kill_probe ?i v1 = (if permitted p then None else Some EPERM, v1)"
    using s1 assms(3) i by (simp add: kill_probe_def pid_of_id same_os_def)
  ultimately have ad: "pstate st \<noteq> Running" if "adopted_status h w = (Inr st, u)" for st u
    using that wp tk by (auto simp: adopted_status_def Let_def split: if_splits sum.splits prod.splits)
  have "pstate c \<noteq> Running" if "map_of (finished w) ?i = Some c" for c
    using that assms(1) by (auto simp: tracked_def)
  with ad have quiet: "pstate st \<noteq> Running" if "s = Inr st" for st
    using assms(2,6) that i by (auto simp: status_def Let_def split: option.splits)
  have "signals w1 = signals w"
    using status_answers [of h w _ w1] status_failed [of h w _ w1] assms(1,6)
    by (cases s) (auto simp: answers_def same_os_def)
  moreover have "w' = w1" using assms(6,7) quiet i by (cases s) (auto simp: stop_def)
  ultimately show ?thesis using quiet by simp
qed

section \<open>Reading the start token\<close>

definition blank_free :: "string \<Rightarrow> bool" where
  "blank_free s \<longleftrightarrow> s \<noteq> [] \<and> (\<forall>c \<in> set s. \<not> isspace c)"

lemma next_field_word:
  assumes "blank_free x" "rest = [] \<or> isspace (hd rest)"
  shows "next_field (CHR '' '' # x @ rest) = Some (x, rest)"
proof -
  have "dropWhile isspace (CHR '' '' # x @ rest) = x @ rest"
    using assms(1) by (cases x) (auto simp: blank_free_def isspace_def)
  moreover have "takeWhile (\<lambda>c. \<not> isspace c) (x @ rest) = x" "dropWhile (\<lambda>c. \<not> isspace c) (x @ rest) = rest"
    using assms by (cases rest; auto simp: blank_free_def takeWhile_append dropWhile_append)+
  ultimately show ?thesis using assms(1) by (auto simp: next_field_def Let_def blank_free_def)
qed

lemma nth_field_words:
  "list_all blank_free xs \<Longrightarrow> n < length xs \<Longrightarrow>
     nth_field (Suc n) (concat (map (\<lambda>x. CHR '' '' # x) xs)) = Some (xs ! n)"
proof (induction n arbitrary: xs)
  case 0
  then obtain x ys where "xs = x # ys" by (cases xs) auto
  then show ?case using 0 next_field_word [of x "concat (map (\<lambda>x. CHR '' '' # x) ys)"]
    by (cases ys) (auto simp: isspace_def)
next
  case (Suc n)
  then obtain x ys where x: "xs = x # ys" by (cases xs) auto
  have "next_field (CHR '' '' # x @ concat (map (\<lambda>x. CHR '' '' # x) ys)) =
      Some (x, concat (map (\<lambda>x. CHR '' '' # x) ys))"
    using Suc.prems x by (intro next_field_word) (cases ys; auto simp: isspace_def)+
  then show ?case using Suc x by simp
qed

lemma digits_value_snoc: "digits_value (s @ [c]) = 10 * digits_value s + (int (of_char c) - 48)"
  by (simp add: digits_value_def)

lemma digits_value_nat_text: "digits_value (nat_text n) = int n"
proof (induction n rule: nat_text.induct)
  case (1 n)
  show ?case
  proof (cases "n < 10")
    case True
    then show ?thesis by (subst nat_text.simps) (simp add: digits_value_def)
  next
    case False
    have "10 * int (n div 10) + int (n mod 10) = int n"
      by (metis mult_div_mod_eq of_nat_add of_nat_mult of_nat_numeral)
    then show ?thesis using 1 False by (subst nat_text.simps) (simp add: digits_value_snoc)
  qed
qed

lemma nat_text_digits: "c \<in> set (nat_text n) \<Longrightarrow> isdigit c"
  using nat_text_decimal [of n] by (auto simp: is_decimal_def isdigit_def)

lemma stoull_nat_text:
  assumes "n < 2 ^ 64"
  shows "stoull (nat_text n) = Inr (word_of_nat n)"
proof -
  obtain c s where t: "nat_text n = c # s" by (cases "nat_text n") auto
  have c: "isdigit c" using nat_text_digits [of c n] t by simp
  then have "\<not> isspace c" "c \<noteq> CHR ''-''" "c \<noteq> CHR ''+''"
    by (auto simp: isdigit_def isspace_def Let_def)
  moreover have "takeWhile isdigit (nat_text n) = nat_text n"
    using nat_text_digits by (auto simp: takeWhile_eq_all_conv)
  ultimately show ?thesis
    using assms digits_value_nat_text [of n] t by (simp add: stoull_def Let_def)
qed

text \<open>
  The start token is read from the right field whatever the process is called. For a
  \<open>/proc/<pid>/stat\<close> line in the kernel's format, the pid, the command name in parentheses and
  then blank-separated fields of which the 22nd is the start time, the parse returns the start
  time, also when the command name itself contains blanks or closing parentheses.
\<close>

theorem start_token_robust:
  assumes "list_all blank_free words" "length words \<ge> 20" "CHR '')'' \<notin> set (concat words)"
    and "words ! 19 = nat_text t" "t < 2 ^ 64"
  shows "parse_start_token i (pid @ '' ('' @ comm @ '')'' @ concat (map (\<lambda>x. CHR '' '' # x) words)) =
    Inr (word_of_nat t)"
proof -
  let ?rest = "concat (map (\<lambda>x. CHR '' '' # x) words)"
  have "CHR '')'' \<notin> set ?rest" using assms(3) by auto
  then have "takeWhile (\<lambda>x. x \<noteq> CHR '')'') (rev ?rest @ CHR '')'' # s) = rev ?rest" for s
    by (subst takeWhile_append2) auto
  then have "after_last (CHR '')'') (pid @ '' ('' @ comm @ '')'' @ ?rest) = Some ?rest"
    by (simp add: after_last_def)
  moreover have "nth_field (kStatStartTimeField - 2) ?rest = Some (nat_text t)"
    using nth_field_words [OF assms(1), of 19] assms(2,4) by (simp add: kStatStartTimeField_def)
  ultimately show ?thesis
    using stoull_nat_text [OF assms(5)] unfolding parse_start_token_def by simp
qed

end
