(* ===== verification/SupervisorExamples.thy ===== *)
theory SupervisorExamples
  imports SupervisorFacts
begin

text \<open>
  The supervisor's theorems on an example device: a process with pid 500 and start token 777
  runs, the next fork gets pid 600. Two further devices show a reused pid and a pid that is
  reused while \<open>stop\<close> sleeps.
\<close>

definition app_stat :: "string" where
  "app_stat = ''500 (my) app) S 1 500 500 0 -1 4 1 0 0 0 1 1 0 0 20 0 1 0 777 9''"
definition other_stat :: "string" where
  "other_stat = ''500 (sshd) S 1 500 500 0 -1 4 1 0 0 0 1 1 0 0 20 0 1 0 999 9''"

definition foreign :: "string \<Rightarrow> pcb" where
  "foreign stat = \<lparr>stat_text = stat, is_child = False, ended = None, permitted = True,
     argv = [], envp = [], workdir = ''''\<rparr>"

definition app_handle :: process_handle where
  "app_handle = \<lparr>handle_id = 500, start_token = 777\<rparr>"

definition device :: os where
  "device = \<lparr>cwd = [], files = [([''app''], File ''elf'' 493)], mtimes = (\<lambda>_. None), faults = [],
     file_mode = 420, wall = 1786147200, steady = 0, lags = [],
     procs = [(500, foreign app_stat)], moves = [], pids = [(600, ''600 (app) S 1 600 600 0 -1 4 1 0 0 0 1 1 0 0 20 0 1 0 888 9'')],
     environ = [''PATH=/bin'', ''MODE=a''], boot_id = Some ''b1'', signals = [], finished = [], adopted_ids = []\<rparr>"

definition adopted_device :: os where
  "adopted_device = device\<lparr>adopted_ids := [500], moves := [\<lparr>ends = [], appears = []\<rparr>, \<lparr>ends = [(500, 0)], appears = []\<rparr>]\<rparr>"

definition raced_device :: os where
  "raced_device = adopted_device\<lparr>lags := [1000], moves := [\<lparr>ends = [(500, 0)], appears = [(500, foreign other_stat)]\<rparr>]\<rparr>"

lemma adopted_device_tracked: "tracked app_handle adopted_device"
  by (simp add: tracked_def adopted_device_def device_def app_handle_def no_return_def no_twin_def adopted_def)

theorem stop_stops_witness:
  "\<exists>w'. stop app_handle 5 adopted_device = (Inr (), w') \<and> map_of (procs w') 500 = None"
proof -
  have "fst (stop app_handle 5 adopted_device) = Inr ()" by code_simp
  then obtain w' where s: "stop app_handle 5 adopted_device = (Inr (), w')"
    by (cases "stop app_handle 5 adopted_device") auto
  have "procs (snd (stop app_handle 5 adopted_device)) = []" by code_simp
  then show ?thesis using s stop_stops [OF s adopted_device_tracked] by simp
qed

theorem adopt_verifies_witness:
  "\<exists>w'. adopt app_handle device = (Inr app_handle, w') \<and> tracked app_handle w'"
proof -
  have "fst (adopt app_handle device) = Inr app_handle" by code_simp
  then obtain w' where a: "adopt app_handle device = (Inr app_handle, w')"
    by (cases "adopt app_handle device") auto
  have "ready app_handle device"
    by (simp add: ready_def device_def app_handle_def no_return_def no_twin_def)
  then show ?thesis using a adopt_verifies [OF a] by blast
qed

definition app_options :: start_options where
  "app_options = \<lparr>executable_path = ''/app'', arguments = [''-v''], working_directory = ''/'',
     option_environment = [(''MODE'', ''b'')]\<rparr>"

theorem start_fresh_witness:
  "\<exists>w' p. start app_options device = (Inr \<lparr>handle_id = 600, start_token = 888\<rparr>, w') \<and>
     tracked \<lparr>handle_id = 600, start_token = 888\<rparr> w' \<and> map_of (procs w') 600 = Some p \<and>
     argv p = [''/app'', ''-v''] \<and>
     filter (\<lambda>line. variable_name line = ''MODE'') (envp p) = [''MODE=b''] \<and>
     filter (\<lambda>line. variable_name line = ''PATH'') (envp p) = [''PATH=/bin'']"
proof -
  have "fst (start app_options device) = Inr \<lparr>handle_id = 600, start_token = 888\<rparr>" by code_simp
  then obtain w' where s: "start app_options device = (Inr \<lparr>handle_id = 600, start_token = 888\<rparr>, w')"
    by (cases "start app_options device") auto
  have r: "startable \<lparr>handle_id = 600, start_token = 888\<rparr> device"
    by (simp add: startable_def device_def no_return_def no_twin_def)
  have "environ device = [''PATH=/bin'', ''MODE=a'']" by (simp add: device_def)
  moreover obtain p where "map_of (procs w') 600 = Some p" "argv p = [''/app'', ''-v'']"
    "\<And>name. filter (\<lambda>line. variable_name line = name) (envp p) =
      (if name = ''MODE'' then [''MODE=b'']
       else filter (\<lambda>line. variable_name line = name) (environ device))"
    using start_fresh [OF s r] by (auto simp: app_options_def)
  ultimately show ?thesis using s start_fresh [OF s r] by (auto simp: variable_name_def)
qed

definition reused_device :: os where
  "reused_device = adopted_device\<lparr>procs := [(500, foreign other_stat)]\<rparr>"

theorem stop_spares_reused_pid_witness:
  "\<exists>r w'. stop app_handle 5 reused_device = (r, w') \<and> signals w' = []"
proof -
  obtain s w1 where s: "status app_handle reused_device = (s, w1)" by fastforce
  obtain r w' where r: "stop app_handle 5 reused_device = (r, w')" by fastforce
  have "present app_handle reused_device = False"
    by (simp add: present_def has_token_def reused_device_def app_handle_def foreign_def, code_simp)
  then have t: "tracked app_handle reused_device"
    by (simp add: tracked_def reused_device_def adopted_device_def device_def app_handle_def
        no_return_def no_twin_def adopted_def)
  have a: "adopted (handle_id app_handle) reused_device" by code_simp
  have m: "map_of (procs reused_device) (handle_id app_handle) = Some (foreign other_stat)"
    by (simp add: reused_device_def app_handle_def)
  have c: "\<not> is_child (foreign other_stat)" by (simp add: foreign_def)
  have p: "parse_start_token (handle_id app_handle) (getline (stat_text (foreign other_stat))) \<noteq>
      Inr (start_token app_handle)"
    by code_simp
  have "signals reused_device = []" by code_simp
  then show ?thesis using r stop_spares_reused_pid [OF t a m c p s r] by simp
qed

theorem start_token_robust_witness:
  "parse_start_token 500 app_stat = Inr (word_of_nat 777)"
proof -
  let ?words = "[''S'', ''1'', ''500'', ''500'', ''0'', ''-1'', ''4'', ''1'', ''0'', ''0'', ''0'', ''1'', ''1'',
    ''0'', ''0'', ''20'', ''0'', ''1'', ''0'', ''777'', ''9'']"
  have w: "list_all blank_free ?words" by code_simp
  have l: "20 \<le> length ?words" by simp
  have n: "CHR '')'' \<notin> set (concat ?words)" by simp
  have t: "?words ! 19 = nat_text 777" by code_simp
  have b: "(777 :: nat) < 2 ^ 64" by simp
  have "''500'' @ '' ('' @ ''my) app'' @ '')'' @ concat (map (\<lambda>x. CHR '' '' # x) ?words) = app_stat"
    by (simp add: app_stat_def)
  then show ?thesis using start_token_robust [OF w l n t b, of 500 "''500''" "''my) app''"] by simp
qed

theorem environment_overrides_witness:
  "filter (\<lambda>line. variable_name line = ''MODE'') (build_environment app_options [''PATH=/bin'', ''MODE=a'']) =
     [''MODE=b'']"
proof -
  have o': "list_all (\<lambda>(n, v). CHR ''='' \<notin> set n) (option_environment app_options)"
    by (simp add: app_options_def)
  show ?thesis using environment_overrides [OF o', of "''MODE''"] by (simp add: app_options_def)
qed

text \<open>
  A gap in \<open>stop\<close>: after the last 20 ms sleep of the polling loop \<open>SIGKILL\<close> is sent without
  asking again. When the process ends during that sleep and its pid is given to another process,
  one that leads a process group of its own (the group \<open>kill(-pid)\<close> then names), that group is
  killed. The device of this example has exactly that history: the receiver of the \<open>SIGKILL\<close> is
  not the recorded process.
\<close>

theorem stop_can_kill_stranger:
  "(500, SIGKILL, other_stat) \<in> set (signals (snd (stop app_handle 1 raced_device))) \<and>
   parse_start_token 500 (getline other_stat) \<noteq> Inr (start_token app_handle)"
proof -
  have app: "parse_start_token 500 (getline app_stat) = Inr 777"
    and other: "parse_start_token 500 (getline other_stat) = Inr 999" by code_simp+
  have pid: "pid_of 500 = 500" by (simp add: pid_of_id)
  show ?thesis
    by (simp add: stop_def status_def adopted_status_def stop_poll.simps waitpid_def take_fault_def
        kill_probe_def read_start_token_def proc_stat_def kill_group_def deliver_def app other pid
        raced_device_def adopted_device_def device_def app_handle_def foreign_def adopted_def
        errno_of_def os_sleep_def elapse_def kPollInterval_def evolve_def live_on_def settle_def
        settle_poll.simps settle_adopted_def plain_status_def insert_finished_def)
qed

end
