(* ===== verification/SystemControl.thy ===== *)
theory SystemControl
  imports SupervisorExamples
begin

text \<open>
  \<open>RolloutKit/Process/PosixSystemControl.cpp\<close>: the request for a reboot, which starts the
  system's shutdown program and leaves it running. Whether the agent has root privileges is an
  argument. \<open>execv\<close> is \<open>execve\<close> with the inherited environment, so that the fork is \<open>fork_exec\<close> with
  no variables of its own.
\<close>

definition kRebootDelayMinutes :: nat where "kRebootDelayMinutes = 1"

definition kShutdownCandidates :: "string list" where
  "kShutdownCandidates = [''/sbin/shutdown'', ''/usr/sbin/shutdown'', ''/bin/shutdown'']"

text \<open>\<open>access (path, X_OK) == 0\<close> for root: any execute bit of a file, and every directory.\<close>

definition accessible :: "string \<Rightarrow> 'a os_scheme \<Rightarrow> bool \<times> 'a os_scheme" where
  "accessible path w =
     (case take_fault w of
        (Some f, w1) \<Rightarrow> (False, w1)
      | (None, w1) \<Rightarrow>
          ((case lookup (files w1) (at w1 path) of
              Some (File c m) \<Rightarrow> m AND 73 \<noteq> 0
            | Some Directory \<Rightarrow> True
            | _ \<Rightarrow> False), w1))"

fun locate_shutdown :: "string list \<Rightarrow> 'a os_scheme \<Rightarrow> string \<times> 'a os_scheme" where
  "locate_shutdown [] w = ('''', w)"
| "locate_shutdown (candidate # candidates) w =
     (case accessible candidate w of
        (True, w1) \<Rightarrow> (candidate, w1)
      | (False, w1) \<Rightarrow> locate_shutdown candidates w1)"

definition reboot_command :: "string \<Rightarrow> start_options" where
  "reboot_command program =
     \<lparr>executable_path = program, arguments = [''-r'', ''+'' @ nat_text kRebootDelayMinutes],
      working_directory = '''', option_environment = []\<rparr>"

definition request_reboot :: "bool \<Rightarrow> 'a os_scheme \<Rightarrow> unit expected \<times> 'a os_scheme" where
  "request_reboot is_root w =
     (if \<not> is_root then
        (Inl (''rebooting requires root privileges'' @ em_dash @
           ''run the agent as a service account that may reboot this device''), w)
      else
        (case locate_shutdown kShutdownCandidates w of
           (shutdown_path, w1) \<Rightarrow>
             if shutdown_path = '''' then
               (Inl (''cannot find an executable '' @ quoted ''shutdown'' @ '' in /sbin, /usr/sbin or /bin''), w1)
             else
               (case take_fault w1 of
                  (Some f, w2) \<Rightarrow> (Inl (''cannot create report pipe: '' @ strerror (errno_of f)), w2)
                | (None, w2) \<Rightarrow>
                    (case take_fault w2 of
                       (Some f, w3) \<Rightarrow>
                         (Inl (''cannot set FD_CLOEXEC on report pipe: '' @ strerror (errno_of f)), w3)
                     | (None, w3) \<Rightarrow>
                         (case fork_exec (reboot_command shutdown_path) w3 of
                            (Inl e, w4) \<Rightarrow> (Inl (''cannot fork: '' @ strerror e), w4)
                          | (Inr (child, Some e), w4) \<Rightarrow>
                              (Inl (''cannot run '' @ quoted shutdown_path @ '': '' @ strerror e), w4)
                          | (Inr (child, None), w4) \<Rightarrow> (Inr (), w4))))))"

section \<open>What a request does\<close>

lemma accessible_reads: "accessible path w = (b, w') \<Longrightarrow> reads w w'"
  by (auto simp: accessible_def dest: take_fault_reads split: prod.splits option.splits)

lemma locate_shutdown_reads: "locate_shutdown candidates w = (p, w') \<Longrightarrow> reads w w'"
  by (induction candidates arbitrary: w) (auto split: prod.splits bool.splits dest: accessible_reads intro: reads_trans)

lemma locate_shutdown_found:
  "locate_shutdown candidates w = (p, w') \<Longrightarrow> p = '''' \<or> p \<in> set candidates"
  by (induction candidates arbitrary: w) (auto split: prod.splits bool.splits)

lemma reads_os: "reads w w' \<Longrightarrow> procs w' = procs w \<and> environ w' = environ w"
  by (cases w; cases w') (simp add: reads_def)

lemma exec_error_reads: "exec_error opts w = (r, w') \<Longrightarrow> reads w w'"
  by (auto simp: exec_error_def Let_def dest!: take_fault_reads
      split: prod.splits option.splits node.splits if_splits)

lemma fork_exec_effect:
  assumes "fork_exec opts w = (r, w')"
  shows "files w' = files w \<and>
    (case r of
       Inr (child, None) \<Rightarrow> (\<exists>p. procs w' = (child, p) # procs w \<and> map_of (procs w) child = None \<and> is_child p \<and>
         ended p = None \<and> argv p = build_arguments opts \<and> envp p = build_environment opts (environ w))
     | _ \<Rightarrow> procs w' = procs w)"
proof -
  obtain f w1 where t: "take_fault w = (f, w1)" by fastforce
  note s = take_fault_reads [OF t]
  show ?thesis
  proof (cases "f \<noteq> None \<or> pids w1 = []")
    case True
    then show ?thesis using assms t reads_files [OF s] reads_os [OF s]
      by (auto simp: fork_exec_def split: option.splits)
  next
    case False
    then obtain c stat rest where p: "f = None" "pids w1 = (c, stat) # rest" by (cases "pids w1") auto
    obtain x w2 where e: "exec_error opts (w1\<lparr>pids := rest\<rparr>) = (x, w2)" by fastforce
    note k = exec_error_reads [OF e]
    show ?thesis
      using assms t p e reads_files [OF s] reads_os [OF s] reads_files [OF k] reads_os [OF k]
      by (cases x) (auto simp: fork_exec_def Let_def split: if_splits)
  qed
qed

lemma reboot_environment: "build_environment (reboot_command s) inherited = inherited"
  by (simp add: build_environment_def reboot_command_def)

text \<open>
  C36: A reboot is requested by exactly one command. When \<open>request_reboot\<close> reports success, the agent
  has root privileges and one new process runs, one of the three shutdown programs with the
  arguments \<open>-r +1\<close>, a minute from now, in the agent's environment; when it reports an error, no
  process was left behind. The disk is untouched either way.
\<close>

theorem reboot_requested:
  assumes "request_reboot is_root w = (r, w')"
  shows "files w' = files w \<and>
    (case r of
       Inl e \<Rightarrow> procs w' = procs w
     | Inr u \<Rightarrow> is_root \<and> (\<exists>child p program. procs w' = (child, p) # procs w \<and> map_of (procs w) child = None \<and>
         program \<in> set kShutdownCandidates \<and> argv p = [program, ''-r'', ''+1''] \<and> is_child p \<and> ended p = None \<and>
         envp p = environ w))"
proof -
  obtain s w1 where c1: "locate_shutdown kShutdownCandidates w = (s, w1)" by fastforce
  obtain f2 w2 where c2: "take_fault w1 = (f2, w2)" by fastforce
  obtain f3 w3 where c3: "take_fault w2 = (f3, w3)" by fastforce
  obtain x w4 where c4: "fork_exec (reboot_command s) w3 = (x, w4)" by fastforce
  have r: "reads w w1" "reads w w2" "reads w w3"
    using locate_shutdown_reads [OF c1] take_fault_reads [OF c2] take_fault_reads [OF c3] reads_trans by blast+
  note k = r [THEN reads_files] r [THEN reads_os] fork_exec_effect [OF c4]
  have e: "snd (request_reboot is_root w) =
      (if \<not> is_root then w else if s = '''' then w1 else if f2 \<noteq> None then w2 else if f3 \<noteq> None then w3 else w4)"
    and l: "is_ok (fst (request_reboot is_root w)) \<longleftrightarrow>
      is_root \<and> s \<noteq> '''' \<and> f2 = None \<and> f3 = None \<and> (\<exists>child. x = Inr (child, None))"
    using c1 c2 c3 c4
    by (cases f2; cases f3; cases x; auto simp: request_reboot_def split: option.splits)+
  show ?thesis
  proof (cases r)
    case (Inl err)
    then have "procs w' = procs w \<and> files w' = files w"
      using assms e l k by (auto split: if_splits sum.splits option.splits)
    then show ?thesis using Inl by simp
  next
    case (Inr u)
    then obtain child where c: "x = Inr (child, None)" "is_root" "s \<noteq> ''''" "w' = w4"
      using assms e l by (auto split: if_splits)
    have "build_arguments (reboot_command s) = [s, ''-r'', ''+1'']" by (simp add: build_arguments_def reboot_command_def) code_simp
    then show ?thesis using Inr c k locate_shutdown_found [OF c1] reboot_environment by auto
  qed
qed

definition shutdown_device :: os where
  "shutdown_device = device\<lparr>files := [([''usr''], Directory), ([''usr'', ''sbin''], Directory),
     ([''usr'', ''sbin'', ''shutdown''], File ''elf'' 493)]\<rparr>"

theorem reboot_requested_witness:
  "\<exists>w' child p. request_reboot True shutdown_device = (Inr (), w') \<and>
     procs w' = (child, p) # procs shutdown_device \<and> tl (argv p) = [''-r'', ''+1'']"
proof -
  have "fst (request_reboot True shutdown_device) = Inr ()" by code_simp
  then obtain w' where w': "request_reboot True shutdown_device = (Inr (), w')"
    by (cases "request_reboot True shutdown_device") auto
  show ?thesis using reboot_requested [OF w'] w' by auto
qed

end
