(* ===== verification/Health.thy ===== *)
theory Health
  imports Supervisor "HOL-Library.Sublist"
begin

text \<open>
  \<open>RolloutKit/Health\<close>: the health checker, which turns a sequence of probe results into a state
  by counting consecutive successes and failures, and the two probes, which ask the supervisor
  or the network.

  A probe is a function on the world; \<open>None\<close> is the null pointer. Counters and thresholds are
  \<open>int32_t\<close> in the code and integers here: \<open>HealthFacts\<close> shows that no counter exceeds the number
  of evaluations, so none overflows before \<open>2 ^ 31\<close> of them. libcurl is the record \<open>curl\<close>, an
  argument of the network probe.
\<close>

section \<open>\<open>HealthTypes.h\<close>\<close>

datatype check_kind = Process | Tcp | Http

datatype check_purpose = Readiness | Liveness

datatype health_state = HealthUnknown | Healthy | Unhealthy

record health_spec =
  kind :: check_kind
  purpose :: check_purpose
  host :: string
  port :: "16 word"
  health_path :: string
  expected_status :: int
  expected_body :: string
  health_timeout :: int
  interval :: int
  success_threshold :: int
  failure_threshold :: int

definition default_health_spec :: health_spec where
  "default_health_spec =
     \<lparr>kind = Process, purpose = Liveness, host = ''127.0.0.1'', port = 0, health_path = ''/'',
      expected_status = 200, expected_body = '''', health_timeout = 2000, interval = 1000,
      success_threshold = 1, failure_threshold = 3\<rparr>"

section \<open>\<open>HealthChecker.cpp\<close>\<close>

type_synonym 'w probe = "'w \<Rightarrow> unit expected \<times> 'w"

record checker =
  spec :: health_spec
  health :: health_state
  consecutive_successes :: int
  consecutive_failures :: int
  last_error :: "string option"

definition health_checker :: "health_spec \<Rightarrow> checker" where
  "health_checker s =
     \<lparr>spec = s\<lparr>success_threshold := (if success_threshold s \<le> 0 then 1 else success_threshold s),
               failure_threshold := (if failure_threshold s \<le> 0 then 1 else failure_threshold s)\<rparr>,
      health = HealthUnknown, consecutive_successes = 0, consecutive_failures = 0,
      last_error = None\<rparr>"

definition note_success :: "checker \<Rightarrow> checker" where
  "note_success c =
     (let n = consecutive_successes c + 1 in
      c\<lparr>consecutive_successes := n, consecutive_failures := 0, last_error := None,
        health := (if n \<ge> success_threshold (spec c) then Healthy else health c)\<rparr>)"

definition note_failure :: "string \<Rightarrow> checker \<Rightarrow> checker" where
  "note_failure e c =
     (let n = consecutive_failures c + 1 in
      c\<lparr>consecutive_successes := 0, consecutive_failures := n, last_error := Some e,
        health := (if n \<ge> failure_threshold (spec c) then Unhealthy else health c)\<rparr>)"

definition evaluate :: "'w probe option \<Rightarrow> checker \<Rightarrow> 'w \<Rightarrow> checker \<times> 'w" where
  "evaluate p c w =
     (case p of
        None \<Rightarrow> (note_failure ''health probe is not configured'' c, w)
      | Some probe \<Rightarrow>
          (case probe w of
             (Inr _, w1) \<Rightarrow> (note_success c, w1)
           | (Inl e, w1) \<Rightarrow> (note_failure e c, w1)))"

definition reset :: "checker \<Rightarrow> checker" where
  "reset c = c\<lparr>health := HealthUnknown, consecutive_successes := 0, consecutive_failures := 0,
     last_error := None\<rparr>"

section \<open>\<open>ProcessProbe.cpp\<close>\<close>

text \<open>The supervisor's \<open>status\<close> is the argument; \<open>None\<close> is a null supervisor.\<close>

definition process_probe ::
    "(process_handle \<Rightarrow> 'w \<Rightarrow> process_status expected \<times> 'w) option \<Rightarrow> process_handle \<Rightarrow> 'w probe" where
  "process_probe ask h w =
     (case ask of
        None \<Rightarrow> (Inl ''process supervisor is not configured'', w)
      | Some status_of \<Rightarrow>
          (case status_of h w of
             (Inl e, w1) \<Rightarrow> (Inl e, w1)
           | (Inr s, w1) \<Rightarrow>
               (case pstate s of
                  Running \<Rightarrow> (Inr (), w1)
                | Exited \<Rightarrow>
                    (Inl (''process '' @ int_text (handle_id h) @ '' exited with code '' @
                          (case exit_code s of Some c \<Rightarrow> int_text (sint c) | None \<Rightarrow> ''-1'')), w1)
                | Signaled \<Rightarrow>
                    (Inl (''process '' @ int_text (handle_id h) @ '' terminated by signal '' @
                          (case term_signal s of Some c \<Rightarrow> int_text (sint c) | None \<Rightarrow> ''-1'')), w1)
                | Unknown \<Rightarrow>
                    (Inl (''process '' @ int_text (handle_id h) @ '' state is unknown''), w1))))"

section \<open>\<open>NetworkProbe.cpp\<close>\<close>

text \<open>
  What the probe uses of libcurl: a handle can be made or not, and performing a request gives
  the text of an error code, or the response code with the chunks handed to the write callback.
\<close>

record curl_request =
  request_url :: string
  connect_only :: bool
  connect_timeout_ms :: int
  timeout_ms :: "int option"

record 'w curl =
  easy_init :: "'w \<Rightarrow> bool \<times> 'w"
  easy_perform :: "curl_request \<Rightarrow> 'w \<Rightarrow> (int \<times> string list) expected \<times> 'w"

definition append_body :: "string \<Rightarrow> string \<Rightarrow> string" where
  "append_body body chunk = body @ chunk"

definition normalise_path :: "string \<Rightarrow> string" where
  "normalise_path p =
     (if p = '''' then ''/'' else if hd p = CHR ''/'' then p else ''/'' @ p)"

definition port_text :: "health_spec \<Rightarrow> string" where
  "port_text s = nat_text (unat (port s))"

definition probe_tcp :: "'w curl \<Rightarrow> health_spec \<Rightarrow> 'w probe" where
  "probe_tcp C s w =
     (case easy_init C w of
        (False, w1) \<Rightarrow> (Inl ''cannot initialise curl handle'', w1)
      | (True, w1) \<Rightarrow>
          (let url = ''http://'' @ host s @ '':'' @ port_text s in
           case easy_perform C \<lparr>request_url = url, connect_only = True,
               connect_timeout_ms = health_timeout s, timeout_ms = None\<rparr> w1 of
             (Inl code, w2) \<Rightarrow>
               (Inl (''cannot connect to '' @ host s @ '':'' @ port_text s @ em_dash @ code), w2)
           | (Inr _, w2) \<Rightarrow> (Inr (), w2)))"

definition probe_http :: "'w curl \<Rightarrow> health_spec \<Rightarrow> 'w probe" where
  "probe_http C s w =
     (case easy_init C w of
        (False, w1) \<Rightarrow> (Inl ''cannot initialise curl handle'', w1)
      | (True, w1) \<Rightarrow>
          (let url = ''http://'' @ host s @ '':'' @ port_text s @ normalise_path (health_path s) in
           case easy_perform C \<lparr>request_url = url, connect_only = False,
               connect_timeout_ms = health_timeout s, timeout_ms = Some (health_timeout s)\<rparr> w1 of
             (Inl code, w2) \<Rightarrow> (Inl (''cannot request '' @ url @ em_dash @ code), w2)
           | (Inr (response_code, chunks), w2) \<Rightarrow>
               (let body = foldl append_body '''' chunks in
                if response_code \<noteq> expected_status s then
                  (Inl (''unexpected status from '' @ url @ em_dash @ ''got '' @
                        int_text response_code @ '', expected '' @ int_text (expected_status s)), w2)
                else if expected_body s \<noteq> '''' \<and> \<not> sublist (expected_body s) body then
                  (Inl (''response body from '' @ url @ '' does not contain '' @
                        quoted (expected_body s)), w2)
                else (Inr (), w2))))"

definition network_probe :: "'w curl \<Rightarrow> health_spec \<Rightarrow> 'w probe" where
  "network_probe C s w =
     (if port s = 0 then (Inl ''port is required for tcp/http health check'', w)
      else if kind s = Tcp then probe_tcp C s w
      else if kind s = Http then probe_http C s w
      else (Inl ''NetworkProbe supports tcp and http checks only'', w))"

end
