(* ===== verification/Deployment.thy ===== *)
theory Deployment
  imports ReleaseInstaller Health
begin

text \<open>
  \<open>RolloutKit/Deploy/DeploymentEngine.cpp\<close>: the engine that installs a release, stops the old
  process, activates and launches the new one, waits until it is ready and rolls back when it is
  not; and the record \<open>runtime.json\<close> by which a restarted agent finds its process again.

  The members \<open>handle_\<close> and \<open>last_detail_\<close> extend the machine and its processes to \<open>engine\<close>; what
  the constructor fixes (and the JSON and HTTP libraries) is the record \<open>parts\<close>. The readiness
  loop runs until a deadline of the steady clock with sleeps of a configured length; it is a
  \<open>partial_function\<close>, and \<open>None\<close> is the loop that does not end.
\<close>

section \<open>\<open>DeployTypes.h\<close>\<close>

definition kNoActiveRelease :: string where
  "kNoActiveRelease = ''no active release to start''"

record service_spec =
  executable :: string
  service_arguments :: "string list"
  service_directory :: string
  stop_timeout :: int
  startup_timeout :: int

record runtime_record =
  record_release :: string
  record_process :: int
  record_token :: "64 word"
  record_boot :: string

definition empty_record :: runtime_record where
  "empty_record = \<lparr>record_release = '''', record_process = 0, record_token = 0, record_boot = ''''\<rparr>"

section \<open>The members\<close>

record engine = os +
  engine_handle :: "process_handle option"
  last_detail :: string

text \<open>
  The two flags say whether the shared pointers are set. A handle exists only after the
  supervisor was used, so \<open>stop\<close> never meets a handle without a supervisor.
\<close>

record 'w parts =
  json :: json_lib
  http :: "'w curl"
  has_installer :: bool
  has_supervisor :: bool
  install_opts :: install_options
  supervisor :: "'w supervisor"
  service :: service_spec
  health_cfg :: health_spec

definition set_detail :: "string \<Rightarrow> 'a engine_scheme \<Rightarrow> 'a engine_scheme" where
  "set_detail s w = w\<lparr>last_detail := s\<rparr>"

definition running :: "'a engine_scheme parts \<Rightarrow> 'a engine_scheme \<Rightarrow> bool \<times> 'a engine_scheme" where
  "running E w =
     (case engine_handle w of
        None \<Rightarrow> (False, w)
      | Some h \<Rightarrow>
          if \<not> has_supervisor E then (False, w)
          else (case sup_status (supervisor E) h w of
                  (Inr s, w1) \<Rightarrow> (pstate s = Running, w1)
                | (Inl e, w1) \<Rightarrow> (False, w1)))"

section \<open>Checking the executable\<close>

definition validate_release_relative_path :: "string \<Rightarrow> string \<Rightarrow> unit expected" where
  "validate_release_relative_path p label =
     (if p = '''' then Inl (label @ '' is empty'')
      else
        let normalized = lexically_normal p in
        if fst normalized \<or> path_begin normalized = ''..'' then
          Inl (label @ '' '' @ quoted p @ '' must be a relative path inside the release directory'')
        else Inr ())"

definition validate_service_executable :: "service_spec \<Rightarrow> unit expected" where
  "validate_service_executable s =
     (if executable s = '''' then
        Inl (''service.executable is not configured'' @ em_dash @ ''the agent does not know what to run'')
      else validate_release_relative_path (executable s) ''service.executable'')"

definition active_release_directory ::
    "'a engine_scheme parts \<Rightarrow> 'a engine_scheme \<Rightarrow> string expected \<times> 'a engine_scheme" where
  "active_release_directory E w =
     (if \<not> has_installer E then (Inl ''deployment engine is not configured'', w)
      else (case installer_state (json E) (install_opts E) w of
        (Inl e, w1) \<Rightarrow> (Inl e, w1)
      | (Inr current, w1) \<Rightarrow>
          if active current = '''' then (Inl kNoActiveRelease, w1)
          else (Inr (release_directory (install_opts E) (active current)), w1)))"

section \<open>The runtime record\<close>

definition record_path :: "install_options \<Rightarrow> string" where
  "record_path opts = path_append (service_root opts) ''runtime.json''"

definition clear_record :: "install_options \<Rightarrow> 'a machine_scheme \<Rightarrow> unit expected \<times> 'a machine_scheme" where
  "clear_record opts w =
     (case fs_remove (at w (record_path opts)) w of
        (Inl e, w1) \<Rightarrow> (Inl (''cannot remove '' @ quoted (record_path opts) @ '': '' @ e), w1)
      | (Inr _, w1) \<Rightarrow> (Inr (), w1))"

definition unreadable_record ::
    "install_options \<Rightarrow> string \<Rightarrow> 'a engine_scheme \<Rightarrow> runtime_record expected \<times> 'a engine_scheme" where
  "unreadable_record opts why w =
     (case clear_record opts (set_detail why w) of
        (Inl e, w1) \<Rightarrow> (Inl (why @ '' and '' @ e), w1)
      | (Inr _, w1) \<Rightarrow> (Inr empty_record, w1))"

text \<open>A member of the wrong kind is skipped; \<open>start_token\<close> is read back from its signed form.\<close>

definition load_record :: "json_object \<Rightarrow> runtime_record" where
  "load_record root =
     \<lparr>record_release = (case string_field root ''release_id'' of Some s \<Rightarrow> s | None \<Rightarrow> ''''),
      record_process = (case int64_field root ''process_id'' of Some n \<Rightarrow> sint n | None \<Rightarrow> 0),
      record_token = (case int64_field root ''start_token'' of Some n \<Rightarrow> n | None \<Rightarrow> 0),
      record_boot = (case string_field root ''boot_identity'' of Some s \<Rightarrow> s | None \<Rightarrow> '''')\<rparr>"

definition read_record ::
    "json_lib \<Rightarrow> install_options \<Rightarrow> 'a engine_scheme \<Rightarrow> runtime_record expected \<times> 'a engine_scheme" where
  "read_record L opts w =
     (case fs_exists (at w (record_path opts)) w of
        (False, w1) \<Rightarrow> (Inr empty_record, w1)
      | (True, w1) \<Rightarrow>
          (case fs_read (at w1 (record_path opts)) w1 of
             (None, w2) \<Rightarrow> (Inl (''cannot open '' @ quoted (record_path opts)), w2)
           | (Some content, w2) \<Rightarrow>
               (case parse_text L content of
                  Inl e \<Rightarrow>
                    unreadable_record opts
                      (''cannot parse '' @ quoted (record_path opts) @ '': '' @ e) w2
                | Inr (JObject root) \<Rightarrow> (Inr (load_record root), w2)
                | Inr _ \<Rightarrow>
                    unreadable_record opts
                      (quoted (record_path opts) @ '' root is not a JSON object'') w2)))"

definition record_json :: "runtime_record \<Rightarrow> json" where
  "record_json next =
     JObject [(''release_id'', JString (record_release next)),
              (''process_id'', JInt64 (word_of_int (record_process next))),
              (''start_token'', JInt64 (record_token next)),
              (''boot_identity'', JString (record_boot next))]"

definition write_record ::
    "json_lib \<Rightarrow> install_options \<Rightarrow> runtime_record \<Rightarrow> 'a machine_scheme \<Rightarrow>
       unit expected \<times> 'a machine_scheme" where
  "write_record L opts next w =
     (let temporary = record_path opts @ ''.tmp'' in
      case fs_write (at w temporary) (serialize_value L (record_json next)) w of
        (NotOpened, w1) \<Rightarrow> (Inl (''cannot write '' @ quoted temporary), w1)
      | (NotWritten, w1) \<Rightarrow> (Inl (''cannot write '' @ quoted temporary), w1)
      | (Written, w1) \<Rightarrow>
          (case fs_rename (at w1 temporary) (at w1 (record_path opts)) w1 of
             (Inl e, w2) \<Rightarrow>
               (Inl (''cannot publish '' @ quoted (record_path opts) @ '': '' @ e),
                snd (fs_remove (at w2 temporary) w2))
           | (Inr _, w2) \<Rightarrow> (Inr (), w2)))"

section \<open>Stopping and launching\<close>

definition engine_stop ::
    "'a engine_scheme parts \<Rightarrow> 'a engine_scheme \<Rightarrow> unit expected \<times> 'a engine_scheme" where
  "engine_stop E w =
     (case engine_handle w of
        None \<Rightarrow> (Inr (), w)
      | Some h \<Rightarrow>
          (case sup_stop (supervisor E) h (stop_timeout (service E)) w of
             (Inl e, w1) \<Rightarrow> (Inl e, w1)
           | (Inr _, w1) \<Rightarrow> clear_record (install_opts E) (w1\<lparr>engine_handle := None\<rparr>)))"

text \<open>
  \<open>std::filesystem::status (p).permissions ()\<close> and \<open>std::filesystem::permissions\<close>. Only files
  carry permission bits here; everything else counts as executable.
\<close>

definition owner_exec :: "12 word" where "owner_exec = 64"
definition group_exec :: "12 word" where "group_exec = 8"

definition fs_permissions :: "fpath \<Rightarrow> 'a machine_scheme \<Rightarrow> 12 word expected \<times> 'a machine_scheme" where
  "fs_permissions p w =
     (case take_fault w of
        (Some f, w1) \<Rightarrow> (Inl (reason f), w1)
      | (None, w1) \<Rightarrow>
          (case lookup (files w1) p of
             None \<Rightarrow> (Inl ''No such file or directory'', w1)
           | Some (File c m) \<Rightarrow> (Inr m, w1)
           | Some _ \<Rightarrow> (Inr 0x1FF, w1)))"

definition fs_chmod :: "fpath \<Rightarrow> 12 word \<Rightarrow> 'a machine_scheme \<Rightarrow> unit expected \<times> 'a machine_scheme" where
  "fs_chmod p m w =
     (case take_fault w of
        (Some f, w1) \<Rightarrow> (Inl (reason f), w1)
      | (None, w1) \<Rightarrow>
          (case lookup (files w1) p of
             Some (File c m') \<Rightarrow> (Inr (), w1\<lparr>files := put_node p (File c m) (files w1)\<rparr>)
           | None \<Rightarrow> (Inl ''No such file or directory'', w1)
           | Some _ \<Rightarrow> (Inr (), w1)))"

definition make_executable :: "fpath \<Rightarrow> 'a machine_scheme \<Rightarrow> unit expected \<times> 'a machine_scheme" where
  "make_executable p w =
     (case fs_permissions p w of
        (Inl e, w1) \<Rightarrow> (Inr (), w1)
      | (Inr mode, w1) \<Rightarrow>
          if mode AND owner_exec \<noteq> 0 then (Inr (), w1)
          else fs_chmod p (mode OR owner_exec OR group_exec) w1)"

definition launch ::
    "'a engine_scheme parts \<Rightarrow> string \<Rightarrow> 'a engine_scheme \<Rightarrow> unit expected \<times> 'a engine_scheme" where
  "launch E release_id w =
     (case validate_service_executable (service E) of
        Inl e \<Rightarrow> (Inl e, w)
      | Inr _ \<Rightarrow>
          (let release_root = release_directory (install_opts E) release_id;
               exe = path_append release_root (executable (service E)) in
           case fs_exists (at w exe) w of
             (False, w1) \<Rightarrow>
               (Inl (''executable '' @ quoted (executable (service E)) @ '' is missing from the release''), w1)
           | (True, w1) \<Rightarrow>
               (case make_executable (at w1 exe) w1 of
                  (Inl e, w2) \<Rightarrow>
                    (Inl (''cannot make '' @ quoted (executable (service E)) @ '' executable: '' @ e), w2)
                | (Inr _, w2) \<Rightarrow>
                    (case sup_start (supervisor E)
                        \<lparr>executable_path = exe, arguments = service_arguments (service E),
                         working_directory =
                           (if service_directory (service E) = '''' then release_root
                            else service_directory (service E)),
                         option_environment = []\<rparr> w2 of
                       (Inl e, w3) \<Rightarrow> (Inl e, w3)
                     | (Inr started, w3) \<Rightarrow>
                         (case boot_identity (w3\<lparr>engine_handle := Some started\<rparr>) of
                            (Inl e, w4) \<Rightarrow> (Inl e, w4)
                          | (Inr identity, w4) \<Rightarrow>
                              (case write_record (json E) (install_opts E)
                                  \<lparr>record_release = release_id, record_process = handle_id started,
                                   record_token = start_token started, record_boot = identity\<rparr> w4 of
                                 (Inl e, w5) \<Rightarrow>
                                   (Inl (''started '' @ quoted release_id @
                                         '' but cannot record the running instance: '' @ e), w5)
                               | (Inr _, w5) \<Rightarrow> (Inr (), w5)))))))"

section \<open>Waiting for readiness\<close>

definition make_probe :: "'a engine_scheme parts \<Rightarrow> 'a engine_scheme \<Rightarrow> 'a engine_scheme probe option" where
  "make_probe E w =
     (if kind (health_cfg E) = Process then
        (case engine_handle w of
           None \<Rightarrow> None
         | Some h \<Rightarrow>
             Some (process_probe (if has_supervisor E then Some (sup_status (supervisor E)) else None) h))
      else Some (network_probe (http E) (health_cfg E)))"

partial_function (option) ready_loop ::
    "'a os_scheme probe \<Rightarrow> int \<Rightarrow> string \<Rightarrow> checker \<Rightarrow> 'a os_scheme \<Rightarrow> (unit expected \<times> 'a os_scheme) option" where
  "ready_loop probe deadline span c w =
     (if steady w < deadline then
        (case evaluate (Some probe) c w of
           (c1, w1) \<Rightarrow>
             if health c1 = Healthy then Some (Inr (), w1)
             else if health c1 = Unhealthy then
               Some (Inl (case last_error c1 of Some e \<Rightarrow> e | None \<Rightarrow> ''health check failed''), w1)
             else ready_loop probe deadline span c1 (os_sleep (interval (spec c1)) w1))
      else
        Some (Inl (''readiness not confirmed within '' @ span @ ''s: '' @
                   (case last_error c of Some e \<Rightarrow> e | None \<Rightarrow> ''no successful probe'')), w))"

declare ready_loop.simps [code]

definition await_ready ::
    "'a engine_scheme parts \<Rightarrow> 'a engine_scheme \<Rightarrow> (unit expected \<times> 'a engine_scheme) option" where
  "await_ready E w =
     (case make_probe E w of
        None \<Rightarrow> Some (Inl ''cannot build a health probe for the started process'', w)
      | Some probe \<Rightarrow>
          ready_loop probe (steady w + 1000 * startup_timeout (service E))
            (int_text (startup_timeout (service E)))
            (health_checker ((health_cfg E)\<lparr>purpose := Readiness\<rparr>)) w)"

section \<open>Recovering, resuming\<close>

definition recover ::
    "'a engine_scheme parts \<Rightarrow> string \<Rightarrow> 'a engine_scheme \<Rightarrow> unit expected \<times> 'a engine_scheme" where
  "recover E why w =
     (case engine_stop E w of
        (Inl e, w1) \<Rightarrow> (Inl (why @ ''; and the failed release did not stop: '' @ e), w1)
      | (Inr _, w1) \<Rightarrow>
          (case rollback (json E) (install_opts E) w1 of
             (Inl e, w2) \<Rightarrow> (Inl (why @ ''; and no rollback target exists: '' @ e), w2)
           | (Inr reverted, w2) \<Rightarrow>
               (case launch E reverted w2 of
                  (Inl e, w3) \<Rightarrow>
                    (Inl (why @ ''; rolled back to '' @ quoted reverted @ '' but it did not start: '' @ e), w3)
                | (Inr _, w3) \<Rightarrow>
                    (let detail = why @ ''; rolled back to '' @ quoted reverted in
                     (Inl detail, set_detail detail w3)))))"

definition resume ::
    "'a engine_scheme parts \<Rightarrow> string \<Rightarrow> 'a engine_scheme \<Rightarrow> unit expected \<times> 'a engine_scheme" where
  "resume E release_id w =
     (case read_record (json E) (install_opts E) w of
        (Inl e, w1) \<Rightarrow> (Inl e, w1)
      | (Inr recorded, w1) \<Rightarrow>
          if record_process recorded \<le> 0 then (Inr (), w1)
          else
            (case boot_identity w1 of
               (Inl e, w2) \<Rightarrow> (Inl e, w2)
             | (Inr identity, w2) \<Rightarrow>
                 if identity \<noteq> record_boot recorded then
                   clear_record (install_opts E)
                     (set_detail (''the recorded instance of '' @ quoted (record_release recorded) @
                        '' belongs to an earlier boot'') w2)
                 else
                   (case sup_adopt (supervisor E)
                       \<lparr>handle_id = record_process recorded, start_token = record_token recorded\<rparr> w2 of
                      (Inl e, w3) \<Rightarrow>
                        clear_record (install_opts E)
                          (set_detail (''the recorded instance of '' @ quoted (record_release recorded) @
                             '' is gone: '' @ e) w3)
                    | (Inr taken, w3) \<Rightarrow>
                        (let w4 = w3\<lparr>engine_handle := Some taken\<rparr> in
                         if record_release recorded = release_id then
                           (Inr (), set_detail (''adopted the running instance of '' @ quoted release_id @
                              '' (pid '' @ int_text (handle_id taken) @ '')'') w4)
                         else
                           (case engine_stop E w4 of
                              (Inl e, w5) \<Rightarrow>
                                (Inl (''cannot stop the adopted instance of '' @
                                      quoted (record_release recorded) @ '': '' @ e), w5)
                            | (Inr _, w5) \<Rightarrow>
                                (Inr (), set_detail (''stopped the adopted instance of '' @
                                   quoted (record_release recorded) @ '' before starting '' @
                                   quoted release_id) w5))))))"

definition configured :: "'w parts \<Rightarrow> bool" where
  "configured E \<longleftrightarrow> has_installer E \<and> has_supervisor E"

definition start_active ::
    "'a engine_scheme parts \<Rightarrow> 'a engine_scheme \<Rightarrow> unit expected \<times> 'a engine_scheme" where
  "start_active E w =
     (if \<not> configured E then (Inl ''deployment engine is not configured'', w)
      else (case installer_state (json E) (install_opts E) w of
        (Inl e, w1) \<Rightarrow> (Inl e, w1)
      | (Inr current, w1) \<Rightarrow>
          if active current = '''' then (Inl kNoActiveRelease, w1)
          else
            (case resume E (active current) w1 of
               (Inl e, w2) \<Rightarrow> (Inl e, w2)
             | (Inr _, w2) \<Rightarrow>
                 if engine_handle w2 \<noteq> None then (Inr (), w2)
                 else launch E (active current) w2)))"

section \<open>The public operations\<close>

text \<open>The second half of \<open>apply\<close>, with the old process stopped.\<close>

definition switch_over ::
    "'a engine_scheme parts \<Rightarrow> string \<Rightarrow> 'a engine_scheme \<Rightarrow> (unit expected \<times> 'a engine_scheme) option" where
  "switch_over E release_id w =
     (case activate (json E) (install_opts E) release_id w of
        (Inl e, w1) \<Rightarrow>
          (case start_active E w1 of
             (restored, w2) \<Rightarrow>
               Some (Inl (''cannot activate '' @ quoted release_id @ '': '' @ e @
                 (if is_ok restored then '' (previous release restarted)''
                  else '' (previous release did not restart)'')), w2))
      | (Inr _, w1) \<Rightarrow>
          (case launch E release_id w1 of
             (Inl e, w2) \<Rightarrow> Some (recover E (''cannot start '' @ quoted release_id @ '': '' @ e) w2)
           | (Inr _, w2) \<Rightarrow>
               (case await_ready E w2 of
                  None \<Rightarrow> None
                | Some (Inl e, w3) \<Rightarrow>
                    Some (recover E (quoted release_id @ '' did not become ready: '' @ e) w3)
                | Some (Inr _, w3) \<Rightarrow>
                    (case prune (json E) (install_opts E) w3 of
                       (pruned, w4) \<Rightarrow>
                         Some (Inr (), set_detail (''applied release '' @ quoted release_id @
                           (case pruned of
                              Inr n \<Rightarrow> '' (pruned '' @ nat_text (unat n) @ '' old release(s))''
                            | Inl e \<Rightarrow> '''')) w4)))))"

definition deploy_apply ::
    "'a engine_scheme parts \<Rightarrow> string \<Rightarrow> string \<Rightarrow> 'a engine_scheme \<Rightarrow>
       (unit expected \<times> 'a engine_scheme) option" where
  "deploy_apply E release_id source_directory w =
     (if \<not> configured E then Some (Inl ''deployment engine is not configured'', w)
      else (case validate_service_executable (service E) of
        Inl e \<Rightarrow> Some (Inl e, w)
      | Inr _ \<Rightarrow>
          (case install (install_opts E) release_id source_directory w of
             (Inl e, w1) \<Rightarrow> Some (Inl e, w1)
           | (Inr _, w1) \<Rightarrow>
               (case installer_state (json E) (install_opts E) w1 of
                  (Inl e, w2) \<Rightarrow> Some (Inl e, w2)
                | (Inr before, w2) \<Rightarrow>
                    (case engine_stop E w2 of
                       (Inl e, w3) \<Rightarrow> Some (Inl (''cannot stop the running service: '' @ e), w3)
                     | (Inr _, w3) \<Rightarrow> switch_over E release_id w3)))))"

definition rollback_to ::
    "'a engine_scheme parts \<Rightarrow> string \<Rightarrow> 'a engine_scheme \<Rightarrow> unit expected \<times> 'a engine_scheme" where
  "rollback_to E release_id w =
     (if \<not> configured E then (Inl ''deployment engine is not configured'', w)
      else (case validate_service_executable (service E) of
        Inl e \<Rightarrow> (Inl e, w)
      | Inr _ \<Rightarrow>
          (case fs_is_directory (at w (release_directory (install_opts E) release_id)) w of
             (False, w1) \<Rightarrow>
               (Inl (''cannot roll back to '' @ quoted release_id @ '': it is not installed''), w1)
           | (True, w1) \<Rightarrow>
               (case engine_stop E w1 of
                  (Inl e, w2) \<Rightarrow> (Inl (''cannot stop the running service: '' @ e), w2)
                | (Inr _, w2) \<Rightarrow>
                    (case activate (json E) (install_opts E) release_id w2 of
                       (Inl e, w3) \<Rightarrow> (Inl e, w3)
                     | (Inr _, w3) \<Rightarrow>
                         (case launch E release_id w3 of
                            (Inl e, w4) \<Rightarrow>
                              (Inl (''rolled back to '' @ quoted release_id @ '' but it did not start: '' @ e), w4)
                          | (Inr _, w4) \<Rightarrow>
                              (Inr (), set_detail (''rolled back to release '' @ quoted release_id) w4)))))))"

definition restart ::
    "'a engine_scheme parts \<Rightarrow> 'a engine_scheme \<Rightarrow> (unit expected \<times> 'a engine_scheme) option" where
  "restart E w =
     (if \<not> configured E then Some (Inl ''deployment engine is not configured'', w)
      else (case validate_service_executable (service E) of
        Inl e \<Rightarrow> Some (Inl e, w)
      | Inr _ \<Rightarrow>
          (case installer_state (json E) (install_opts E) w of
             (Inl e, w1) \<Rightarrow> Some (Inl e, w1)
           | (Inr current, w1) \<Rightarrow>
               if active current = '''' then Some (Inl kNoActiveRelease, w1)
               else
                 (case engine_stop E w1 of
                    (Inl e, w2) \<Rightarrow> Some (Inl (''cannot stop the running service: '' @ e), w2)
                  | (Inr _, w2) \<Rightarrow>
                      (case launch E (active current) w2 of
                         (Inl e, w3) \<Rightarrow>
                           Some (Inl (quoted (active current) @ '' did not restart: '' @ e), w3)
                       | (Inr _, w3) \<Rightarrow>
                           (case await_ready E w3 of
                              None \<Rightarrow> None
                            | Some (Inl e, w4) \<Rightarrow>
                                Some (Inl (quoted (active current) @
                                  '' restarted but did not become ready: '' @ e), w4)
                            | Some (Inr _, w4) \<Rightarrow>
                                Some (Inr (), set_detail (''restarted release '' @ quoted (active current)) w4)))))))"

end
