(* ===== verification/AgentService.thy ===== *)
theory AgentService
  imports AgentMessage ArtifactKey ReleaseManifest ArtifactStore SystemControl Deployment
begin

text \<open>
  \<open>YirangAgent/AgentService.cpp\<close>: the service that handles one command message after the other,
  the eight handlers and the report of each outcome.

  The mutable members of the service are the record \<open>agent\<close>; the world (the machine, its
  processes, the engine's members) is a second state that the service shares with the engine, the
  artifact store, the publisher and the operating system. What the constructor gets is the record
  \<open>agent_parts\<close>; a null pointer is \<open>None\<close>. The SDKs behind the store and the publisher, the digest
  and the JSON library and what the system answers about the disk are its fields. A handler that
  waits for readiness may not end; then its value is \<open>None\<close>. Log lines are not modelled.
\<close>

section \<open>State and parts\<close>

record agent_options =
  device_id :: string
  device_group :: string
  version_root :: string
  agent_service_root :: string
  result_queue_url :: string

record agent =
  last_report :: string
  failure_is_permanent :: bool
  failing_message :: string
  failing_attempts :: "32 word"

definition new_agent :: agent where
  "new_agent = \<lparr>last_report = '''', failure_is_permanent = False, failing_message = '''',
     failing_attempts = 0\<rparr>"

definition kMaxTransientAttempts :: "32 word" where "kMaxTransientAttempts = 5"

record space_info =
  capacity :: "64 word"
  free :: "64 word"
  available :: "64 word"

record ('c, 'w) agent_parts =
  agent_json :: json_lib
  agent_digest :: "'c digest_lib"
  agent_opts :: agent_options
  store :: "'w artifact_store option"
  publisher :: "(string \<Rightarrow> string \<Rightarrow> 'w \<Rightarrow> unit expected \<times> 'w) option"
  agent_deployment :: "'w parts option"
  system_control :: "('w \<Rightarrow> unit expected \<times> 'w) option"
  disk_space :: "string \<Rightarrow> 'w \<Rightarrow> space_info expected \<times> 'w"
  hardware_concurrency :: "32 word"

type_synonym 'w outcome = "unit expected \<times> agent \<times> 'w"

definition permanent :: "string \<Rightarrow> agent \<Rightarrow> 'w \<Rightarrow> 'w outcome" where
  "permanent why a w = (Inl why, a\<lparr>failure_is_permanent := True\<rparr>, w)"

definition transient :: "string \<Rightarrow> agent \<Rightarrow> 'w \<Rightarrow> 'w outcome" where
  "transient why a w = (Inl why, a, w)"

definition succeed :: "string \<Rightarrow> agent \<Rightarrow> 'w \<Rightarrow> 'w outcome" where
  "succeed detail a w = (Inr (), a\<lparr>last_report := detail\<rparr>, w)"

definition no_engine :: string where
  "no_engine = ''deployment engine is not configured (service_root or service.executable is missing)''"

section \<open>Helpers\<close>

definition payload_string :: "json_object \<Rightarrow> string \<Rightarrow> string expected" where
  "payload_string obj key =
     (case string_field obj key of
        None \<Rightarrow> Inl (''payload field '' @ quoted key @ '' is missing or not a string'')
      | Some s \<Rightarrow> Inr s)"

definition payload_object :: "json_lib \<Rightarrow> string \<Rightarrow> json_object expected" where
  "payload_object L text_in =
     (case parse_text L text_in of
        Inl e \<Rightarrow> Inl (''cannot parse payload: '' @ e)
      | Inr (JObject obj) \<Rightarrow> Inr obj
      | Inr _ \<Rightarrow> Inl ''payload is not a JSON object'')"

definition read_json_object ::
    "json_lib \<Rightarrow> string \<Rightarrow> 'a machine_scheme \<Rightarrow> json_object expected \<times> 'a machine_scheme" where
  "read_json_object L path w =
     (case fs_read (at w path) w of
        (None, w1) \<Rightarrow> (Inl (''cannot open '' @ quoted path), w1)
      | (Some content, w1) \<Rightarrow>
          (case parse_text L content of
             Inl e \<Rightarrow> (Inl (''cannot parse '' @ quoted path @ '': '' @ e), w1)
           | Inr (JObject obj) \<Rightarrow> (Inr obj, w1)
           | Inr _ \<Rightarrow> (Inl (quoted path @ '' is not a JSON object''), w1)))"

text \<open>
  \<open>target[key] = value\<close> replaces the member in its place or adds it at the end, which is
  \<open>AList.update\<close>. The counter is the unsigned 32-bit one of the code.
\<close>

function merge_object :: "json_lib \<Rightarrow> json_object \<Rightarrow> json_object \<Rightarrow> json_object \<times> 32 word" where
  "merge_object L target [] = (target, 0)"
| "merge_object L target ((key, value) # changes) =
     (case (map_of target key, value) of
        (Some (JObject inner), JObject nested) \<Rightarrow>
          (case merge_object L inner nested of
             (inner', n) \<Rightarrow>
               (case merge_object L (AList.update key (JObject inner') target) changes of
                  (target', m) \<Rightarrow> (target', n + m)))
      | (Some existing, _) \<Rightarrow>
          if values_equal L existing value then merge_object L target changes
          else (case merge_object L (AList.update key value target) changes of
                  (target', m) \<Rightarrow> (target', 1 + m))
      | (None, _) \<Rightarrow>
          (case merge_object L (AList.update key value target) changes of
             (target', m) \<Rightarrow> (target', 1 + m)))"
  by pat_completeness auto
termination
  by (relation "measure (\<lambda>(L, target, changes). size_list (size_prod (\<lambda>_. 0) size) changes)") auto

definition write_json_object ::
    "json_lib \<Rightarrow> string \<Rightarrow> json_object \<Rightarrow> 'a machine_scheme \<Rightarrow> unit expected \<times> 'a machine_scheme" where
  "write_json_object L path document w =
     (let temporary = path @ ''.tmp'' in
      case fs_write (at w temporary) (serialize_value L (JObject document)) w of
        (NotOpened, w1) \<Rightarrow> (Inl (''cannot open '' @ quoted temporary @ '' for writing''), w1)
      | (NotWritten, w1) \<Rightarrow>
          (Inl (''cannot write '' @ quoted temporary), snd (fs_remove (at w1 temporary) w1))
      | (Written, w1) \<Rightarrow>
          (case fs_rename (at w1 temporary) (at w1 path) w1 of
             (Inl e, w2) \<Rightarrow>
               (Inl (''cannot replace '' @ quoted path @ '': '' @ e),
                snd (fs_remove (at w2 temporary) w2))
           | (Inr _, w2) \<Rightarrow> (Inr (), w2)))"

definition validated_release_id :: "json_object \<Rightarrow> string expected" where
  "validated_release_id obj =
     (case payload_string obj ''release_id'' of
        Inl e \<Rightarrow> Inl e
      | Inr release_id \<Rightarrow>
          (case validate_release_id release_id of Inl e \<Rightarrow> Inl e | Inr _ \<Rightarrow> Inr release_id))"

definition version_directory :: "agent_options \<Rightarrow> string \<Rightarrow> string" where
  "version_directory opts release_id = path_append (version_root opts) release_id"

section \<open>\<open>download_version\<close>\<close>

text \<open>
  One artifact: the fields of the element with the object key, then the download and the check of
  the digest.
\<close>

definition artifact_fields :: "string \<Rightarrow> json \<Rightarrow> (string \<times> string \<times> string) expected" where
  "artifact_fields release_id element =
     (case element of
        JObject entry \<Rightarrow>
          (case payload_string entry ''install_path'' of
             Inl e \<Rightarrow> Inl e
           | Inr path \<Rightarrow>
               (case payload_string entry ''sha256'' of
                  Inl e \<Rightarrow> Inl e
                | Inr expected \<Rightarrow>
                    (case make_object_key release_id path of
                       Inl e \<Rightarrow> Inl e
                     | Inr key \<Rightarrow> Inr (path, expected, key))))
      | _ \<Rightarrow> Inl ''artifact entry is not an object'')"

definition fetch_artifact ::
    "('c, 'a machine_scheme) agent_parts \<Rightarrow> 'a machine_scheme artifact_store \<Rightarrow> string \<Rightarrow>
       string \<times> string \<times> string \<Rightarrow> agent \<Rightarrow> 'a machine_scheme \<Rightarrow> 'a machine_scheme outcome" where
  "fetch_artifact P st target item a w =
     (case item of
        (path, expected, key) \<Rightarrow>
          let destination = path_append target path in
          (case download st key destination w of
             (Inl e, w1) \<Rightarrow>
               (case object_exists st key w1 of
                  (Inr False, w2) \<Rightarrow>
                    permanent (''artifact '' @ quoted key @ '' does not exist in the store'') a w2
                | (_, w2) \<Rightarrow> transient e a w2)
           | (Inr _, w1) \<Rightarrow>
               (case file_sha256 (agent_digest P) destination w1 of
                  (Inl e, w2) \<Rightarrow> transient e a w2
                | (Inr actual, w2) \<Rightarrow>
                    if actual \<noteq> expected then
                      permanent (''sha256 mismatch for '' @ quoted path @ '': expected '' @ expected @
                        '', got '' @ actual) a w2
                    else (Inr (), a, w2))))"

text \<open>
  The loop over the artifacts. A failure inside it ends the handler; \<open>PartialDownloadGuard\<close> then
  removes the version directory, whatever was in it before, and ignores an error of that.
\<close>

fun download_artifacts ::
    "('c, 'a machine_scheme) agent_parts \<Rightarrow> 'a machine_scheme artifact_store \<Rightarrow> string \<Rightarrow> string \<Rightarrow>
       json list \<Rightarrow> agent \<Rightarrow> 'a machine_scheme \<Rightarrow> 'a machine_scheme outcome" where
  "download_artifacts P st release_id target [] a w = (Inr (), a, w)"
| "download_artifacts P st release_id target (element # elements) a w =
     (case artifact_fields release_id element of
        Inl e \<Rightarrow> permanent e a w
      | Inr item \<Rightarrow>
          (case fetch_artifact P st target item a w of
             (Inl e, a1, w1) \<Rightarrow> (Inl e, a1, w1)
           | (Inr _, a1, w1) \<Rightarrow> download_artifacts P st release_id target elements a1 w1))"

definition download_into ::
    "('c, 'a machine_scheme) agent_parts \<Rightarrow> 'a machine_scheme artifact_store \<Rightarrow> string \<Rightarrow>
       json list \<Rightarrow> agent \<Rightarrow> 'a machine_scheme \<Rightarrow> 'a machine_scheme outcome" where
  "download_into P st release_id elements a w =
     (let target = version_directory (agent_opts P) release_id in
      case fs_create_directories (at w target) w of
        (Inl e, w1) \<Rightarrow>
          transient (''cannot create version directory '' @ quoted target @ '': '' @ e) a w1
      | (Inr _, w1) \<Rightarrow>
          (case download_artifacts P st release_id target elements a w1 of
             (Inl e, a1, w2) \<Rightarrow> (Inl e, a1, snd (fs_remove_all (at w2 target) w2))
           | (Inr _, a1, w2) \<Rightarrow>
               succeed (''downloaded release '' @ quoted release_id @ '' into '' @ quoted target) a1 w2))"

definition download_version ::
    "('c, 'a machine_scheme) agent_parts \<Rightarrow> string \<Rightarrow> agent \<Rightarrow> 'a machine_scheme \<Rightarrow>
       'a machine_scheme outcome" where
  "download_version P message a w =
     (case store P of
        None \<Rightarrow> permanent ''artifact store is not configured'' a w
      | Some st \<Rightarrow>
          if version_root (agent_opts P) = '''' then permanent ''version_root is not configured'' a w
          else
            (case payload_object (agent_json P) message of
               Inl e \<Rightarrow> permanent e a w
             | Inr obj \<Rightarrow>
                 (case validated_release_id obj of
                    Inl e \<Rightarrow> permanent e a w
                  | Inr release_id \<Rightarrow>
                      (case array_field obj ''artifacts'' of
                         None \<Rightarrow>
                           permanent (''payload field '' @ quoted ''artifacts'' @ '' is missing or not an array'') a w
                       | Some elements \<Rightarrow>
                           if elements = [] then
                             permanent (''payload field '' @ quoted ''artifacts'' @ '' must not be empty'') a w
                           else download_into P st release_id elements a w))))"

section \<open>\<open>clean_old_version\<close>\<close>

text \<open>
  \<open>std::filesystem::weakly_canonical (p, error)\<close>: the position of an absolute path, or an empty
  path when a call fails. Two empty paths are equal.
\<close>

definition fs_canonical :: "string \<Rightarrow> 'a machine_scheme \<Rightarrow> fpath option \<times> 'a machine_scheme" where
  "fs_canonical p w =
     (case take_fault w of (Some f, w1) \<Rightarrow> (None, w1) | (None, w1) \<Rightarrow> (Some (at w1 p), w1))"

definition roots_collide :: "agent_options \<Rightarrow> 'a machine_scheme \<Rightarrow> bool \<times> 'a machine_scheme" where
  "roots_collide opts w =
     (if agent_service_root opts = '''' then (False, w)
      else
        (case fs_canonical (version_root opts) w of
           (v, w1) \<Rightarrow>
             (case fs_canonical (agent_service_root opts) w1 of (s, w2) \<Rightarrow> (v = s, w2))))"

fun remove_versions ::
    "string \<Rightarrow> string list \<Rightarrow> 32 word \<Rightarrow> 'a machine_scheme \<Rightarrow> 32 word expected \<times> 'a machine_scheme" where
  "remove_versions root [] removed w = (Inr removed, w)"
| "remove_versions root (name # names) removed w =
     (case fs_remove_all (at w root @ [name]) w of
        (Inl e, w1) \<Rightarrow> (Inl (''cannot remove '' @ quoted (path_append root name) @ '': '' @ e), w1)
      | (Inr _, w1) \<Rightarrow>
          (case take_fault w1 of
             (Some f, w2) \<Rightarrow> (Inl (''cannot walk '' @ quoted root @ '': '' @ reason f), w2)
           | (None, w2) \<Rightarrow> remove_versions root names (removed + 1) w2))"

definition clean_old_version ::
    "('c, 'a machine_scheme) agent_parts \<Rightarrow> string \<Rightarrow> agent \<Rightarrow> 'a machine_scheme \<Rightarrow>
       'a machine_scheme outcome" where
  "clean_old_version P message a w =
     (let root = version_root (agent_opts P) in
      if root = '''' then permanent ''version_root is not configured'' a w
      else
        (case fs_is_directory (at w root) w of
           (False, w1) \<Rightarrow>
             succeed (''version_root '' @ quoted root @ '' is not a directory'' @ em_dash @
               ''nothing to clean'') a w1
         | (True, w1) \<Rightarrow>
             (case roots_collide (agent_opts P) w1 of
                (True, w2) \<Rightarrow> permanent ''version_root must not be the same as service_root'' a w2
              | (False, w2) \<Rightarrow>
                  (case fs_list (at w2 root) w2 of
                     (Inl e, w3) \<Rightarrow> transient (''cannot list '' @ quoted root @ '': '' @ e) a w3
                   | (Inr names, w3) \<Rightarrow>
                       (case remove_versions root names 0 w3 of
                          (Inl e, w4) \<Rightarrow> transient e a w4
                        | (Inr removed, w4) \<Rightarrow>
                            succeed (''removed '' @ nat_text (unat removed) @
                              '' version directories from '' @ quoted root) a w4)))))"

section \<open>\<open>current_status\<close>\<close>

lemma parent_path_shorter:
  assumes "parent_path t \<noteq> t"
  shows "length (parent_path t) < length t"
proof -
  define d where "d = dropWhile (\<lambda>c. c \<noteq> CHR ''/'') (rev t)"
  define e where "e = dropWhile (\<lambda>c. c = CHR ''/'') d"
  have p: "parent_path t = (if e = [] \<and> d \<noteq> [] then ''/'' else rev e)"
    unfolding parent_path_def Let_def d_def e_def by (simp split: if_split)
  obtain u where u: "rev t = u @ d" unfolding d_def by (metis takeWhile_dropWhile_id)
  obtain v where v: "d = v @ e" unfolding e_def by (metis takeWhile_dropWhile_id)
  show ?thesis
  proof (cases "e = [] \<and> d \<noteq> []")
    case False
    have "u @ v \<noteq> []"
    proof
      assume "u @ v = []"
      then have "rev t = e" using u v by simp
      then have "rev e = t" by auto
      then show False using p False assms by simp
    qed
    then show ?thesis using arg_cong [OF u, of length] v p False by auto
  next
    case True
    then obtain c d' where c: "d = c # d'" by (cases d) auto
    then have "dropWhile (\<lambda>c. c \<noteq> CHR ''/'') (rev t) = c # d'" by (simp add: d_def)
    then have slash: "c = CHR ''/''" by (simp add: dropWhile_eq_Cons_conv)
    have "u \<noteq> [] \<or> d' \<noteq> []"
    proof (rule ccontr)
      assume "\<not> ?thesis"
      then have "rev t = ''/''" using u c slash by simp
      then have "t = ''/''" by auto
      then show False using p True assms by simp
    qed
    then show ?thesis using arg_cong [OF u, of length] c p True by auto
  qed
qed

text \<open>Up the path to the first directory that exists, as far as there is a parent.\<close>

function existing_ancestor :: "string \<Rightarrow> 'a machine_scheme \<Rightarrow> string \<times> 'a machine_scheme" where
  "existing_ancestor target w =
     (if target = '''' then (target, w)
      else
        (case fs_exists (at w target) w of
           (True, w1) \<Rightarrow> (target, w1)
         | (False, w1) \<Rightarrow>
             if parent_path target \<noteq> '''' \<and> parent_path target \<noteq> target
             then existing_ancestor (parent_path target) w1
             else (target, w1)))"
  by pat_completeness auto
termination
  by (relation "measure (\<lambda>(t, w). length t)") (auto simp: parent_path_shorter)

declare existing_ancestor.simps [simp del]

definition fs_current_path :: "'a machine_scheme \<Rightarrow> string \<times> 'a machine_scheme" where
  "fs_current_path w =
     (case take_fault w of
        (Some f, w1) \<Rightarrow> ('''', w1)
      | (None, w1) \<Rightarrow> (''/'' @ path_text (cwd w1), w1))"

definition disk_probe_path :: "agent_options \<Rightarrow> 'a machine_scheme \<Rightarrow> string \<times> 'a machine_scheme" where
  "disk_probe_path opts w =
     (case (if version_root opts = '''' then fs_current_path w else (version_root opts, w)) of
        (start_at, w1) \<Rightarrow>
          (case existing_ancestor start_at w1 of
             (target, w2) \<Rightarrow>
               if target = '''' then fs_current_path w2
               else
                 (case fs_exists (at w2 target) w2 of
                    (True, w3) \<Rightarrow> (target, w3)
                  | (False, w3) \<Rightarrow> fs_current_path w3)))"

text \<open>The walk over the version directories: the names found and the error that ended it.\<close>

fun collect_versions ::
    "fpath \<Rightarrow> string list \<Rightarrow> string list \<Rightarrow> 'a machine_scheme \<Rightarrow>
       (string list \<times> string option) \<times> 'a machine_scheme" where
  "collect_versions root [] found w = ((found, None), w)"
| "collect_versions root (name # names) found w =
     (let found' = (if lookup (files w) (root @ [name]) = Some Directory then found @ [name] else found)
      in case take_fault w of
           (Some f, w1) \<Rightarrow> ((found', Some (reason f)), w1)
         | (None, w1) \<Rightarrow> collect_versions root names found' w1)"

definition downloaded_versions ::
    "agent_options \<Rightarrow> 'a machine_scheme \<Rightarrow> (string list \<times> string option) \<times> 'a machine_scheme" where
  "downloaded_versions opts w =
     (let root = version_root opts in
      if root = '''' then (([], None), w)
      else
        (case fs_is_directory (at w root) w of
           (False, w1) \<Rightarrow> (([], None), w1)
         | (True, w1) \<Rightarrow>
             (case fs_list (at w1 root) w1 of
                (Inl e, w2) \<Rightarrow> (([], Some e), w2)
              | (Inr names, w2) \<Rightarrow> collect_versions (at w2 root) names [] w2)))"

definition status_json ::
    "('c, 'w) agent_parts \<Rightarrow> string \<Rightarrow> space_info \<Rightarrow> string list \<times> string option \<Rightarrow> json" where
  "status_json P target space versions =
     JObject ([(''device_id'', JString (device_id (agent_opts P))),
       (''group'', JString (device_group (agent_opts P))),
       (''version_root'', JString (version_root (agent_opts P))),
       (''disk_probe_path'', JString target),
       (''disk_capacity_bytes'', JUint64 (capacity space)),
       (''disk_free_bytes'', JUint64 (free space)),
       (''disk_available_bytes'', JUint64 (available space)),
       (''hardware_concurrency'', JUint64 (ucast (hardware_concurrency P)))] @
       (case snd versions of None \<Rightarrow> [] | Some e \<Rightarrow> [(''downloaded_versions_error'', JString e)]) @
       [(''downloaded_versions'', JArray (map JString (fst versions)))])"

definition current_status ::
    "('c, 'a machine_scheme) agent_parts \<Rightarrow> string \<Rightarrow> agent \<Rightarrow> 'a machine_scheme \<Rightarrow>
       'a machine_scheme outcome" where
  "current_status P message a w =
     (case disk_probe_path (agent_opts P) w of
        (target, w1) \<Rightarrow>
          (case disk_space P target w1 of
             (Inl e, w2) \<Rightarrow>
               transient (''cannot query disk space for '' @ quoted target @ '': '' @ e) a w2
           | (Inr space, w2) \<Rightarrow>
               (case downloaded_versions (agent_opts P) w2 of
                  (versions, w3) \<Rightarrow>
                    succeed (serialize_value (agent_json P) (status_json P target space versions)) a w3)))"

section \<open>The handlers of the engine\<close>

definition apply_version ::
    "('c, 'a engine_scheme) agent_parts \<Rightarrow> string \<Rightarrow> agent \<Rightarrow> 'a engine_scheme \<Rightarrow>
       'a engine_scheme outcome option" where
  "apply_version P message a w =
     (case payload_object (agent_json P) message of
        Inl e \<Rightarrow> Some (permanent e a w)
      | Inr obj \<Rightarrow>
          (case validated_release_id obj of
             Inl e \<Rightarrow> Some (permanent e a w)
           | Inr release_id \<Rightarrow>
               (case agent_deployment P of
                  None \<Rightarrow> Some (permanent no_engine a w)
                | Some E \<Rightarrow>
                    (let source = version_directory (agent_opts P) release_id in
                     case fs_is_directory (at w source) w of
                       (False, w1) \<Rightarrow>
                         Some (permanent (''version '' @ quoted release_id @ '' is not downloaded (expected '' @
                           quoted source @ '')'') a w1)
                     | (True, w1) \<Rightarrow>
                         (case deploy_apply E release_id source w1 of
                            None \<Rightarrow> None
                          | Some (Inl e, w2) \<Rightarrow> Some (permanent e a w2)
                          | Some (Inr _, w2) \<Rightarrow> Some (succeed (last_detail w2) a w2))))))"

definition rollback_version ::
    "('c, 'a engine_scheme) agent_parts \<Rightarrow> string \<Rightarrow> agent \<Rightarrow> 'a engine_scheme \<Rightarrow>
       'a engine_scheme outcome" where
  "rollback_version P message a w =
     (case payload_object (agent_json P) message of
        Inl e \<Rightarrow> permanent e a w
      | Inr obj \<Rightarrow>
          (case validated_release_id obj of
             Inl e \<Rightarrow> permanent e a w
           | Inr release_id \<Rightarrow>
               (case agent_deployment P of
                  None \<Rightarrow> permanent no_engine a w
                | Some E \<Rightarrow>
                    (case rollback_to E release_id w of
                       (Inl e, w1) \<Rightarrow> permanent e a w1
                     | (Inr _, w1) \<Rightarrow> succeed (last_detail w1) a w1))))"

text \<open>The second half of \<open>update_configuration\<close>, with the payload checked.\<close>

definition merge_into_file ::
    "json_lib \<Rightarrow> string \<Rightarrow> string \<Rightarrow> json_object \<Rightarrow> agent \<Rightarrow> 'a machine_scheme \<Rightarrow>
       'a machine_scheme outcome" where
  "merge_into_file L release_root relative values a w =
     (let target = path_append release_root relative in
      case fs_is_regular_file (at w target) w of
        (False, w1) \<Rightarrow>
          permanent (''configuration '' @ quoted relative @ '' is not a file in the active release'') a w1
      | (True, w1) \<Rightarrow>
          (case read_json_object L target w1 of
             (Inl e, w2) \<Rightarrow> permanent e a w2
           | (Inr document, w2) \<Rightarrow>
               (case merge_object L document values of
                  (merged, changed) \<Rightarrow>
                    (case write_json_object L target merged w2 of
                       (Inl e, w3) \<Rightarrow> transient e a w3
                     | (Inr _, w3) \<Rightarrow>
                         succeed (''updated '' @ nat_text (unat changed) @ '' key(s) in '' @
                           quoted relative @ em_dash @
                           ''the service reads it on the next start (restart_service)'') a w3))))"

definition update_configuration ::
    "('c, 'a engine_scheme) agent_parts \<Rightarrow> string \<Rightarrow> agent \<Rightarrow> 'a engine_scheme \<Rightarrow>
       'a engine_scheme outcome" where
  "update_configuration P message a w =
     (case payload_object (agent_json P) message of
        Inl e \<Rightarrow> permanent e a w
      | Inr obj \<Rightarrow>
          (case payload_string obj ''path'' of
             Inl e \<Rightarrow> permanent e a w
           | Inr relative \<Rightarrow>
               (case validate_release_relative_path relative ''path'' of
                  Inl e \<Rightarrow> permanent e a w
                | Inr _ \<Rightarrow>
                    (case object_field obj ''values'' of
                       None \<Rightarrow> permanent (''payload requires a '' @ quoted ''values'' @ '' object'') a w
                     | Some values \<Rightarrow>
                         (case agent_deployment P of
                            None \<Rightarrow> permanent no_engine a w
                          | Some E \<Rightarrow>
                              (case active_release_directory E w of
                                 (Inl e, w1) \<Rightarrow> permanent e a w1
                               | (Inr release_root, w1) \<Rightarrow>
                                   merge_into_file (agent_json P) release_root relative values a w1))))))"

definition restart_service ::
    "('c, 'a engine_scheme) agent_parts \<Rightarrow> string \<Rightarrow> agent \<Rightarrow> 'a engine_scheme \<Rightarrow>
       'a engine_scheme outcome option" where
  "restart_service P message a w =
     (case agent_deployment P of
        None \<Rightarrow> Some (permanent no_engine a w)
      | Some E \<Rightarrow>
          (case restart E w of
             None \<Rightarrow> None
           | Some (Inl e, w1) \<Rightarrow> Some (permanent e a w1)
           | Some (Inr _, w1) \<Rightarrow> Some (succeed (last_detail w1) a w1)))"

definition reboot_device :: "('c, 'w) agent_parts \<Rightarrow> string \<Rightarrow> agent \<Rightarrow> 'w \<Rightarrow> 'w outcome" where
  "reboot_device P message a w =
     (case system_control P of
        None \<Rightarrow> permanent ''rebooting is not available on this platform'' a w
      | Some request \<Rightarrow>
          (case request w of
             (Inl e, w1) \<Rightarrow> permanent e a w1
           | (Inr _, w1) \<Rightarrow>
               succeed (''reboot scheduled in '' @ nat_text kRebootDelayMinutes @ '' minute(s)'') a w1))"

section \<open>Handling a message\<close>

type_synonym 'w handler = "string \<Rightarrow> agent \<Rightarrow> 'w \<Rightarrow> 'w outcome option"

text \<open>The map \<open>messages_\<close> as the constructor fills it.\<close>

definition messages ::
    "('c, 'a engine_scheme) agent_parts \<Rightarrow> (string \<times> 'a engine_scheme handler) list" where
  "messages P =
     [(kDownloadVersion, \<lambda>m a w. Some (download_version P m a w)),
      (kApplyVersion, apply_version P),
      (kCurrentStatus, \<lambda>m a w. Some (current_status P m a w)),
      (kCleanOldVersion, \<lambda>m a w. Some (clean_old_version P m a w)),
      (kRollbackVersion, \<lambda>m a w. Some (rollback_version P m a w)),
      (kUpdateConfiguration, \<lambda>m a w. Some (update_configuration P m a w)),
      (kRestartService, restart_service P),
      (kRebootDevice, \<lambda>m a w. Some (reboot_device P m a w))]"

definition record_failure :: "string \<Rightarrow> agent \<Rightarrow> 32 word \<times> agent" where
  "record_failure raw a =
     (let a1 = (if failing_message a \<noteq> raw then a\<lparr>failing_message := raw, failing_attempts := 0\<rparr> else a);
          a2 = a1\<lparr>failing_attempts := failing_attempts a1 + 1\<rparr>
      in (failing_attempts a2, a2))"

definition forget_failure :: "agent \<Rightarrow> agent" where
  "forget_failure a = a\<lparr>failing_message := '''', failing_attempts := 0\<rparr>"

definition report_json :: "agent_options \<Rightarrow> string \<Rightarrow> unit expected \<Rightarrow> agent \<Rightarrow> json" where
  "report_json opts name result a =
     JObject [(''device_id'', JString (device_id opts)), (''group'', JString (device_group opts)),
       (''command'', JString name), (''success'', JBool (is_ok result)),
       (''detail'', JString (case result of Inr _ \<Rightarrow> last_report a | Inl e \<Rightarrow> e))]"

definition report ::
    "('c, 'w) agent_parts \<Rightarrow> string \<Rightarrow> string \<Rightarrow> unit expected \<Rightarrow> agent \<Rightarrow> 'w \<Rightarrow> 'w" where
  "report P name reply_to result a w =
     (let destination = (if reply_to = '''' then result_queue_url (agent_opts P) else reply_to) in
      case publisher P of
        None \<Rightarrow> w
      | Some send \<Rightarrow>
          if destination = '''' then w
          else snd (send destination
            (serialize_value (agent_json P) (report_json (agent_opts P) name result a)) w))"

text \<open>A message that cannot be handled is reported and consumed.\<close>

definition refuse ::
    "('c, 'w) agent_parts \<Rightarrow> string \<Rightarrow> string \<Rightarrow> string \<Rightarrow> agent \<Rightarrow> 'w \<Rightarrow> 'w outcome" where
  "refuse P name reply_to why a w =
     (Inr (), forget_failure a, report P name reply_to (Inl why) a w)"

text \<open>What \<open>handle\<close> does with the outcome of the handler.\<close>

definition settle_outcome :: "string \<Rightarrow> unit expected \<Rightarrow> agent \<Rightarrow> 'w \<Rightarrow> 'w outcome" where
  "settle_outcome raw result a w =
     (if is_ok result \<or> failure_is_permanent a then (Inr (), forget_failure a, w)
      else
        (case record_failure raw a of
           (attempts, a1) \<Rightarrow>
             if attempts \<ge> kMaxTransientAttempts then (Inr (), forget_failure a1, w)
             else (result, a1, w)))"

definition handle ::
    "('c, 'a engine_scheme) agent_parts \<Rightarrow> string \<Rightarrow> agent \<Rightarrow> 'a engine_scheme \<Rightarrow>
       'a engine_scheme outcome option" where
  "handle P raw a w =
     (case parse_agent_message (agent_json P) raw of
        Inl e \<Rightarrow> Some (refuse P '''' '''' e a w)
      | Inr message \<Rightarrow>
          if target_group message \<noteq> '''' \<and> target_group message \<noteq> device_group (agent_opts P) then
            Some (refuse P (command message) (reply_queue_url message)
              (''command '' @ quoted (command message) @ '' targets group '' @
               quoted (target_group message) @ '' but this device is in group '' @
               quoted (device_group (agent_opts P))) a w)
          else
            (case map_of (messages P) (command message) of
               None \<Rightarrow>
                 Some (refuse P (command message) (reply_queue_url message)
                   (''command is not found: '' @ command message) a w)
             | Some handler \<Rightarrow>
                 (case handler (payload message) (a\<lparr>failure_is_permanent := False\<rparr>) w of
                    None \<Rightarrow> None
                  | Some (result, a1, w1) \<Rightarrow>
                      Some (settle_outcome raw result a1
                        (report P (command message) (reply_queue_url message) result a1 w1)))))"

end
