(* ===== verification/ChildFacts.thy ===== *)
theory ChildFacts
  imports SupervisorFacts
begin

text \<open>
  The children of the agent. Only \<open>start\<close> makes one, no other operation does, and a child that
  \<open>stop\<close> reports as stopped has been waited for. \<open>books w\<close> is the invariant of the supervisor's
  memory: an answer is remembered only for a pid that no child has.
\<close>

definition offspring :: "'a os_scheme \<Rightarrow> int set" where
  "offspring w = {i. \<exists>p. map_of (procs w) i = Some p \<and> is_child p}"

definition books :: "'a os_scheme \<Rightarrow> bool" where
  "books w \<longleftrightarrow>
     distinct (map fst (procs w)) \<and> (\<forall>i \<in> offspring w. 0 < i \<and> i < 2 ^ 31) \<and>
     (\<forall>i s. map_of (finished w) i = Some s \<longrightarrow> pstate s \<noteq> Running \<and> i \<notin> offspring w)"

text \<open>\<open>wards w w'\<close>: the books stay in order and no child is added.\<close>

definition wards :: "'a os_scheme \<Rightarrow> 'a os_scheme \<Rightarrow> bool" where
  "wards w w' \<longleftrightarrow> (books w \<longrightarrow> books w' \<and> offspring w' \<subseteq> offspring w)"

lemma wards_refl [simp]: "wards w w"
  by (simp add: wards_def)

lemma wards_trans: "wards w w1 \<Longrightarrow> wards w1 w2 \<Longrightarrow> wards w w2"
  by (auto simp: wards_def)

lemma wardsI:
  assumes "finished w' = finished w"
    and "books w \<Longrightarrow> distinct (map fst (procs w'))"
    and "\<And>i p. books w \<Longrightarrow> map_of (procs w') i = Some p \<Longrightarrow> is_child p \<Longrightarrow> i \<in> offspring w"
  shows "wards w w'"
  using assms unfolding wards_def books_def by (fastforce simp: offspring_def)

lemma same_os_wards: "same_os w w' \<Longrightarrow> wards w w' \<and> offspring w' = offspring w"
  by (auto simp: same_os_def wards_def books_def offspring_def)

lemma same_os_books: "same_os w w' \<Longrightarrow> books w' = books w"
  by (auto simp: same_os_def books_def offspring_def)

lemma os_sleep_wards: "wards w (os_sleep d w)"
proof (rule wardsI)
  show "finished (os_sleep d w) = finished w" by (rule os_sleep_fields)
  show "distinct (map fst (procs (os_sleep d w)))" if "books w"
    using os_sleep_procs [of d w] evolve_entries(1) that by (auto simp: books_def)
  show "i \<in> offspring w" if "books w" "map_of (procs (os_sleep d w)) i = Some p" "is_child p" for i p
    using os_sleep_procs [of d w]
  proof
    assume "procs (os_sleep d w) = procs w"
    then show ?thesis using that by (auto simp: offspring_def)
  next
    assume "\<exists>m \<in> set (moves w). procs (os_sleep d w) = evolve m (procs w)"
    then obtain m where "procs (os_sleep d w) = evolve m (procs w)" by blast
    then show ?thesis
      using evolve_entries(2) [of "procs w" m i p] that by (auto simp: books_def offspring_def)
  qed
qed

lemma kill_group_wards:
  assumes "kill_group i s w = (r, w')"
  shows "wards w w'"
proof (rule wardsI)
  show "finished w' = finished w"
    using assms by (auto simp: kill_group_def split: option.splits if_splits)
  show "distinct (map fst (procs w'))" if "books w"
    using assms that by (auto simp: kill_group_def books_def distinct_update split: option.splits if_splits)
  show "j \<in> offspring w" if "map_of (procs w') j = Some p" "is_child p" for j p
    using assms that
    by (auto simp: kill_group_def offspring_def update_conv deliver_def split: option.splits if_splits)
qed

lemma waitpid_wards:
  assumes "waitpid i b w = (r, w')"
  shows "wards w w'"
proof (cases r)
  case (Reaped c)
  obtain f w1 where t: "take_fault w = (f, w1)" by fastforce
  have "finished w' = finished w" "procs w' = AList.delete (pid_of i) (procs w)"
    using assms Reaped t take_fault_same [OF t]
    by (auto simp: waitpid_def same_os_def split: option.splits if_splits)
  then show ?thesis
    by (intro wardsI) (auto simp: books_def offspring_def delete_conv distinct_delete split: if_splits)
qed (use assms waitpid_failed(1) waitpid_not_yet_same same_os_wards in blast)+

text \<open>A pid outside the range of \<open>pid_t\<close> is no child, whatever \<open>waitpid\<close> was really asked.\<close>

lemma out_of_range: "books w \<Longrightarrow> \<not> (0 < i \<and> i < 2 ^ 31) \<Longrightarrow> i \<notin> offspring w"
  by (auto simp: books_def)

lemma waitpid_gone:
  assumes "waitpid i b w = (r, w')" "books w" "0 < i" "r = WaitFailed ECHILD \<or> (\<exists>c. r = Reaped c)"
  shows "i \<notin> offspring w'"
proof (cases "i < 2 ^ 31")
  case False
  then show ?thesis using out_of_range waitpid_wards [OF assms(1)] assms(2) by (auto simp: wards_def)
next
  case True
  from assms(4) show ?thesis
  proof
    assume "r = WaitFailed ECHILD"
    then show ?thesis
      using waitpid_failed [OF assms(1) [unfolded \<open>r = _\<close>]] assms(3) True
      by (auto simp: same_os_def offspring_def)
  next
    assume "\<exists>c. r = Reaped c"
    then obtain c where "r = Reaped c" by blast
    then show ?thesis
      using waitpid_reaped(1) [OF assms(1) [unfolded \<open>r = _\<close>] assms(3) True]
      by (auto simp: offspring_def delete_conv)
  qed
qed

lemma remember_wards:
  assumes "i \<notin> offspring w" "pstate s \<noteq> Running"
    and "procs w' = procs w" "finished w' = insert_finished i s (finished w)"
  shows "wards w w'" "offspring w' = offspring w"
  using assms by (auto simp: wards_def books_def offspring_def insert_finished_def split: if_splits)

lemma remember_after:
  assumes "wards w w1" "books w" "i \<notin> offspring w1" "pstate s \<noteq> Running"
    and "procs w' = procs w1" "finished w' = insert_finished i s (finished w1)"
  shows "wards w w' \<and> i \<notin> offspring w'"
  using wards_trans [OF assms(1) remember_wards(1) [OF assms(3,4,5,6)]] remember_wards(2) [OF assms(3,4,5,6)]
    assms(3) by blast

lemma adopted_status_wards:
  assumes "adopted_status h w = (r, w')" "books w" "0 < handle_id h"
  shows "wards w w' \<and> (\<forall>s. r = Inr s \<longrightarrow> pstate s \<noteq> Running \<longrightarrow> handle_id h \<notin> offspring w')"
proof -
  let ?i = "handle_id h"
  obtain x w1 where wp: "waitpid ?i True w = (x, w1)" by fastforce
  note v1 = waitpid_wards [OF wp]
  note none = waitpid_gone [OF wp assms(2,3)]
  show ?thesis
  proof (cases x)
    case NotYet
    then show ?thesis using assms(1) wp v1 by (auto simp: adopted_status_def Let_def)
  next
    case (Reaped c)
    have "r = Inr (to_status c)" "procs w' = procs w1"
      "finished w' = insert_finished ?i (to_status c) (finished w1)"
      using assms(1) wp Reaped by (auto simp: adopted_status_def Let_def settle_adopted_def)
    then show ?thesis using remember_after [OF v1 assms(2)] none Reaped to_status_not_running by blast
  next
    case (WaitFailed e)
    show ?thesis
    proof (cases "e = ECHILD")
      case False
      then show ?thesis using assms(1) wp WaitFailed v1 by (auto simp: adopted_status_def Let_def)
    next
      case True
      note n1 = none [OF disjI1 [OF WaitFailed [unfolded True]]]
      have run: "\<exists>w2. same_os w1 w2 \<and>
          (w' = w2 \<and> (\<forall>s. r = Inr s \<longrightarrow> pstate s = Running) \<or>
           w' = settle_adopted ?i (plain_status Exited) w2)"
        using assms(1) wp WaitFailed True
        by (auto simp: adopted_status_def Let_def dest!: kill_probe_same read_start_token_same
            intro: same_os_trans same_os_trans [OF same_os_trans]
            split: prod.splits sum.splits if_splits)
      then obtain w2 where s2: "same_os w1 w2" and w': "w' = w2 \<and> (\<forall>s. r = Inr s \<longrightarrow> pstate s = Running) \<or>
           w' = settle_adopted ?i (plain_status Exited) w2" by blast
      have v2: "wards w w2" "?i \<notin> offspring w2"
        using wards_trans [OF v1] same_os_wards [OF s2] n1 by auto
      from w' show ?thesis
      proof
        assume "w' = settle_adopted ?i (plain_status Exited) w2"
        then show ?thesis
          using remember_after [OF v2(1) assms(2) v2(2), of "plain_status Exited" w']
          by (simp add: settle_adopted_def)
      qed (use v2 in auto)
    qed
  qed
qed

lemma status_wards:
  assumes "status h w = (r, w')" "books w"
  shows "wards w w' \<and>
    (\<forall>s. r = Inr s \<longrightarrow> pstate s \<noteq> Running \<longrightarrow> handle_id h \<notin> offspring w')"
proof -
  let ?i = "handle_id h"
  show ?thesis
  proof (cases "0 < ?i \<and> map_of (finished w) ?i = None \<and> \<not> adopted ?i w")
    case False
    have "map_of (finished w) ?i = Some s \<Longrightarrow> ?i \<notin> offspring w" for s
      using assms(2) by (auto simp: books_def)
    then show ?thesis
      using assms False adopted_status_wards [of h w r w']
      by (auto simp: status_def Let_def split: option.splits if_splits)
  next
    case True
    obtain x w1 where wp: "waitpid ?i True w = (x, w1)" by fastforce
    note v1 = waitpid_wards [OF wp]
    note none = waitpid_gone [OF wp assms(2)]
    show ?thesis
    proof (cases x)
      case (Reaped c)
      have "r = Inr (to_status c)" "procs w' = procs w1"
        "finished w' = insert_finished ?i (to_status c) (finished w1)"
        using assms(1) wp Reaped True by (auto simp: status_def Let_def)
      then show ?thesis using remember_after [OF v1 assms(2)] none Reaped True to_status_not_running by blast
    qed (use assms(1) wp True v1 none in \<open>auto simp: status_def Let_def split: if_splits\<close>)
  qed
qed

lemma status_books: "status h w = (r, w') \<Longrightarrow> wards w w'"
  using status_wards wards_def by metis
lemma adopted_status_books: "adopted_status h w = (r, w') \<Longrightarrow> 0 < handle_id h \<Longrightarrow> wards w w'"
  using adopted_status_wards wards_def by metis

section \<open>Stopping\<close>

text \<open>\<open>polls q h w r w'\<close>: what a polling loop with answer \<open>r\<close> guarantees.\<close>

definition polls :: "process_handle \<Rightarrow> 'a os_scheme \<Rightarrow> unit expected option \<Rightarrow> 'a os_scheme \<Rightarrow> bool" where
  "polls h w r w' \<longleftrightarrow> wards w w' \<and> (books w \<longrightarrow> r = Some (Inr ()) \<longrightarrow> handle_id h \<notin> offspring w')"

lemma polls_step: "wards w w1 \<Longrightarrow> polls h w1 r w' \<Longrightarrow> polls h w r w'"
  by (auto simp: polls_def wards_def)

lemma stop_poll_polls: "stop_poll h d w = (r, w') \<Longrightarrow> polls h w r w'"
proof (induction h d w arbitrary: r w' rule: stop_poll.induct)
  case (1 h d w)
  obtain x w1 where s: "status h w = (x, w1)" by fastforce
  note e = status_books [OF s]
  show ?case
  proof (cases "\<exists>t. steady w < d \<and> x = Inr t \<and> pstate t = Running")
    case True
    then obtain t where t: "steady w < d" "x = Inr t" "pstate t = Running" by blast
    have "stop_poll h d (os_sleep kPollInterval w1) = (r, w')"
      using "1.prems" s t by (simp add: stop_poll.simps [of h d w])
    then have "polls h (os_sleep kPollInterval w1) r w'"
      using "1.IH" [OF t(1) s [symmetric] t(2)] t(3) by simp
    then show ?thesis using polls_step [OF wards_trans [OF e os_sleep_wards]] by blast
  next
    case False
    then show ?thesis
      using "1.prems" s e status_wards [OF s]
      by (cases x) (auto simp: stop_poll.simps [of h d w] polls_def split: if_splits)
  qed
qed

lemma settle_poll_polls: "settle_poll h d w = (r, w') \<Longrightarrow> 0 < handle_id h \<Longrightarrow> polls h w r w'"
proof (induction h d w arbitrary: r w' rule: settle_poll.induct)
  case (1 h d w)
  obtain x w1 where s: "adopted_status h w = (x, w1)" by fastforce
  note e = adopted_status_books [OF s "1.prems"(2)]
  show ?case
  proof (cases "\<exists>t. steady w < d \<and> x = Inr t \<and> pstate t = Running")
    case True
    then obtain t where t: "steady w < d" "x = Inr t" "pstate t = Running" by blast
    have "settle_poll h d (os_sleep kPollInterval w1) = (r, w')"
      using "1.prems" s t by (simp add: settle_poll.simps [of h d w])
    then have "polls h (os_sleep kPollInterval w1) r w'"
      using "1.IH" [OF t(1) s [symmetric] t(2)] t(3) "1.prems"(2) by simp
    then show ?thesis using polls_step [OF wards_trans [OF e os_sleep_wards]] by blast
  next
    case False
    then show ?thesis
      using "1.prems" s e adopted_status_wards [OF s]
      by (cases x) (auto simp: settle_poll.simps [of h d w] polls_def split: if_splits)
  qed
qed

lemma reap_wards:
  assumes "reap i w = (r, w')" "0 < i"
  shows "wards w w' \<and> (books w \<longrightarrow> is_ok r \<longrightarrow> i \<notin> offspring w')"
proof -
  obtain x w1 where wb: "wait_blocking i w = (x, w1)" by fastforce
  obtain v where v: "x \<noteq> NotYet" "same_os w v" "waitpid i False v = (x, w1)"
    using wait_blocking_result [OF wb] by blast
  have e: "wards w w1" using wards_trans [OF _ waitpid_wards [OF v(3)]] same_os_wards [OF v(2)] by blast
  have none: "books w \<Longrightarrow> x = WaitFailed ECHILD \<or> (\<exists>c. x = Reaped c) \<Longrightarrow> i \<notin> offspring w1"
    using waitpid_gone [OF v(3) _ assms(2)] same_os_books [OF v(2)] by blast
  show ?thesis
  proof (cases x)
    case (Reaped c)
    have "procs w' = procs w1" "finished w' = insert_finished i (to_status c) (finished w1)"
      using assms(1) wb Reaped by (auto simp: reap_def)
    then show ?thesis
      using remember_after [OF e, of i "to_status c" w'] none Reaped to_status_not_running
      by (auto simp: wards_def)
  qed (use assms(1) wb v(1) e none in \<open>auto simp: reap_def split: if_splits\<close>)
qed

lemma settle_wards:
  assumes "settle h t w = (r, w')" "0 < handle_id h"
  shows "wards w w' \<and> (books w \<longrightarrow> is_ok r \<longrightarrow> handle_id h \<notin> offspring w')"
proof -
  obtain x w1 where "settle_poll h (steady w + 1000 * t) w = (x, w1)" by fastforce
  then show ?thesis
    using settle_poll_polls [of h _ w x w1] assms
    by (cases x; cases r) (auto simp: settle_def polls_def)
qed

text \<open>The last part of \<open>stop\<close>, after the loop ran into its deadline.\<close>

lemma kill_wards:
  assumes "kill_group (handle_id h) SIGKILL w = (k, w1)" "0 < handle_id h"
    and "(if a then settle h t w1
          else (case reap (handle_id h) w1 of (Inl e, w2) \<Rightarrow> (Inl e, w2) | (Inr s, w2) \<Rightarrow> (Inr (), w2))) = (r, w')"
  shows "wards w w' \<and> (books w \<longrightarrow> is_ok r \<longrightarrow> handle_id h \<notin> offspring w')"
proof -
  note e = kill_group_wards [OF assms(1)]
  have "wards w1 w' \<and> (books w1 \<longrightarrow> is_ok r \<longrightarrow> handle_id h \<notin> offspring w')"
    using assms(3) settle_wards [OF _ assms(2)] reap_wards [OF _ assms(2)]
    by (fastforce split: if_splits prod.splits sum.splits)
  then show ?thesis using e wards_trans by (auto simp: wards_def)
qed

lemma stop_wards:
  assumes "stop h t w = (r, w')"
  shows "wards w w' \<and> (books w \<longrightarrow> r = Inr () \<longrightarrow> handle_id h \<notin> offspring w')"
proof -
  let ?i = "handle_id h"
  obtain x w1 where st: "status h w = (x, w1)" by fastforce
  note v1 = status_wards [OF st] and b1 = status_books [OF st]
  show ?thesis
  proof (cases "0 < ?i \<and> (\<exists>s. x = Inr s \<and> pstate s = Running)")
    case False
    then show ?thesis using assms st v1 b1 by (cases x) (auto simp: stop_def Let_def split: if_splits)
  next
    case True
    then obtain s where i: "0 < ?i" and x: "x = Inr s" "pstate s = Running" by blast
    obtain k w2 where k: "kill_group ?i SIGTERM w1 = (k, w2)" by fastforce
    obtain y w3 where p: "stop_poll h (steady w2 + 1000 * t) w2 = (y, w3)" by fastforce
    obtain k' w4 where k': "kill_group ?i SIGKILL w3 = (k', w4)" by fastforce
    have b2: "wards w w2" using wards_trans [OF b1 kill_group_wards [OF k]] .
    note p3 = polls_step [OF b2 stop_poll_polls [OF p]]
    have b3: "wards w w3" using p3 by (simp add: polls_def)
    have b4: "wards w w4" using wards_trans [OF b3 kill_group_wards [OF k']] .
    consider "w' = w2" "r \<noteq> Inr ()" | "y = Some r" "w' = w3" | "w' = w4" "r \<noteq> Inr ()"
      | "(if adopted ?i w then settle h t w4
          else (case reap ?i w4 of (Inl e, w2) \<Rightarrow> (Inl e, w2) | (Inr s, w2) \<Rightarrow> (Inr (), w2))) = (r, w')"
      using assms i st x k p k'
      by (cases y; cases "k \<noteq> None \<and> k \<noteq> Some ESRCH"; cases "k' \<noteq> None \<and> k' \<noteq> Some ESRCH")
        (auto simp: stop_def Let_def split: if_split_asm)
    then show ?thesis
    proof cases
      case 1
      then show ?thesis using b2 by simp
    next
      case 2
      then show ?thesis using p3 by (simp add: polls_def)
    next
      case 3
      then show ?thesis using b4 by simp
    next
      case 4
      have "wards w3 w' \<and> (books w3 \<longrightarrow> is_ok r \<longrightarrow> ?i \<notin> offspring w')"
        by (rule kill_wards [OF k' i 4])
      then show ?thesis using b3 wards_trans [OF b3] by (auto simp: wards_def)
    qed
  qed
qed

section \<open>Adopting and starting\<close>

lemma forget_wards: "wards w (w\<lparr>finished := AList.delete i (finished w), adopted_ids := a\<rparr>)"
  by (auto simp: wards_def books_def offspring_def delete_conv split: if_splits)

lemma adopt_failed: "adopt h w = (Inl e, w') \<Longrightarrow> same_os w w'"
  by (auto simp: adopt_def Let_def dest!: read_start_token_same kill_probe_same
      intro: same_os_trans split: prod.splits sum.splits if_splits)

lemma adopt_wards:
  assumes "adopt h w = (r, w')"
  shows "wards w w'"
proof (cases r)
  case (Inl e)
  then show ?thesis using adopt_failed assms same_os_wards by blast
next
  case (Inr h')
  show ?thesis using assms [unfolded Inr]
  proof (rule adopt_result)
    fix w2
    assume "same_os w w2" and w': "w' = w2\<lparr>finished := AList.delete (handle_id h) (finished w2),
            adopted_ids := List.insert (handle_id h) (adopted_ids w2)\<rparr>"
    then show ?thesis unfolding w' using wards_trans [OF _ forget_wards] same_os_wards by blast
  qed
qed

text \<open>Starting adds the child it returns and nothing else.\<close>

lemma exec_error_same: "exec_error opts w = (r, w') \<Longrightarrow> same_os w w'"
  by (auto simp: exec_error_def Let_def dest!: take_fault_same
      split: prod.splits option.splits node.splits if_splits)

lemma fork_failed:
  assumes "fork_exec opts w = (r, w')" "\<forall>c. r \<noteq> Inr (c, None)"
  shows "procs w' = procs w \<and> finished w' = finished w"
proof -
  obtain f w1 where t: "take_fault w = (f, w1)" by fastforce
  note s = take_fault_same [OF t]
  show ?thesis
  proof (cases "f \<noteq> None \<or> pids w1 = []")
    case True
    then show ?thesis using assms(1) t s by (auto simp: fork_exec_def same_os_def split: option.splits)
  next
    case False
    then obtain c stat rest where p: "f = None" "pids w1 = (c, stat) # rest" by (cases "pids w1") auto
    obtain x w2 where e: "exec_error opts (w1\<lparr>pids := rest\<rparr>) = (x, w2)" by fastforce
    show ?thesis
      using assms t s p e exec_error_same [OF e]
      by (cases x) (auto simp: fork_exec_def Let_def same_os_def split: if_splits)
  qed
qed

lemma start_failed_same:
  assumes "start opts w = (Inl e, w')"
  shows "procs w' = procs w \<and> finished w' = finished w"
proof (cases "executable_path opts = ''''")
  case True
  then show ?thesis using assms by (simp add: start_def)
next
  case False
  obtain f w1 where t1: "take_fault w = (f, w1)" by fastforce
  obtain g w2 where t2: "take_fault w1 = (g, w2)" by fastforce
  obtain x w3 where k: "fork_exec opts w2 = (x, w3)" by fastforce
  note s = take_fault_same [OF t1] take_fault_same [OF t2]
  have x: "\<forall>c. x \<noteq> Inr (c, None)" if "f = None" "g = None"
    using assms False that t1 t2 k by (auto simp: start_def split: prod.splits)
  show ?thesis
  proof (cases "f = None \<and> g = None")
    case True
    have "w' = w3"
      using assms False True t1 t2 k by (auto simp: start_def split: sum.splits prod.splits option.splits)
    then show ?thesis using fork_failed [OF k] x True s by (simp add: same_os_def)
  next
    case no: False
    then show ?thesis using assms False t1 t2 s by (cases f; cases g) (auto simp: start_def same_os_def)
  qed
qed

lemma start_children:
  assumes "start opts w = (r, w')" "books w"
  shows "books w' \<and> offspring w' = (case r of Inl e \<Rightarrow> offspring w | Inr h \<Rightarrow> insert (handle_id h) (offspring w))"
proof (cases r)
  case (Inl e)
  note s = start_failed_same [OF assms(1) [unfolded Inl]]
  then show ?thesis using assms(2) Inl by (simp add: books_def offspring_def)
next
  case (Inr h)
  show ?thesis using assms(1) [unfolded Inr]
  proof (rule start_result)
    fix w3 w4 stat t
    assume i: "1 < handle_id h" "handle_id h < 2 ^ 31" "map_of (procs w) (handle_id h) = None"
      and p3: "procs w3 = (handle_id h,
       \<lparr>stat_text = stat, is_child = True, ended = None, permitted = True,
        argv = build_arguments opts, envp = build_environment opts (environ w),
        workdir = working_directory opts\<rparr>) # procs w"
      and f3: "finished w3 = finished w"
      and t: "read_start_token (handle_id h) w3 = (t, w4)"
      and w': "w' = w4\<lparr>finished := AList.delete (handle_id h) (finished w4),
            adopted_ids := removeAll (handle_id h) (adopted_ids w4)\<rparr>"
    have p: "procs w' = procs w3" "finished w' = AList.delete (handle_id h) (finished w)"
      using read_start_token_same [OF t] f3 w' by (simp_all add: same_os_def)
    have "offspring w' = insert (handle_id h) (offspring w)"
      using i(3) by (auto simp: offspring_def p p3 split: if_splits)
    then show ?thesis
      using assms(2) i by (auto simp: books_def p p3 delete_conv Inr map_of_eq_None_iff split: if_splits)
  qed
qed

end
