(* ===== verification/SupervisorContract.thy ===== *)
theory SupervisorContract
  imports ChildFacts
begin

text \<open>
  The interface \<open>IProcessSupervisor.h\<close>: the operations are the record \<open>supervisor\<close> (the virtual
  table), what a client may rely on as the locale \<open>process_supervisor\<close>, and
  \<open>PosixProcessSupervisor\<close> as its interpretation.

  \<open>gone h w\<close> is what a client wants of a stopped process: it is not in the table and cannot come
  back. \<open>evolves w w'\<close> is what every operation promises: it touches neither the file system nor
  the client's state, time does not run backwards, and a process that was gone stays gone.
\<close>

section \<open>Gone for good\<close>

definition gone :: "process_handle \<Rightarrow> 'a os_scheme \<Rightarrow> bool" where
  "gone h w \<longleftrightarrow> distinct (map fst (procs w)) \<and> no_return h w \<and> \<not> present h w"

definition entry_source :: "'a os_scheme \<Rightarrow> int \<Rightarrow> string \<Rightarrow> bool" where
  "entry_source w i stat \<longleftrightarrow>
     (\<exists>p. map_of (procs w) i = Some p \<and> stat_text p = stat) \<or> (i, stat) \<in> set (pids w) \<or>
     (\<exists>m \<in> set (moves w). \<exists>e \<in> set (appears m). fst e = i \<and> stat_text (snd e) = stat)"

definition evolves :: "'a os_scheme \<Rightarrow> 'a os_scheme \<Rightarrow> bool" where
  "evolves w w' \<longleftrightarrow>
     files w' = files w \<and> cwd w' = cwd w \<and> boot_id w' = boot_id w \<and> wall w' = wall w \<and>
     mtimes w' = mtimes w \<and> os.more w' = os.more w \<and> steady w \<le> steady w' \<and>
     (faults w = [] \<longrightarrow> faults w' = []) \<and>
     set (moves w') \<subseteq> set (moves w) \<and> set (pids w') \<subseteq> set (pids w) \<and>
     (distinct (map fst (procs w)) \<longrightarrow>
        distinct (map fst (procs w')) \<and>
        (\<forall>i p. map_of (procs w') i = Some p \<longrightarrow> entry_source w i (stat_text p)))"

lemma evolves_refl [simp, intro]: "evolves w w"
  by (auto simp: evolves_def entry_source_def)

lemma evolves_trans:
  assumes "evolves w w1" "evolves w1 w2"
  shows "evolves w w2"
proof -
  have m: "set (moves w1) \<subseteq> set (moves w)" "set (pids w1) \<subseteq> set (pids w)"
    using assms(1) by (simp_all add: evolves_def)
  have "entry_source w i s" if "entry_source w1 i s" "distinct (map fst (procs w))" for i s
    using that(1) unfolding entry_source_def [of w1]
  proof (elim disjE exE conjE)
    fix p
    assume "map_of (procs w1) i = Some p" "stat_text p = s"
    then show ?thesis using assms(1) that(2) unfolding evolves_def by blast
  qed (use m in \<open>auto simp: entry_source_def\<close>)
  then show ?thesis
    using assms unfolding evolves_def by (auto; meson order_trans subsetD)
qed

lemma gone_evolves:
  assumes "evolves w w'" "gone h w"
  shows "gone h w'"
proof -
  have "\<not> present h w'"
  proof
    assume "present h w'"
    then obtain p where p: "map_of (procs w') (handle_id h) = Some p" "has_token h p"
      by (auto simp: present_def)
    have "entry_source w (handle_id h) (stat_text p)"
      using assms p(1) by (simp add: evolves_def gone_def)
    then show False
      using assms(2) p(2)
      unfolding entry_source_def gone_def no_return_def no_twin_def present_def has_token_def
      by fastforce
  qed
  then show ?thesis
    using assms unfolding evolves_def gone_def no_return_def no_twin_def by blast
qed

lemma tracked_gone_iff: "tracked h w \<Longrightarrow> \<not> present h w \<Longrightarrow> gone h w"
  by (simp add: tracked_def gone_def)

section \<open>Every operation evolves\<close>

lemma evolvesI:
  assumes "files w' = files w" "cwd w' = cwd w" "boot_id w' = boot_id w" "wall w' = wall w"
    "mtimes w' = mtimes w" "os.more w' = os.more w" "steady w \<le> steady w'"
    "faults w = [] \<Longrightarrow> faults w' = []"
    "set (moves w') \<subseteq> set (moves w)" "set (pids w') \<subseteq> set (pids w)"
    and "distinct (map fst (procs w)) \<Longrightarrow> distinct (map fst (procs w'))"
    and "\<And>i p. distinct (map fst (procs w)) \<Longrightarrow> map_of (procs w') i = Some p \<Longrightarrow>
      entry_source w i (stat_text p)"
  shows "evolves w w'"
  using assms by (simp add: evolves_def)

lemma take_fault_evolves: "take_fault w = (f, w') \<Longrightarrow> evolves w w'"
  by (auto simp: take_fault_def evolves_def entry_source_def split: list.splits)

lemma drop_entry_evolves: "evolves w (w\<lparr>procs := AList.delete i (procs w)\<rparr>)"
  by (rule evolvesI) (auto simp: entry_source_def delete_conv distinct_delete split: if_splits)

lemma books_evolves: "evolves w (w\<lparr>finished := f, adopted_ids := a\<rparr>)" "evolves w (w\<lparr>finished := f\<rparr>)"
  by (auto simp: evolves_def entry_source_def)

lemma waitpid_evolves:
  assumes "waitpid i b w = (r, w')"
  shows "evolves w w'"
proof -
  obtain f w1 where t: "take_fault w = (f, w1)" by fastforce
  note e = take_fault_evolves [OF t]
  have "w' = w1 \<or> w' = w1\<lparr>procs := AList.delete (pid_of i) (procs w1)\<rparr>"
    using assms t by (auto simp: waitpid_def split: option.splits if_splits)
  then show ?thesis using e evolves_trans [OF e drop_entry_evolves] by auto
qed

lemma kill_probe_evolves: "kill_probe i w = (r, w') \<Longrightarrow> evolves w w'"
  by (auto simp: kill_probe_def split: option.splits)

lemma read_start_token_evolves: "read_start_token i w = (r, w') \<Longrightarrow> evolves w w'"
  by (auto simp: read_start_token_def proc_stat_def dest: take_fault_evolves
      split: prod.splits option.splits if_splits)

lemma kill_group_evolves:
  assumes "kill_group i s w = (r, w')"
  shows "evolves w w'"
proof -
  have "evolves w (w\<lparr>procs := AList.update j (deliver s p) (procs w), signals := g\<rparr>)"
    if "map_of (procs w) j = Some p" for j p g
  proof (rule evolvesI)
    fix k q
    assume "map_of (procs (w\<lparr>procs := AList.update j (deliver s p) (procs w), signals := g\<rparr>)) k = Some q"
    then show "entry_source w k (stat_text q)"
      using that by (auto simp: update_conv entry_source_def deliver_def split: if_splits)
  qed (use distinct_update in auto)
  then show ?thesis using assms by (auto simp: kill_group_def split: option.splits if_splits)
qed

lemma os_sleep_evolves: "evolves w (os_sleep d w)"
proof (rule evolvesI)
  show "set (moves (os_sleep d w)) \<subseteq> set (moves w)" by (rule os_sleep_fields)
  show "steady w \<le> steady (os_sleep d w)"
    by (auto simp: os_sleep_def elapse_def Let_def split: list.splits)
  show "distinct (map fst (procs (os_sleep d w)))" if "distinct (map fst (procs w))"
    using os_sleep_procs [of d w] evolve_entries(1) [OF that] that by auto
  fix i p
  assume d: "distinct (map fst (procs w))" and p: "map_of (procs (os_sleep d w)) i = Some p"
  from os_sleep_procs [of d w] show "entry_source w i (stat_text p)"
  proof
    assume "procs (os_sleep d w) = procs w"
    then show ?thesis using p by (auto simp: entry_source_def)
  next
    assume "\<exists>m \<in> set (moves w). procs (os_sleep d w) = evolve m (procs w)"
    then obtain m where m: "m \<in> set (moves w)" "procs (os_sleep d w) = evolve m (procs w)" by blast
    have "(\<exists>p'. map_of (procs w) i = Some p' \<and> stat_text p = stat_text p') \<or> (i, p) \<in> set (appears m)"
      using evolve_entries(2) [OF d, of m i p] p m(2) by auto
    then show ?thesis using m(1) unfolding entry_source_def by force
  qed
qed (auto simp: os_sleep_def elapse_def Let_def split: list.splits)

lemmas call_evolves = waitpid_evolves kill_probe_evolves read_start_token_evolves kill_group_evolves

lemma settle_adopted_evolves: "evolves w (settle_adopted i s w)"
  unfolding settle_adopted_def by (rule books_evolves)

lemma adopted_status_evolves:
  assumes "adopted_status h w = (r, w')"
  shows "evolves w w'"
  using assms
  by (auto simp: adopted_status_def Let_def dest!: call_evolves
      intro: evolves_trans [OF _ settle_adopted_evolves] evolves_trans
        evolves_trans [OF evolves_trans settle_adopted_evolves]
        evolves_trans [OF evolves_trans [OF evolves_trans] settle_adopted_evolves]
        evolves_trans [OF evolves_trans [OF evolves_trans [OF evolves_trans]] settle_adopted_evolves]
      split: prod.splits wait_result.splits sum.splits if_splits)

lemma status_evolves:
  assumes "status h w = (r, w')"
  shows "evolves w w'"
  using assms
  by (auto simp: status_def Let_def dest!: call_evolves adopted_status_evolves
      intro: evolves_trans [OF _ books_evolves(2)]
      split: prod.splits wait_result.splits option.splits if_splits)

lemma stop_poll_evolves: "stop_poll h d w = (r, w') \<Longrightarrow> evolves w w'"
proof (induction h d w arbitrary: r w' rule: stop_poll.induct)
  case (1 h d w)
  obtain x w1 where s: "status h w = (x, w1)" by fastforce
  note e = status_evolves [OF s]
  show ?case
  proof (cases "\<exists>t. steady w < d \<and> x = Inr t \<and> pstate t = Running")
    case True
    then obtain t where t: "steady w < d" "x = Inr t" "pstate t = Running" by blast
    have "stop_poll h d (os_sleep kPollInterval w1) = (r, w')"
      using "1.prems" s t by (simp add: stop_poll.simps [of h d w])
    then have "evolves (os_sleep kPollInterval w1) w'"
      using "1.IH" [OF t(1) s [symmetric] t(2)] t(3) by simp
    then show ?thesis using evolves_trans [OF evolves_trans [OF e os_sleep_evolves]] by blast
  next
    case False
    then show ?thesis
      using "1.prems" s e by (cases x) (auto simp: stop_poll.simps [of h d w] split: if_splits)
  qed
qed

lemma settle_poll_evolves: "settle_poll h d w = (r, w') \<Longrightarrow> evolves w w'"
proof (induction h d w arbitrary: r w' rule: settle_poll.induct)
  case (1 h d w)
  obtain x w1 where s: "adopted_status h w = (x, w1)" by fastforce
  note e = adopted_status_evolves [OF s]
  show ?case
  proof (cases "\<exists>t. steady w < d \<and> x = Inr t \<and> pstate t = Running")
    case True
    then obtain t where t: "steady w < d" "x = Inr t" "pstate t = Running" by blast
    have "settle_poll h d (os_sleep kPollInterval w1) = (r, w')"
      using "1.prems" s t by (simp add: settle_poll.simps [of h d w])
    then have "evolves (os_sleep kPollInterval w1) w'"
      using "1.IH" [OF t(1) s [symmetric] t(2)] t(3) by simp
    then show ?thesis using evolves_trans [OF evolves_trans [OF e os_sleep_evolves]] by blast
  next
    case False
    then show ?thesis
      using "1.prems" s e by (cases x) (auto simp: settle_poll.simps [of h d w] split: if_splits)
  qed
qed

lemma wait_blocking_evolves: "wait_blocking i w = (r, w') \<Longrightarrow> evolves w w'"
proof (induction i w arbitrary: r w' rule: wait_blocking.induct)
  case (1 i w)
  obtain x w1 where s: "waitpid i False w = (x, w1)" by fastforce
  note e = waitpid_evolves [OF s]
  show ?case
  proof (cases "x = WaitFailed EINTR \<and> faults w \<noteq> []")
    case True
    then have "wait_blocking i w1 = (r, w')"
      using "1.prems" s by (simp add: wait_blocking.simps [of i w])
    from "1.IH" [OF s [symmetric] True this] show ?thesis using evolves_trans [OF e] by blast
  next
    case False
    then show ?thesis using "1.prems" s e by (auto simp: wait_blocking.simps [of i w])
  qed
qed

lemma settle_evolves: "settle h t w = (r, w') \<Longrightarrow> evolves w w'"
  by (auto simp: settle_def dest: settle_poll_evolves split: prod.splits option.splits)

lemma reap_evolves: "reap i w = (r, w') \<Longrightarrow> evolves w w'"
  by (auto simp: reap_def dest!: wait_blocking_evolves intro: evolves_trans [OF _ books_evolves(2)]
      split: prod.splits wait_result.splits if_splits)

lemma stop_evolves:
  assumes "stop h t w = (r, w')"
  shows "evolves w w'"
  using assms
  by (auto simp: stop_def Let_def
      dest!: status_evolves kill_group_evolves stop_poll_evolves settle_evolves reap_evolves
      intro: evolves_trans evolves_trans [OF evolves_trans] evolves_trans [OF evolves_trans [OF evolves_trans]]
        evolves_trans [OF evolves_trans [OF evolves_trans [OF evolves_trans]]]
      split: prod.splits option.splits sum.splits if_splits)

lemma adopt_evolves:
  assumes "adopt h w = (r, w')"
  shows "evolves w w'"
  using assms
  by (auto simp: adopt_def Let_def dest!: read_start_token_evolves kill_probe_evolves
      intro: evolves_trans evolves_trans [OF evolves_trans books_evolves(1)]
      split: prod.splits sum.splits if_splits)

lemma exec_error_evolves: "exec_error opts w = (r, w') \<Longrightarrow> evolves w w'"
  by (auto simp: exec_error_def Let_def dest!: take_fault_evolves
      split: prod.splits option.splits node.splits if_splits)

lemma next_pid_evolves:
  assumes "pids w = (i, s) # rest"
  shows "evolves w (w\<lparr>pids := rest\<rparr>)"
  using assms by (auto simp: evolves_def entry_source_def)

lemma add_child_evolves:
  assumes "(i, stat_text p) \<in> set (pids u)" "evolves u w" "map_of (procs w) i = None"
  shows "evolves u (w\<lparr>procs := (i, p) # procs w\<rparr>)"
  using assms unfolding evolves_def
  by (auto simp: entry_source_def map_of_eq_None_iff split: if_splits)

lemma exec_error_procs: "exec_error opts w = (r, w') \<Longrightarrow> procs w' = procs w"
  by (auto simp: exec_error_def Let_def same_os_def dest!: take_fault_same
      split: prod.splits option.splits node.splits if_splits)

lemma fork_exec_evolves:
  assumes "fork_exec opts w = (r, w')"
  shows "evolves w w'"
proof -
  obtain f v0 where v0: "take_fault w = (f, v0)" by fastforce
  note e0 = take_fault_evolves [OF v0]
  show ?thesis
  proof (cases "f = None \<and> (\<exists>i s rest. pids v0 = (i, s) # rest \<and>
      \<not> (i \<le> 1 \<or> 2 ^ 31 \<le> i \<or> map_of (procs v0) i \<noteq> None))")
    case False
    then show ?thesis
      using assms v0 e0 by (auto simp: fork_exec_def split: option.splits list.splits if_splits)
  next
    case True
    then obtain i s rest where f: "f = None" and p: "pids v0 = (i, s) # rest"
      "\<not> (i \<le> 1 \<or> 2 ^ 31 \<le> i \<or> map_of (procs v0) i \<noteq> None)" by blast
    obtain x v1 where x: "exec_error opts (v0\<lparr>pids := rest\<rparr>) = (x, v1)" by fastforce
    have e1: "evolves w v1"
      using evolves_trans [OF e0 evolves_trans [OF next_pid_evolves [OF p(1)] exec_error_evolves [OF x]]] .
    have i: "(i, s) \<in> set (pids w)" "map_of (procs v1) i = None"
      using e0 p exec_error_procs [OF x] by (auto simp: evolves_def)
    show ?thesis
      using assms v0 f p x e1 i add_child_evolves [OF _ e1]
      by (cases x) (auto simp: fork_exec_def Let_def)
  qed
qed

lemma start_evolves:
  assumes "start opts w = (r, w')"
  shows "evolves w w'"
  using assms
  by (auto simp: start_def dest!: take_fault_evolves fork_exec_evolves read_start_token_evolves
      intro: evolves_trans evolves_trans [OF evolves_trans]
        evolves_trans [OF evolves_trans [OF evolves_trans [OF evolves_trans]] books_evolves(1)]
      split: prod.splits option.splits sum.splits if_splits)

section \<open>The contract\<close>

text \<open>
  \<open>intact\<close> is the provider's own invariant and \<open>held h\<close> its invariant for a handle it gave out.
  Both depend on the processes alone, not on the files or on the client's state.
\<close>

locale process_supervisor =
  fixes S :: "'a os_scheme supervisor"
    and intact :: "'a os_scheme \<Rightarrow> bool"
    and held :: "process_handle \<Rightarrow> 'a os_scheme \<Rightarrow> bool"
  assumes start_evolves: "sup_start S opts w = (r, w') \<Longrightarrow> evolves w w'"
    and adopt_evolves: "sup_adopt S h w = (a, w') \<Longrightarrow> evolves w w'"
    and stop_evolves: "sup_stop S h t w = (u, w') \<Longrightarrow> evolves w w'"
    and status_evolves: "sup_status S h w = (s, w') \<Longrightarrow> evolves w w'"
    and start_child: "sup_start S opts w = (r, w') \<Longrightarrow> intact w \<Longrightarrow>
      intact w' \<and> offspring w' = (case r of Inl e \<Rightarrow> offspring w | Inr h \<Rightarrow> insert (handle_id h) (offspring w))"
    and adopt_child: "sup_adopt S h w = (a, w') \<Longrightarrow> intact w \<Longrightarrow> intact w' \<and> offspring w' \<subseteq> offspring w"
    and stop_child: "sup_stop S h t w = (u, w') \<Longrightarrow> intact w \<Longrightarrow>
      intact w' \<and> offspring w' \<subseteq> offspring w \<and> (u = Inr () \<longrightarrow> handle_id h \<notin> offspring w')"
    and status_child: "sup_status S h w = (s, w') \<Longrightarrow> intact w \<Longrightarrow> intact w' \<and> offspring w' \<subseteq> offspring w"
    and adopt_same: "sup_adopt S h w = (Inr h', w') \<Longrightarrow> h' = h"
    and status_held: "sup_status S h w = (s, w') \<Longrightarrow> held h w \<Longrightarrow> held h w'"
    and stop_gone: "sup_stop S h t w = (Inr (), w') \<Longrightarrow> held h w \<Longrightarrow> gone h w'"
    and stop_held: "sup_stop S h t w = (u, w') \<Longrightarrow> held h w \<Longrightarrow> held h w'"
    and sleep_intact: "intact w \<Longrightarrow> intact (os_sleep d w) \<and> offspring (os_sleep d w) \<subseteq> offspring w"
    and sleep_held: "held h w \<Longrightarrow> held h (os_sleep d w)"
    and processes_only: "same_os w v \<Longrightarrow> (intact v \<longleftrightarrow> intact w) \<and> (held h v \<longleftrightarrow> held h w)"

context process_supervisor
begin

text \<open>After \<open>stop\<close> the client still has a valid handle, or the process is gone.\<close>

lemma stop_result:
  assumes "sup_stop S h t w = (u, w')" "held h w"
  shows "case u of Inl e \<Rightarrow> held h w' | Inr _ \<Rightarrow> gone h w'"
  using assms stop_gone stop_held by (cases u) auto

lemma stop_stays_gone:
  assumes "sup_stop S h t w = (u, w')" "gone h' w"
  shows "gone h' w'"
  using gone_evolves [OF stop_evolves [OF assms(1)] assms(2)] .

lemma start_after_stop:
  assumes "sup_stop S h t w = (Inr (), w1)" "sup_start S opts w1 = (r, w2)"
    and "intact w" "offspring w \<subseteq> {handle_id h}"
  shows "intact w2 \<and> offspring w2 \<subseteq> (case r of Inl e \<Rightarrow> {} | Inr h' \<Rightarrow> {handle_id h'})"
proof -
  have "intact w1" "offspring w1 = {}" using stop_child [OF assms(1,3)] assms(4) by auto
  then show ?thesis using start_child [OF assms(2)] by (auto split: sum.splits)
qed

end

interpretation posix: process_supervisor posix_supervisor books tracked
proof
  fix h t u and w w' :: "'a os_scheme"
  assume s: "sup_stop posix_supervisor h t w = (u, w')"
  show "tracked h w \<Longrightarrow> tracked h w'"
    using stop_keeps [of h t w u w'] s by (auto simp: posix_supervisor_def keeps_def)


  show "books w \<Longrightarrow> books w' \<and> offspring w' \<subseteq> offspring w \<and> (u = Inr () \<longrightarrow> handle_id h \<notin> offspring w')"
    using stop_wards [of h t w u w'] s by (simp add: posix_supervisor_def wards_def)
next
  fix h t and w w' :: "'a os_scheme"
  assume "sup_stop posix_supervisor h t w = (Inr (), w')"
  then show "tracked h w \<Longrightarrow> gone h w'"
    using stop_keeps [of h t w "Inr ()" w'] tracked_gone_iff [of h w'] by (auto simp: posix_supervisor_def keeps_def)
next
  fix h s and w w' :: "'a os_scheme"
  assume "sup_status posix_supervisor h w = (s, w')" "tracked h w"
  then show "tracked h w'"
    using status_answers [of h w _ w'] same_os_tracked [OF status_failed, of h w _ w' h]
    by (cases s) (auto simp: posix_supervisor_def answers_def)
next
  fix h d and w :: "'a os_scheme"
  show "tracked h w \<Longrightarrow> tracked h (os_sleep d w)" by (rule tracked_sleep)
next
  fix h h' and w w' :: "'a os_scheme"
  show "sup_adopt posix_supervisor h w = (Inr h', w') \<Longrightarrow> h' = h"
    by (auto simp: posix_supervisor_def elim: adopt_result)
next
  fix h and w v :: "'a os_scheme"
  show "same_os w v \<Longrightarrow> (books v \<longleftrightarrow> books w) \<and> (tracked h v \<longleftrightarrow> tracked h w)"
    using same_os_books same_os_tracked by blast
next
  fix d and w :: "'a os_scheme"
  show "books w \<Longrightarrow> books (os_sleep d w) \<and> offspring (os_sleep d w) \<subseteq> offspring w"
    using os_sleep_wards [of w d] by (simp add: wards_def)
qed (auto simp: posix_supervisor_def dest: start_evolves adopt_evolves stop_evolves status_evolves
    start_children adopt_wards [unfolded wards_def] status_books [unfolded wards_def])

end
