(* ===== verification/HealthFacts.thy ===== *)
theory HealthFacts
  imports Health SupervisorContract
begin

text \<open>
  The health checker against its meaning. \<open>has_run P n xs\<close> says that somewhere in the history
  \<open>xs\<close> there are \<open>n\<close> results in a row with property \<open>P\<close>. The state of the checker is the
  verdict of the latest run that was long enough, whatever the probe does. The second part is
  the interface \<open>IHealthProbe.h\<close>: what a client may rely on as a locale, and the two probes as
  its instances.
\<close>

section \<open>Runs\<close>

definition has_run :: "('x \<Rightarrow> bool) \<Rightarrow> nat \<Rightarrow> 'x list \<Rightarrow> bool" where
  "has_run P n xs \<longleftrightarrow> (\<exists>as bs cs. xs = as @ bs @ cs \<and> length bs = n \<and> list_all P bs)"

definition trailing :: "('x \<Rightarrow> bool) \<Rightarrow> 'x list \<Rightarrow> nat" where
  "trailing P xs = length (takeWhile P (rev xs))"

lemma trailing_Nil [simp]: "trailing P [] = 0"
  by (simp add: trailing_def)

lemma trailing_snoc [simp]: "trailing P (xs @ [x]) = (if P x then Suc (trailing P xs) else 0)"
  by (simp add: trailing_def)

lemma trailing_append:
  assumes "bs \<noteq> []" "\<not> P (last bs)"
  shows "trailing P (as @ bs @ cs) = trailing P cs"
proof (induction cs rule: rev_induct)
  case Nil
  obtain bs' b where "bs = bs' @ [b]" using assms(1) by (cases bs rule: rev_cases) auto
  then show ?case using assms(2) trailing_snoc [of P "as @ bs'" b] by simp
next
  case (snoc c cs)
  then show ?case using trailing_snoc [of P "as @ bs @ cs" c] by simp
qed

lemma trailing_le: "trailing P xs \<le> length xs"
  using length_takeWhile_le [of P "rev xs"] by (simp add: trailing_def)

lemma trailing_run: "n \<le> trailing P xs \<longleftrightarrow> (\<exists>as bs. xs = as @ bs \<and> length bs = n \<and> list_all P bs)"
proof (induction xs arbitrary: n rule: rev_induct)
  case Nil
  then show ?case by auto
next
  case (snoc x xs)
  show ?case
  proof (cases n)
    case 0
    then show ?thesis by (auto intro: exI [of _ "xs @ [x]"] exI [of _ "[]"])
  next
    case (Suc m)
    have "(\<exists>as bs. xs @ [x] = as @ bs \<and> length bs = n \<and> list_all P bs) \<longleftrightarrow>
        P x \<and> (\<exists>as bs. xs = as @ bs \<and> length bs = m \<and> list_all P bs)" (is "?l \<longleftrightarrow> ?r")
    proof
      assume ?l
      then obtain as bs where b: "xs @ [x] = as @ bs" "length bs = n" "list_all P bs" by blast
      then have "bs \<noteq> []" using Suc by auto
      then obtain bs' where "bs = bs' @ [x]" using b(1) by (metis append_butlast_last_id last_appendR last_snoc)
      then show ?r using b Suc by auto
    next
      assume ?r
      then obtain as bs where "P x" "xs = as @ bs" "length bs = m" "list_all P bs" by blast
      then show ?l using Suc by (intro exI [of _ as] exI [of _ "bs @ [x]"]) auto
    qed
    then show ?thesis using snoc [of m] Suc by auto
  qed
qed

lemma has_run_Nil [simp]: "0 < n \<Longrightarrow> \<not> has_run P n []"
  by (auto simp: has_run_def)

lemma has_run_snoc: "has_run P n (xs @ [x]) \<longleftrightarrow> has_run P n xs \<or> n \<le> trailing P (xs @ [x])"
proof
  assume "has_run P n (xs @ [x])"
  then obtain as bs cs where r: "xs @ [x] = as @ bs @ cs" "length bs = n" "list_all P bs"
    by (auto simp: has_run_def)
  show "has_run P n xs \<or> n \<le> trailing P (xs @ [x])"
  proof (cases cs rule: rev_cases)
    case Nil
    then show ?thesis using r unfolding trailing_run by auto
  next
    case (snoc cs' y)
    then have "xs = as @ bs @ cs'" using r(1) by simp
    then show ?thesis using r(2,3) by (auto simp: has_run_def)
  qed
next
  assume "has_run P n xs \<or> n \<le> trailing P (xs @ [x])"
  then show "has_run P n (xs @ [x])"
  proof
    assume "has_run P n xs"
    then obtain as bs cs where "xs = as @ bs @ cs" "length bs = n" "list_all P bs"
      by (auto simp: has_run_def)
    then show ?thesis unfolding has_run_def by (intro exI [of _ as] exI [of _ bs] exI [of _ "cs @ [x]"]) simp
  next
    assume "n \<le> trailing P (xs @ [x])"
    then show ?thesis unfolding trailing_run has_run_def by (metis append_Nil2)
  qed
qed

text \<open>The verdict \<open>P\<close> stands: a run of \<open>n\<close> for it, and none of \<open>m\<close> against it since.\<close>

definition stands :: "('x \<Rightarrow> bool) \<Rightarrow> nat \<Rightarrow> nat \<Rightarrow> 'x list \<Rightarrow> bool" where
  "stands P n m xs \<longleftrightarrow>
     (\<exists>as bs cs. xs = as @ bs @ cs \<and> length bs = n \<and> list_all P bs \<and> \<not> has_run (\<lambda>x. \<not> P x) m cs)"

lemma stands_Nil [simp]: "0 < n \<Longrightarrow> \<not> stands P n m []"
  by (auto simp: stands_def)

lemma stands_same:
  assumes "P x" "0 < m"
  shows "stands P n m (xs @ [x]) \<longleftrightarrow> n \<le> trailing P (xs @ [x]) \<or> stands P n m xs"
proof
  assume "stands P n m (xs @ [x])"
  then obtain as bs cs where s: "xs @ [x] = as @ bs @ cs" "length bs = n" "list_all P bs"
    "\<not> has_run (\<lambda>x. \<not> P x) m cs" by (auto simp: stands_def)
  show "n \<le> trailing P (xs @ [x]) \<or> stands P n m xs"
  proof (cases cs rule: rev_cases)
    case Nil
    then show ?thesis using s unfolding trailing_run by auto
  next
    case (snoc cs' y)
    then have "xs = as @ bs @ cs'" "\<not> has_run (\<lambda>x. \<not> P x) m cs'" using s has_run_snoc [of "\<lambda>x. \<not> P x" m cs' y] by auto
    then show ?thesis using s(2,3) by (auto simp: stands_def)
  qed
next
  assume "n \<le> trailing P (xs @ [x]) \<or> stands P n m xs"
  then show "stands P n m (xs @ [x])"
  proof
    assume "n \<le> trailing P (xs @ [x])"
    then obtain as bs where "xs @ [x] = as @ bs @ []" "length bs = n" "list_all P bs"
      unfolding trailing_run by auto
    then show ?thesis using assms(2) unfolding stands_def by (metis has_run_Nil)
  next
    assume "stands P n m xs"
    then obtain as bs cs where s: "xs = as @ bs @ cs" "length bs = n" "list_all P bs"
      "\<not> has_run (\<lambda>x. \<not> P x) m cs" by (auto simp: stands_def)
    have "\<not> has_run (\<lambda>x. \<not> P x) m (cs @ [x])" using s(4) assms by (simp add: has_run_snoc)
    then show ?thesis
      unfolding stands_def using s by (intro exI [of _ as] exI [of _ bs] exI [of _ "cs @ [x]"]) simp
  qed
qed

lemma stands_other:
  assumes "\<not> P x" "0 < n"
  shows "stands P n m (xs @ [x]) \<longleftrightarrow> trailing (\<lambda>x. \<not> P x) (xs @ [x]) < m \<and> stands P n m xs"
proof -
  let ?Q = "\<lambda>x. \<not> P x"
  have tr: "trailing ?Q (as @ bs @ cs) = trailing ?Q cs" if "length bs = n" "list_all P bs" for as bs cs
    using that assms(2) trailing_append [of bs ?Q as cs] by (cases bs rule: rev_cases) auto
  show ?thesis
  proof
    assume "stands P n m (xs @ [x])"
    then obtain as bs cs where s: "xs @ [x] = as @ bs @ cs" "length bs = n" "list_all P bs"
      "\<not> has_run ?Q m cs" by (auto simp: stands_def)
    obtain cs' where c: "cs = cs' @ [x]"
      using s(1,2,3) assms by (cases cs rule: rev_cases; cases bs rule: rev_cases) auto
    then have x: "xs = as @ bs @ cs'" using s(1) by simp
    have "\<not> has_run ?Q m cs'" "trailing ?Q cs < m" using s(4) c has_run_snoc [of ?Q m cs' x] by auto
    then show "trailing ?Q (xs @ [x]) < m \<and> stands P n m xs"
      using x s(1,2,3) tr [OF s(2,3), of as cs] by (auto simp: stands_def)
  next
    assume a: "trailing ?Q (xs @ [x]) < m \<and> stands P n m xs"
    then obtain as bs cs where s: "xs = as @ bs @ cs" "length bs = n" "list_all P bs"
      "\<not> has_run ?Q m cs" by (auto simp: stands_def)
    have "trailing ?Q (cs @ [x]) < m" using a s tr [OF s(2,3), of as "cs @ [x]"] by simp
    then have "\<not> has_run ?Q m (cs @ [x])" using s(4) has_run_snoc [of ?Q m cs x] by auto
    then show "stands P n m (xs @ [x])"
      unfolding stands_def using s by (intro exI [of _ as] exI [of _ bs] exI [of _ "cs @ [x]"]) simp
  qed
qed
section \<open>The checker\<close>

text \<open>Evaluating \<open>n\<close> times; the results the probe gave come with the checker.\<close>

primrec evaluations ::
    "nat \<Rightarrow> 'w probe option \<Rightarrow> checker \<Rightarrow> 'w \<Rightarrow> unit expected list \<times> checker \<times> 'w" where
  "evaluations 0 p c w = ([], c, w)"
| "evaluations (Suc n) p c w =
     (case evaluations n p c w of
        (rs, c1, w1) \<Rightarrow>
          (case evaluate p c1 w1 of
             (c2, w2) \<Rightarrow>
               (rs @ [case p of None \<Rightarrow> Inl ''health probe is not configured'' | Some probe \<Rightarrow> fst (probe w1)],
                c2, w2)))"

definition observe :: "unit expected \<Rightarrow> checker \<Rightarrow> checker" where
  "observe r c = (case r of Inr _ \<Rightarrow> note_success c | Inl e \<Rightarrow> note_failure e c)"

lemma evaluate_observe:
  "fst (evaluate p c w) =
     observe (case p of None \<Rightarrow> Inl ''health probe is not configured'' | Some probe \<Rightarrow> fst (probe w)) c"
  by (auto simp: evaluate_def observe_def split: option.splits prod.splits sum.splits)

text \<open>The invariant: the counters are the lengths of the trailing runs, the state is the verdict.\<close>

definition counts :: "health_spec \<Rightarrow> unit expected list \<Rightarrow> checker \<Rightarrow> bool" where
  "counts s rs c \<longleftrightarrow>
     spec c = spec (health_checker s) \<and>
     consecutive_successes c = int (trailing is_ok rs) \<and>
     consecutive_failures c = int (trailing isl rs) \<and>
     (let k = nat (success_threshold (spec c)); f = nat (failure_threshold (spec c)) in
      (health c = Healthy \<longleftrightarrow> stands is_ok k f rs) \<and> (health c = Unhealthy \<longleftrightarrow> stands isl f k rs)) \<and>
     last_error c = (if rs \<noteq> [] \<and> isl (last rs) then Some (projl (last rs)) else None)"

lemma thresholds_positive:
  "0 < nat (success_threshold (spec (health_checker s)))"
  "0 < nat (failure_threshold (spec (health_checker s)))"
  by (simp_all add: health_checker_def)

lemma counts_start: "counts s [] (health_checker s)"
  using thresholds_positive [of s] by (simp add: counts_def Let_def) (simp add: health_checker_def)

lemma counts_step:
  assumes "counts s rs c"
  shows "counts s (rs @ [r]) (observe r c)"
proof -
  let ?k = "nat (success_threshold (spec c))" and ?f = "nat (failure_threshold (spec c))"
  have c: "spec c = spec (health_checker s)" using assms by (simp add: counts_def)
  have pos: "0 < ?k" "0 < ?f" using thresholds_positive [of s] c by simp_all
  have H: "health c = Healthy \<longleftrightarrow> stands is_ok ?k ?f rs" and U: "health c = Unhealthy \<longleftrightarrow> stands isl ?f ?k rs"
    using assms by (simp_all add: counts_def Let_def)
  have nn: "stands (\<lambda>x. \<not> is_ok x) ?f ?k xs = stands isl ?f ?k xs" for xs :: "unit expected list"
    by simp
  show ?thesis
  proof (cases r)
    case (Inr u)
    have 1: "stands is_ok ?k ?f (rs @ [r]) \<longleftrightarrow> ?k \<le> trailing is_ok (rs @ [r]) \<or> stands is_ok ?k ?f rs"
      using stands_same [of is_ok r ?f ?k rs] Inr pos by simp
    have 2: "stands isl ?f ?k (rs @ [r]) \<longleftrightarrow> trailing is_ok (rs @ [r]) < ?k \<and> stands isl ?f ?k rs"
      using stands_other [of isl r ?f ?k rs] Inr pos by simp
    show ?thesis
      using assms Inr 1 2 H U pos c
      by (auto simp: counts_def observe_def note_success_def Let_def)
  next
    case (Inl e)
    have 1: "stands isl ?f ?k (rs @ [r]) \<longleftrightarrow> ?f \<le> trailing isl (rs @ [r]) \<or> stands isl ?f ?k rs"
      using stands_same [of isl r ?k ?f rs] Inl pos by simp
    have 2: "stands is_ok ?k ?f (rs @ [r]) \<longleftrightarrow> trailing isl (rs @ [r]) < ?f \<and> stands is_ok ?k ?f rs"
      using stands_other [of is_ok r ?k ?f rs] Inl pos by simp
    show ?thesis
      using assms Inl 1 2 H U pos c
      by (auto simp: counts_def observe_def note_failure_def Let_def)
  qed
qed

lemma evaluations_counts:
  "evaluations n p (health_checker s) w = (rs, c, w') \<Longrightarrow> counts s rs c \<and> length rs = n"
proof (induction n arbitrary: rs c w')
  case 0
  then show ?case using counts_start by auto
next
  case (Suc n)
  obtain rs1 c1 w1 where e: "evaluations n p (health_checker s) w = (rs1, c1, w1)"
    by (metis prod_cases3)
  let ?r = "case p of None \<Rightarrow> Inl ''health probe is not configured'' | Some probe \<Rightarrow> fst (probe w1)"
  have "rs = rs1 @ [?r]" "c = observe ?r c1"
    using Suc.prems e evaluate_observe [of p c1 w1] by (auto split: prod.splits)
  then show ?case using Suc.IH [OF e] counts_step by auto
qed

text \<open>
  C25: The health state is the verdict of the history. After any number of evaluations, with any
  probe (or none), the checker is \<open>Healthy\<close> exactly when at some time \<open>success_threshold\<close> probes
  in a row succeeded and \<open>failure_threshold\<close> in a row have not failed since, \<open>Unhealthy\<close>
  symmetrically, and thresholds below one count as one.
\<close>

theorem health_is_verdict:
  assumes "evaluations n p (health_checker s) w = (rs, c, w')"
  shows "let k = nat (max 1 (success_threshold s)); f = nat (max 1 (failure_threshold s)) in
    (health c = Healthy \<longleftrightarrow>
       (\<exists>as bs cs. rs = as @ bs @ cs \<and> length bs = k \<and> list_all is_ok bs \<and> \<not> has_run isl f cs)) \<and>
    (health c = Unhealthy \<longleftrightarrow>
       (\<exists>as bs cs. rs = as @ bs @ cs \<and> length bs = f \<and> list_all isl bs \<and> \<not> has_run is_ok k cs))"
proof -
  have c: "counts s rs c" using evaluations_counts [OF assms] by blast
  then have "success_threshold (spec c) = max 1 (success_threshold s)"
    "failure_threshold (spec c) = max 1 (failure_threshold s)"
    by (auto simp: counts_def health_checker_def)
  then show ?thesis using c by (simp add: counts_def stands_def Let_def)
qed

text \<open>
  The counters cannot overflow: after \<open>n\<close> evaluations neither counter exceeds \<open>n\<close> and both
  are never negative, so their 32 bits hold for \<open>2 ^ 31 - 1\<close> evaluations; and never are both
  positive.
\<close>

theorem counters_bounded:
  assumes "evaluations n p (health_checker s) w = (rs, c, w')"
  shows "0 \<le> consecutive_successes c \<and> consecutive_successes c \<le> int n \<and>
    0 \<le> consecutive_failures c \<and> consecutive_failures c \<le> int n \<and>
    (consecutive_successes c = 0 \<or> consecutive_failures c = 0)"
proof -
  have c: "counts s rs c" "length rs = n" using evaluations_counts [OF assms] by auto
  have "trailing is_ok rs = 0 \<or> trailing isl rs = 0" by (cases rs rule: rev_cases) auto
  then show ?thesis
    using c trailing_le [of is_ok rs] trailing_le [of isl rs] by (auto simp: counts_def)
qed

section \<open>Examples\<close>

text \<open>A probe that answers from a list.\<close>

fun scripted :: "unit expected list probe" where
  "scripted [] = (Inl ''no answer'', [])"
| "scripted (r # rs) = (r, rs)"

definition flaky :: "unit expected list" where
  "flaky = [Inl ''refused'', Inr (), Inr (), Inl ''refused'']"

definition picky_spec :: health_spec where
  "picky_spec = default_health_spec\<lparr>success_threshold := 2\<rparr>"

lemma flaky_run:
  "\<exists>c. evaluations 4 (Some scripted) (health_checker picky_spec) flaky = (flaky, c, []) \<and> health c = Healthy \<and>
     consecutive_failures c = 1"
  by (simp add: numeral_eq_Suc evaluate_def flaky_def health_checker_def picky_spec_def default_health_spec_def
      note_success_def note_failure_def Let_def)

theorem health_is_verdict_witness:
  "\<exists>as bs cs. flaky = as @ bs @ cs \<and> length bs = 2 \<and> list_all is_ok bs \<and> \<not> has_run isl 3 cs"
proof -
  obtain c where c: "evaluations 4 (Some scripted) (health_checker picky_spec) flaky = (flaky, c, [])"
    "health c = Healthy" using flaky_run by blast
  have "success_threshold picky_spec = 2" "failure_threshold picky_spec = 3"
    by (simp_all add: picky_spec_def default_health_spec_def)
  then show ?thesis using health_is_verdict [OF c(1)] c(2) by (simp add: Let_def)
qed

theorem counters_bounded_witness:
  "\<exists>c. evaluations 4 (Some scripted) (health_checker picky_spec) flaky = (flaky, c, []) \<and>
     consecutive_failures c \<le> 4 \<and> consecutive_successes c = 0"
proof -
  obtain c where c: "evaluations 4 (Some scripted) (health_checker picky_spec) flaky = (flaky, c, [])"
    "consecutive_failures c = 1" using flaky_run by blast
  then show ?thesis using counters_bounded [OF c(1)] by auto
qed

section \<open>The contract of the probes\<close>

text \<open>
  What a client may rely on: probing touches neither the files nor the client's state, does not
  turn the clock back, brings no process back and keeps what the client knows of its process.
\<close>

locale health_probe =
  fixes probe :: "'a os_scheme probe"
    and intact :: "'a os_scheme \<Rightarrow> bool"
    and kept :: "'a os_scheme \<Rightarrow> bool"
  assumes probe_evolves: "probe w = (r, w') \<Longrightarrow> evolves w w'"
    and probe_intact: "probe w = (r, w') \<Longrightarrow> intact w \<Longrightarrow> intact w' \<and> offspring w' \<subseteq> offspring w"
    and probe_kept: "probe w = (r, w') \<Longrightarrow> kept w \<Longrightarrow> kept w'"
begin

lemma evaluate_world: "evaluate (Some probe) c w = (c', w') \<Longrightarrow> \<exists>r. probe w = (r, w')"
  by (auto simp: evaluate_def split: prod.splits sum.splits)

lemma evaluate_evolves: "evaluate (Some probe) c w = (c', w') \<Longrightarrow> evolves w w'"
  using evaluate_world probe_evolves by blast

lemma evaluations_evolves: "evaluations n (Some probe) c w = (rs, c', w') \<Longrightarrow> evolves w w'"
proof (induction n arbitrary: rs c' w')
  case (Suc n)
  obtain rs1 c1 w1 where e: "evaluations n (Some probe) c w = (rs1, c1, w1)" by (metis prod_cases3)
  obtain c2 w2 where e2: "evaluate (Some probe) c1 w1 = (c2, w2)" by fastforce
  have "w' = w2" using Suc.prems e e2 by simp
  then show ?case using evolves_trans [OF Suc.IH [OF e] evaluate_evolves [OF e2]] by simp
qed simp

end

sublocale process_supervisor \<subseteq> watch: health_probe "process_probe (Some (sup_status S)) h" intact "held h" for h
proof
  fix w r w'
  assume "process_probe (Some (sup_status S)) h w = (r, w')"
  then obtain s where s: "sup_status S h w = (s, w')"
    by (auto simp: process_probe_def split: prod.splits sum.splits process_state.splits)
  show "evolves w w'" by (rule status_evolves [OF s])
  show "intact w \<Longrightarrow> intact w' \<and> offspring w' \<subseteq> offspring w" by (rule status_child [OF s])
  show "held h w \<Longrightarrow> held h w'" by (rule status_held [OF s])
qed

interpretation posix_watch: health_probe "process_probe (Some status) h" books "tracked h" for h
  using posix.watch.health_probe_axioms by (simp add: posix_supervisor_def)

text \<open>
  Of libcurl only this is assumed, where a property needs it: while the network is asked, time
  passes and the other processes run, and nothing else happens.
\<close>

inductive passes :: "'a os_scheme \<Rightarrow> 'a os_scheme \<Rightarrow> bool" where
  no_time: "passes w w"
| some_time: "passes w w1 \<Longrightarrow> passes w (os_sleep d w1)"

inductive_simps passes_to_sleep: "passes w (os_sleep d w1)"

lemma passes_trans: "passes w1 w2 \<Longrightarrow> passes w w1 \<Longrightarrow> passes w w2"
  by (induction rule: passes.induct) (auto intro: passes.intros)

lemma passes_evolves: "passes w w' \<Longrightarrow> evolves w w'"
  by (induction rule: passes.induct) (auto intro: evolves_trans os_sleep_evolves)

context process_supervisor
begin

lemma passes_intact: "passes w w' \<Longrightarrow> intact w \<Longrightarrow> intact w' \<and> offspring w' \<subseteq> offspring w"
  by (induction rule: passes.induct) (use sleep_intact in blast)+

lemma passes_held: "passes w w' \<Longrightarrow> held h w \<Longrightarrow> held h w'"
  by (induction rule: passes.induct) (auto intro: sleep_held)

end

definition quiet_curl :: "'a os_scheme curl \<Rightarrow> bool" where
  "quiet_curl C \<longleftrightarrow>
     (\<forall>w. passes w (snd (easy_init C w))) \<and> (\<forall>q w. passes w (snd (easy_perform C q w)))"

lemma curl_calls:
  assumes "quiet_curl C"
  shows "easy_init C w = (b, w') \<Longrightarrow> passes w w'" "easy_perform C q w = (r, w') \<Longrightarrow> passes w w'"
  using assms unfolding quiet_curl_def by (metis snd_conv)+

lemma network_probe_passes:
  assumes "quiet_curl C" "network_probe C s w = (r, w')"
  shows "passes w w'"
proof -
  note calls = curl_calls [OF assms(1)]
  show ?thesis
    using assms(2)
    by (auto simp: network_probe_def probe_tcp_def probe_http_def Let_def no_time
        dest!: calls intro: passes_trans split: prod.splits sum.splits bool.splits if_splits)
qed

context process_supervisor
begin

lemma network_health_probe:
  assumes "quiet_curl C"
  shows "health_probe (network_probe C s) intact (held h)"
proof
  fix w r w'
  assume "network_probe C s w = (r, w')"
  then have p: "passes w w'" by (rule network_probe_passes [OF assms])
  show "evolves w w'" by (rule passes_evolves [OF p])
  show "intact w \<Longrightarrow> intact w' \<and> offspring w' \<subseteq> offspring w" by (rule passes_intact [OF p])
  show "held h w \<Longrightarrow> held h w'" by (rule passes_held [OF p])
qed

end

end
