(* ===== verification/DeploymentFacts.thy ===== *)
theory DeploymentFacts
  imports Deployment HealthFacts ProperNames
begin

text \<open>
  The deployment engine and its processes. Calls on the disk leave the processes alone
  (\<open>files_step\<close>), calls on the processes leave the disk alone (\<open>evolves\<close>). The locale
  \<open>engine_client\<close> derives from the supervisor's contract that the engine never loses a process:
  its only child is the one its handle names, and a process it was responsible for is in the end
  still in its hands or gone.
\<close>

section \<open>The disk\<close>

lemma more_eq:
  assumes "machine.more w' = machine.more (w :: 'a os_scheme)"
  shows "same_os w w'" "boot_id w' = boot_id w" "environ w' = environ w" "os.more w' = os.more w"
  using assms by (cases w; cases w'; simp add: same_os_def)+

lemma more_engine:
  assumes "os.more w' = os.more (w :: 'a engine_scheme)"
  shows "engine_handle w' = engine_handle w" "last_detail w' = last_detail w" "engine.more w' = engine.more w"
  using assms by (cases w; cases w'; simp)+

lemma step_files: "step_in R w w' \<Longrightarrow> files_step w w'"
  by (simp add: step_in_def)

lemma reads_files_step: "reads w w' \<Longrightarrow> files_step w w'"
  using reads_step step_files by blast

lemma disk_same:
  assumes "files_step w (w' :: 'a os_scheme)"
  shows "same_os w w'" "boot_id w' = boot_id w" "os.more w' = os.more w" "steady w' = steady w" "at w' = at w"
  using more_eq [OF files_step_fields(7) [OF assms]] files_step_fields [OF assms] by (auto simp: at_def)

lemmas call_files =
  reads_lemmas [THEN reads_files_step] step_lemmas [THEN step_files]

lemma write_state_files: "write_state L opts next w = (r, w') \<Longrightarrow> files_step w w'"
  using write_state_step step_files by blast

lemma refresh_current_link_files: "files_step w (refresh_current_link opts release_id w)"
  using refresh_current_link_step step_files by blast

lemma activate_files:
  assumes "activate L opts release_id w = (r, w')"
  shows "files_step w w'"
  using assms
proof (cases rule: activate_cases)
  case (refused e)
  then show ?thesis using reads_files_step by blast
next
  case (attempted current w1 w2 x w3)
  have "files_step w w3"
    using files_step_trans [OF reads_files_step [OF attempted(4)] write_state_files [OF attempted(5)]] .
  then show ?thesis
    using attempted(7) files_step_trans [OF _ refresh_current_link_files] by (cases x) auto
qed

lemma rollback_cases:
  assumes "rollback L opts w = (r, w')"
  obtains
    (refused) e where "r = Inl e" "reads w w'"
  | (attempted) current w2 x w3 where
      "reads w w2" "previous current \<noteq> ''''"
      "write_state L opts (swapped current (utc_now w2)) w2 = (x, w3)"
      "r = (case x of Inl e \<Rightarrow> Inl e | Inr u \<Rightarrow> Inr (previous current))"
      "w' = (case x of Inl e \<Rightarrow> w3 | Inr u \<Rightarrow> refresh_current_link opts (previous current) w3)"
proof -
  obtain y w1 where i: "installer_state L opts w = (y, w1)" by fastforce
  note r1 = installer_state_reads [OF i]
  show ?thesis
  proof (cases "\<exists>current. y = Inr current \<and> previous current \<noteq> ''''")
    case False
    then have "\<exists>e. r = Inl e \<and> w' = w1"
      using assms i by (cases y) (auto simp: rollback_def split: if_splits)
    then show ?thesis using refused r1 by blast
  next
    case True
    then obtain current where c: "y = Inr current" "previous current \<noteq> ''''" by blast
    obtain b w2 where d: "fs_is_directory (at w1 (release_directory opts (previous current))) w1 = (b, w2)"
      by fastforce
    note r2 = reads_trans [OF r1 is_directory_reads [OF d]]
    obtain x w3 where w: "write_state L opts (swapped current (utc_now w2)) w2 = (x, w3)" by fastforce
    show ?thesis
    proof (cases b)
      case False
      then have "\<exists>e. r = Inl e \<and> w' = w2" using assms i c d by (auto simp: rollback_def Let_def)
      then show ?thesis using refused r2 by blast
    next
      case True
      then show ?thesis
        using assms i c d w r2 by (intro attempted [of w2 current x w3])
          (auto simp: rollback_def Let_def swapped_def split: sum.splits)
    qed
  qed
qed

lemma rollback_files:
  assumes "rollback L opts w = (r, w')"
  shows "files_step w w'"
  using assms
proof (cases rule: rollback_cases)
  case (refused e)
  then show ?thesis using reads_files_step by blast
next
  case (attempted current w2 x w3)
  have "files_step w w3"
    using files_step_trans [OF reads_files_step [OF attempted(1)] write_state_files [OF attempted(3)]] .
  then show ?thesis
    using attempted(5) files_step_trans [OF _ refresh_current_link_files] by (cases x) auto
qed

lemma prune_loop_files: "prune_loop opts current keep names retained removed w = (r, w') \<Longrightarrow> files_step w w'"
proof (induction names arbitrary: retained removed w)
  case (Cons name names)
  obtain x w1 where rm: "fs_remove_all (at w (release_directory opts name)) w = (x, w1)" by fastforce
  note s = step_files [OF remove_all_step [OF rm]]
  show ?case using Cons rm s files_step_trans [OF s] by (auto split: if_splits sum.splits)
qed simp

lemma prune_files:
  assumes "prune L opts w = (r, w')"
  shows "files_step w w'"
proof -
  obtain y w1 where i: "installer_state L opts w = (y, w1)" by fastforce
  obtain z w2 where l: "installed opts w1 = (z, w2)" by fastforce
  note s1 = reads_files_step [OF installer_state_reads [OF i]]
  note s2 = files_step_trans [OF s1 reads_files_step [OF installed_reads [OF l]]]
  show ?thesis
    using assms i l s1 s2 files_step_trans [OF s2 prune_loop_files]
    by (auto simp: prune_def Let_def split: sum.splits)
qed

lemma install_files: "install opts release_id source_directory w = (r, w') \<Longrightarrow> files_step w w'"
  using install_step step_files by blast

section \<open>The runtime record on disk\<close>

lemma at_record_path [simp]: "at w (record_path opts) = root_at w opts @ [''runtime.json'']"
  by (simp add: record_path_def at_child plain_name_def contains_char_def)

lemma at_record_temporary [simp]:
  "at w (record_path opts @ ''.tmp'') = root_at w opts @ [''runtime.json.tmp'']"
  by (simp add: record_path_def path_append_suffix at_child plain_name_def contains_char_def)

definition record_region :: "fpath \<Rightarrow> fpath \<Rightarrow> bool" where
  "record_region root q \<longleftrightarrow> prefix (root @ [''runtime.json'']) q \<or> prefix (root @ [''runtime.json.tmp'']) q"

lemma clear_record_step:
  assumes "clear_record opts w = (r, w')"
  shows "step_in (record_region (root_at w opts)) w w'"
proof -
  obtain x w1 where r: "fs_remove (root_at w opts @ [''runtime.json'']) w = (x, w1)" by fastforce
  have "step_in (record_region (root_at w opts)) w w1"
    using step_in_mono [OF remove_step [OF r], of "record_region (root_at w opts)"]
    by (simp add: record_region_def)
  then show ?thesis using assms r by (auto simp: clear_record_def split: sum.splits)
qed

definition record_text :: "json_lib \<Rightarrow> runtime_record \<Rightarrow> string" where
  "record_text L r = serialize_value L (record_json r)"

lemma write_record_effect:
  assumes "write_record L opts next w = (r, w')"
  defines "P \<equiv> root_at w opts @ [''runtime.json'']"
  shows "step_in (record_region (root_at w opts)) w w'"
    and "case r of
      Inl e \<Rightarrow> lookup (files w') P = lookup (files w) P
    | Inr u \<Rightarrow> \<exists>m. lookup (files w') P = Some (File (record_text L next) m)"
proof -
  let ?T = "root_at w opts @ [''runtime.json.tmp'']" and ?R = "record_region (root_at w opts)"
  obtain x2 w2 where c2: "fs_write ?T (serialize_value L (record_json next)) w = (x2, w2)" by fastforce
  note s2 = write_step [OF c2]
  have s2': "step_in ?R w w2" by (rule step_in_mono [OF s2]) (auto simp: record_region_def)
  obtain x3 w3 where c3: "fs_rename ?T P w2 = (x3, w3)" by fastforce
  have s3: "step_in ?R w w3"
    by (rule step_in_trans [OF s2' step_in_mono [OF rename_step [OF c3]]]) (auto simp: record_region_def P_def)
  obtain x4 w4 where c4: "fs_remove ?T w3 = (x4, w4)" by fastforce
  have s4: "step_in ?R w w4"
    by (rule step_in_trans [OF s3 step_in_mono [OF remove_step [OF c4]]]) (auto simp: record_region_def)
  have e: "at w2 s = at w s" "at w3 s = at w s" for s using step_in_at s2' s3 by blast+
  note run = assms(1) c2 c3 c4 e
  show "step_in ?R w w'"
    using run s2' s3 s4 by (auto simp: write_record_def Let_def P_def split: sum.splits write_result.splits)
  have l2: "lookup (files w2) P = lookup (files w) P"
    using step_in_lookup [OF s2, of P] by (simp add: P_def)
  have l4: "lookup (files w4) P = lookup (files w) P" if "x3 = Inl err" for err
    using step_in_lookup [OF remove_step [OF c4], of P] rename_failed [of ?T P w2] c3 that l2
    by (simp add: P_def)
  have l3: "\<exists>m. lookup (files w3) P = Some (File (record_text L next) m)"
    if "x2 = Written" "x3 = Inr u" for u
    using rename_publishes [of ?T P w2 u w3 P] write_publishes [of ?T _ w w2] c2 c3 that
    by (simp add: P_def record_text_def)
  show "case r of Inl e \<Rightarrow> lookup (files w') P = lookup (files w) P
    | Inr u \<Rightarrow> \<exists>m. lookup (files w') P = Some (File (record_text L next) m)"
    using run l2 l3 l4 by (auto simp: write_record_def Let_def P_def split: sum.splits write_result.splits)
qed
lemma make_executable_step:
  assumes "make_executable p w = (r, w')"
  shows "step_in (\<lambda>q. q = p \<and> is_file (lookup (files w) p)) w w'"
proof -
  let ?R = "\<lambda>q. q = p \<and> is_file (lookup (files w) p)"
  have reads_perm: "reads u v" if "fs_permissions p u = (x, v)" for u v :: "'a machine_scheme" and x
    using that take_fault_reads [of u _ v]
    by (auto simp: fs_permissions_def dest: take_fault_reads split: prod.splits option.splits node.splits)
  have chmod: "step_in ?R u v" if c: "fs_chmod p m u = (x, v)" and same: "files u = files w"
    for u v :: "'a machine_scheme" and x m
  proof -
    obtain f u1 where t: "take_fault u = (f, u1)" by fastforce
    note s1 = reads_step [OF take_fault_reads [OF t], of ?R]
    have "v = u1 \<or> (\<exists>c n. lookup (files u1) p = Some (File c n) \<and> v = u1\<lparr>files := put_node p (File c m) (files u1)\<rparr>)"
      using c t by (auto simp: fs_chmod_def split: option.splits node.splits)
    moreover have "step_in ?R u1 (u1\<lparr>files := put_node p (File c m) (files u1)\<rparr>)"
      if "lookup (files u1) p = Some (File c n)" for c n
    proof (rule set_files_step)
      show "wf_tree (files u1) \<longrightarrow> wf_tree (put_node p (File c m) (files u1))"
        using that wf_treeD [of "files u1" p] by (cases "p = []") (auto intro!: wf_put_node)
      show "same_outside ?R (files u1) (put_node p (File c m) (files u1))"
        using that same reads_files [OF take_fault_reads [OF t]]
        by (cases "p = []") (auto simp: same_outside_def lookup_put_node)
    qed
    ultimately show ?thesis using step_in_trans [OF s1] s1 by blast
  qed
  obtain x w1 where p: "fs_permissions p w = (x, w1)" by fastforce
  note r1 = reads_perm [OF p]
  have chmod1: "step_in ?R w v" if "fs_chmod p m w1 = (y, v)" for y v m
    using step_in_trans [OF reads_step [OF r1] chmod [OF that reads_files [OF r1]]] .
  show ?thesis
    using assms p reads_step [OF r1] chmod1 by (auto simp: make_executable_def split: sum.splits if_splits)
qed

lemma boot_identity_reads: "boot_identity w = (r, w') \<Longrightarrow> reads w w'"
  by (auto simp: boot_identity_def read_boot_id_def Let_def dest: take_fault_reads
      split: prod.splits option.splits if_splits)

end
