(* ===== verification/EngineProcesses.thy ===== *)
theory EngineProcesses
  imports DeploymentFacts
begin

text \<open>
  The engine never loses a process. \<open>single\<close> says that the agent has no child but the one the
  handle names; \<open>onward\<close> that nothing gone comes back and \<open>single\<close> is kept. The lemmas are proved
  once for every supervisor that keeps its contract and used for \<open>PosixProcessSupervisor\<close>.
\<close>

definition handle_ids :: "'a engine_scheme \<Rightarrow> int set" where
  "handle_ids w = (case engine_handle w of None \<Rightarrow> {} | Some h \<Rightarrow> {handle_id h})"

definition single :: "('a engine_scheme \<Rightarrow> bool) \<Rightarrow> 'a engine_scheme \<Rightarrow> bool" where
  "single intact w \<longleftrightarrow> intact w \<and> offspring w \<subseteq> handle_ids w"

definition past :: "'a os_scheme \<Rightarrow> 'a os_scheme \<Rightarrow> bool" where
  "past w w' \<longleftrightarrow> (\<forall>h. gone h w \<longrightarrow> gone h w')"

definition onward :: "('a engine_scheme \<Rightarrow> bool) \<Rightarrow> 'a engine_scheme \<Rightarrow> 'a engine_scheme \<Rightarrow> bool" where
  "onward intact w w' \<longleftrightarrow> past w w' \<and> (single intact w \<longrightarrow> single intact w')"

text \<open>\<open>in_hand\<close>: the process of the handle is still the handle's, or gone.\<close>

definition in_hand ::
    "(process_handle \<Rightarrow> 'a engine_scheme \<Rightarrow> bool) \<Rightarrow> 'a engine_scheme \<Rightarrow> 'a engine_scheme \<Rightarrow> bool" where
  "in_hand held w w' \<longleftrightarrow>
     (\<forall>h. engine_handle w = Some h \<longrightarrow> held h w \<longrightarrow>
        engine_handle w' = Some h \<and> held h w' \<or> gone h w')"

lemma past_refl [simp]: "past w w"
  by (simp add: past_def)

lemma past_trans: "past w w1 \<Longrightarrow> past w1 w2 \<Longrightarrow> past w w2"
  by (simp add: past_def)

lemma evolves_past: "evolves w w' \<Longrightarrow> past w w'"
  using gone_evolves by (auto simp: past_def)

lemma same_os_gone: "same_os w w' \<Longrightarrow> gone h w' = gone h w"
  by (simp add: same_os_def gone_def no_return_def no_twin_def present_def)

lemma same_os_offspring: "same_os w w' \<Longrightarrow> offspring w' = offspring w"
  by (simp add: same_os_def offspring_def)

lemma onward_refl [simp]: "onward intact w w"
  by (simp add: onward_def)

lemma onward_trans: "onward intact w w1 \<Longrightarrow> onward intact w1 w2 \<Longrightarrow> onward intact w w2"
  using past_trans by (auto simp: onward_def)

lemma in_hand_past: "in_hand held w w1 \<Longrightarrow> engine_handle w1 = None \<Longrightarrow> past w1 w2 \<Longrightarrow> in_hand held w w2"
  by (auto simp: in_hand_def past_def)

lemma same_os_detail: "same_os w (set_detail s w)" "engine_handle (set_detail s w) = engine_handle w"
  by (simp_all add: same_os_def set_detail_def)

lemma same_os_handle: "same_os w (w\<lparr>engine_handle := h\<rparr>)"
  by (simp add: same_os_def)

lemma files_step_handle: "files_step w (w' :: 'a engine_scheme) \<Longrightarrow> engine_handle w' = engine_handle w"
  using disk_same(3) more_engine(1) by blast

lemma evolves_handle: "evolves w (w' :: 'a engine_scheme) \<Longrightarrow> engine_handle w' = engine_handle w"
  by (rule more_engine) (simp add: evolves_def)

text \<open>Whatever holds of the world and is kept by the probe and by sleeping holds after the loop.\<close>

lemma ready_loop_keeps:
  assumes "\<And>w r w'. P w \<Longrightarrow> probe w = (r, w') \<Longrightarrow> P w'"
    and "\<And>w d. P w \<Longrightarrow> P (os_sleep d w)"
    and "ready_loop probe deadline span c w = Some (r, w')" "P w"
  shows "P w'"
proof -
  have "p = probe \<longrightarrow> P w \<longrightarrow> P (snd y)" if loop: "ready_loop p d s c w = Some y" for p d s c w y
  proof (rule ready_loop.raw_induct [OF _ loop])
    fix loop p d s c w y
    assume IH: "\<And>p d s c w y. loop p d s c w = Some y \<Longrightarrow> p = probe \<longrightarrow> P w \<longrightarrow> P (snd y)"
      and run: "(if steady w < d then
        (case evaluate (Some p) c w of
           (c1, w1) \<Rightarrow>
             if health c1 = Healthy then Some (Inr (), w1)
             else if health c1 = Unhealthy then
               Some (Inl (case last_error c1 of Some e \<Rightarrow> e | None \<Rightarrow> ''health check failed''), w1)
             else loop p d s c1 (os_sleep (interval (spec c1)) w1))
      else
        Some (Inl (''readiness not confirmed within '' @ s @ ''s: '' @
                   (case last_error c of Some e \<Rightarrow> e | None \<Rightarrow> ''no successful probe'')), w)) = Some y"
    show "p = probe \<longrightarrow> P w \<longrightarrow> P (snd y)"
    proof (intro impI)
      assume p: "p = probe" and w: "P w"
      obtain c1 w1 where e: "evaluate (Some probe) c w = (c1, w1)" by fastforce
      have w1: "P w1" using e w assms(1) by (auto simp: evaluate_def split: prod.splits sum.splits)
      show "P (snd y)"
        using run p e w w1 IH [of p d s c1 "os_sleep (interval (spec c1)) w1" y] assms(2) [OF w1]
        by (auto split: if_splits)
    qed
  qed
  then show ?thesis using assms(3,4) by fastforce
qed

section \<open>The engine as a client of the supervisor\<close>

locale engine_client = process_supervisor "supervisor E" intact held
  for E :: "'b engine_scheme parts"
    and intact :: "'b engine_scheme \<Rightarrow> bool"
    and held :: "process_handle \<Rightarrow> 'b engine_scheme \<Rightarrow> bool"
begin

lemma same_onward:
  assumes "same_os w w'" "engine_handle w' = engine_handle w"
  shows "onward intact w w'" "single intact w' = single intact w" "held h w' = held h w"
  using processes_only [OF assms(1)] same_os_gone [OF assms(1)] same_os_offspring [OF assms(1)] assms(2)
  by (auto simp: onward_def past_def single_def handle_ids_def)

lemma disk_onward:
  assumes "files_step w w'"
  shows "onward intact w w'" "held h w' = held h w"
  using same_onward [OF disk_same(1) [OF assms] files_step_handle [OF assms]] by auto

lemma disk_past:
  fixes w :: "'b engine_scheme"
  shows "files_step w w' \<Longrightarrow> past w w'"
  using disk_onward(1) [of w w'] by (simp add: onward_def)

lemma disk_in_hand: "files_step w w1 \<Longrightarrow> in_hand held w1 w2 \<Longrightarrow> in_hand held w w2"
  using files_step_handle [of w w1] disk_onward(2) [of w w1] by (simp add: in_hand_def)

lemma stays_in_hand:
  assumes "engine_handle w' = engine_handle w" "\<And>h. held h w \<Longrightarrow> held h w'"
  shows "in_hand held w w'"
  using assms by (simp add: in_hand_def)

lemma detail_onward:
  "onward intact w (set_detail s w)" "single intact (set_detail s w) = single intact w"
  "held h (set_detail s w) = held h w" "past w (set_detail s w)"
  "in_hand held w' (set_detail s w) = in_hand held w' w"
proof -
  note s = same_onward [OF same_os_detail]
  show "onward intact w (set_detail s w)" "single intact (set_detail s w) = single intact w"
    "held h (set_detail s w) = held h w"
    using s by blast+
  show "past w (set_detail s w)" using s by (simp add: onward_def)
  have "gone h (set_detail s w) = gone h w" "held h (set_detail s w) = held h w" for h
    using same_os_gone [OF same_os_detail(1)] s(3) by blast+
  then show "in_hand held w' (set_detail s w) = in_hand held w' w"
    by (simp add: in_hand_def same_os_detail(2))
qed

lemma clear_record_onward:
  fixes w :: "'b engine_scheme"
  assumes "clear_record opts w = (r, w')"
  shows "onward intact w w'" "held h w' = held h w" "engine_handle w' = engine_handle w"
  using disk_onward [OF step_files [OF clear_record_step [OF assms]]]
    files_step_handle [OF step_files [OF clear_record_step [OF assms]]] by blast+

lemma engine_stop_onward:
  assumes "engine_stop E w = (r, w')"
  shows "onward intact w w'" "in_hand held w w'" "r = Inr () \<Longrightarrow> engine_handle w' = None"
proof -
  have "onward intact w w' \<and> in_hand held w w' \<and> (r = Inr () \<longrightarrow> engine_handle w' = None)"
  proof (cases "engine_handle w")
    case None
    then show ?thesis using assms by (simp add: engine_stop_def in_hand_def)
  next
    case (Some h)
    obtain u w1 where s: "sup_stop (supervisor E) h (stop_timeout (service E)) w = (u, w1)" by fastforce
    note e = stop_evolves [OF s]
    have h1: "engine_handle w1 = Some h" using evolves_handle [OF e] Some by simp
    show ?thesis
    proof (cases u)
      case (Inl x)
      then have "w' = w1" "r = Inl x" using assms Some s by (auto simp: engine_stop_def)
      then show ?thesis
        using Some h1 e stop_child [OF s] stop_held [OF s]
        by (auto simp: onward_def evolves_past single_def handle_ids_def in_hand_def)
    next
      case (Inr x)
      let ?w2 = "w1\<lparr>engine_handle := None\<rparr>"
      have c: "clear_record (install_opts E) ?w2 = (r, w')"
        using assms Some s Inr by (auto simp: engine_stop_def)
      note o = clear_record_onward [OF c]
      have p2: "past w ?w2"
        using evolves_past [OF e] same_os_gone [OF same_os_handle [of w1 None]] by (simp add: past_def)
      have s2: "single intact ?w2" if "single intact w"
        using that stop_child [OF s] Inr Some processes_only [OF same_os_handle [of w1 None]]
          same_os_offspring [OF same_os_handle [of w1 None]]
        by (auto simp: single_def handle_ids_def)
      have g: "gone h w'" if "held h w"
        using stop_gone [OF _ that] s Inr same_os_gone [OF same_os_handle [of w1 None]] o(1)
        by (simp add: onward_def past_def)
      show ?thesis
        using onward_trans [OF _ o(1), of w] p2 s2 g o(3) Some by (simp add: onward_def in_hand_def)
    qed
  qed
  then show "onward intact w w'" "in_hand held w w'" "r = Inr () \<Longrightarrow> engine_handle w' = None" by blast+
qed

text \<open>Launching may put a new process in the handle, so the handle has to be free before.\<close>

lemma launch_past:
  assumes "launch E release_id w = (r, w')"
  shows "past w w' \<and> (engine_handle w = None \<longrightarrow> onward intact w w')"
proof -
  let ?root = "release_directory (install_opts E) release_id"
  let ?exe = "path_append ?root (executable (service E))"
  obtain b w1 where e: "fs_exists (at w ?exe) w = (b, w1)" by fastforce
  obtain x w2 where m: "make_executable (at w1 ?exe) w1 = (x, w2)" by fastforce
  note d2 = files_step_trans [OF reads_files_step [OF exists_reads [OF e]] step_files [OF make_executable_step [OF m]]]
  let ?o = "\<lparr>executable_path = ?exe, arguments = service_arguments (service E),
       working_directory = (if service_directory (service E) = '''' then ?root else service_directory (service E)),
       option_environment = []\<rparr>"
  obtain y w3 where s: "sup_start (supervisor E) ?o w2 = (y, w3)" by fastforce
  note ev = start_evolves [OF s]
  have h3: "engine_handle w3 = engine_handle w"
    using evolves_handle [OF ev] files_step_handle [OF d2] by simp
  have p3: "past w w3" using past_trans [OF disk_past [OF d2] evolves_past [OF ev]] .
  have s2: "single intact w2 = single intact w"
    using same_onward(2) [OF disk_same(1) [OF d2] files_step_handle [OF d2]] .
  have o1: "onward intact w w1" using disk_onward [OF reads_files_step [OF exists_reads [OF e]]] by blast
  have o2: "onward intact w w2" using disk_onward [OF d2] by blast
  show ?thesis
  proof (cases "is_ok (validate_service_executable (service E)) \<and> b \<and> is_ok x")
    case False
    then have "w' = w \<or> w' = w1 \<or> w' = w2"
      using assms e m by (cases b; cases x) (auto simp: launch_def Let_def split: sum.splits)
    then show ?thesis using o1 o2 by (auto simp: onward_def)
  next
    case True
    then have go: "validate_service_executable (service E) = Inr ()" "b" "x = Inr ()"
      by (cases "validate_service_executable (service E)"; cases x; auto)+
    show ?thesis
    proof (cases y)
      case (Inl err)
      then have "w' = w3" using assms e m s go by (simp add: launch_def Let_def)
      moreover have "single intact w3" if "single intact w"
        using start_child [OF s] that s2 Inl h3 files_step_handle [OF d2] by (auto simp: single_def handle_ids_def)
      ultimately show ?thesis using p3 by (simp add: onward_def)
    next
      case (Inr h)
      let ?w3 = "w3\<lparr>engine_handle := Some h\<rparr>"
      obtain z w4 where bi: "boot_identity ?w3 = (z, w4)" by fastforce
      have f4: "files_step ?w3 w4" using reads_files_step [OF boot_identity_reads [OF bi]] .
      obtain v w5 where wr: "write_record (json E) (install_opts E)
          \<lparr>record_release = release_id, record_process = handle_id h, record_token = start_token h,
           record_boot = projr z\<rparr> w4 = (v, w5)" by fastforce
      have f5: "files_step ?w3 w5" using files_step_trans [OF f4 step_files [OF write_record_effect(1) [OF wr]]] .
      have w': "w' = w4 \<or> w' = w5"
        using assms e m s go Inr bi wr by (auto simp: launch_def Let_def split: sum.splits)
      have o: "onward intact ?w3 w'" using w' disk_onward [OF f4] disk_onward [OF f5] by blast
      have "single intact ?w3" if "single intact w" "engine_handle w = None"
        using start_child [OF s] that s2 Inr files_step_handle [OF d2] processes_only [OF same_os_handle [of w3 "Some h"]]
          same_os_offspring [OF same_os_handle [of w3 "Some h"]]
        by (auto simp: single_def handle_ids_def)
      moreover have "past w ?w3"
        using p3 same_os_gone [OF same_os_handle [of w3 "Some h"]] by (simp add: past_def)
      ultimately show ?thesis using o past_trans [of w ?w3 w'] by (auto simp: onward_def)
    qed
  qed
qed

text \<open>\<open>tends w w'\<close>: the processes may have gone on, the handle is the same.\<close>

definition tends :: "'b engine_scheme \<Rightarrow> 'b engine_scheme \<Rightarrow> bool" where
  "tends w w' \<longleftrightarrow> onward intact w w' \<and> engine_handle w' = engine_handle w \<and>
     (\<forall>h. engine_handle w = Some h \<longrightarrow> held h w \<longrightarrow> held h w')"

lemma tends_refl [simp]: "tends w w"
  by (simp add: tends_def)

lemma tends_trans: "tends w w1 \<Longrightarrow> tends w1 w2 \<Longrightarrow> tends w w2"
  using onward_trans by (auto simp: tends_def)

lemma tendsI:
  assumes "evolves w w'" "intact w \<Longrightarrow> intact w' \<and> offspring w' \<subseteq> offspring w"
    and "\<And>h. engine_handle w = Some h \<Longrightarrow> held h w \<Longrightarrow> held h w'"
  shows "tends w w'"
  using assms evolves_handle [OF assms(1)] evolves_past [OF assms(1)]
  by (auto simp: tends_def onward_def single_def handle_ids_def)

lemma tends_in_hand: "tends w w' \<Longrightarrow> in_hand held w w'"
  by (simp add: tends_def in_hand_def)

lemma disk_tends: "files_step w w' \<Longrightarrow> tends w w'"
  using disk_onward files_step_handle [of w w'] by (auto simp: tends_def)

lemma sleep_tends: "tends w (os_sleep d w)"
  by (rule tendsI [OF os_sleep_evolves]) (use sleep_intact sleep_held in blast)+

lemma probe_tends:
  assumes "make_probe E w0 = Some probe" "quiet_curl (http E)" "probe w = (r, w')"
    and "engine_handle w = engine_handle w0"
  shows "tends w w'"
proof (cases "kind (health_cfg E) = Process")
  case True
  then obtain h where h: "engine_handle w0 = Some h"
    "probe = process_probe (if has_supervisor E then Some (sup_status (supervisor E)) else None) h"
    using assms(1) by (auto simp: make_probe_def split: option.splits)
  show ?thesis
  proof (cases "has_supervisor E")
    case True
    then have p: "process_probe (Some (sup_status (supervisor E))) h w = (r, w')" using h assms(3) by simp
    show ?thesis
      by (rule tendsI [OF watch.probe_evolves [OF p] watch.probe_intact [OF p]])
        (use watch.probe_kept [OF p] h assms(4) in auto)
  next
    case False
    then show ?thesis using h assms(3) by (simp add: process_probe_def)
  qed
next
  case False
  then have "network_probe (http E) (health_cfg E) w = (r, w')"
    using assms(1,3) by (simp add: make_probe_def)
  then have p: "passes w w'" by (rule network_probe_passes [OF assms(2)])
  show ?thesis
    by (rule tendsI [OF passes_evolves [OF p] passes_intact [OF p] passes_held [OF p]])
qed

lemma await_ready_tends:
  assumes "await_ready E w = Some (r, w')" "quiet_curl (http E)"
  shows "tends w w'"
proof (cases "make_probe E w")
  case None
  then show ?thesis using assms(1) by (simp add: await_ready_def)
next
  case (Some probe)
  have run: "ready_loop probe (steady w + 1000 * startup_timeout (service E))
      (int_text (startup_timeout (service E)))
      (health_checker ((health_cfg E)\<lparr>purpose := Readiness\<rparr>)) w = Some (r, w')"
    using assms(1) Some by (simp add: await_ready_def)
  have "tends w w'"
  proof (rule ready_loop_keeps [OF _ _ run, where P = "tends w"])
    show "tends w v" if "tends w u" "probe u = (x, v)" for u x v
      by (rule tends_trans [OF that(1) probe_tends [OF Some assms(2) that(2)]]) (use that(1) in \<open>simp add: tends_def\<close>)
    show "tends w (os_sleep d u)" if "tends w u" for u d
      by (rule tends_trans [OF that sleep_tends])
  qed simp
  then show ?thesis .
qed

lemma tends_detail: "tends w w' \<Longrightarrow> tends w (set_detail s w')"
  by (auto simp: tends_def detail_onward same_os_detail(2) intro: onward_trans [OF _ detail_onward(1)])

section \<open>The composed operations\<close>

text \<open>\<open>secured w w'\<close>: what every public operation guarantees.\<close>

definition secured :: "'b engine_scheme \<Rightarrow> 'b engine_scheme \<Rightarrow> bool" where
  "secured w w' \<longleftrightarrow> onward intact w w' \<and> in_hand held w w'"

lemma tends_secured: "tends w w' \<Longrightarrow> secured w w'"
  using tends_in_hand by (simp add: secured_def tends_def)

lemma tends_then_secured: "tends w w1 \<Longrightarrow> secured w1 w2 \<Longrightarrow> secured w w2"
  using onward_trans by (auto simp: secured_def tends_def in_hand_def)

lemma freed_then: "secured w w1 \<Longrightarrow> engine_handle w1 = None \<Longrightarrow> onward intact w1 w2 \<Longrightarrow> secured w w2"
  using onward_trans in_hand_past by (auto simp: secured_def onward_def)

lemma secured_detail: "secured w w' \<Longrightarrow> secured w (set_detail s w')"
  by (auto simp: secured_def detail_onward intro: onward_trans [OF _ detail_onward(1)])

lemma engine_stop_secured:
  assumes "engine_stop E w = (r, w')"
  shows "secured w w'" "r = Inr () \<Longrightarrow> engine_handle w' = None"
  using engine_stop_onward [OF assms] by (auto simp: secured_def)

lemma launch_onward: "launch E release_id w = (r, w') \<Longrightarrow> engine_handle w = None \<Longrightarrow> onward intact w w'"
  using launch_past by blast

lemma secured_onward: "secured w w' \<Longrightarrow> onward intact w w'"
  by (simp add: secured_def)

end

context engine_client
begin

lemma disk_onward1: "files_step w w' \<Longrightarrow> onward intact w w'"
  using disk_onward(1) .

lemma recover_secured:
  assumes "recover E why w = (r, w')"
  shows "secured w w'"
proof -
  obtain x w1 where s: "engine_stop E w = (x, w1)" by fastforce
  note s1 = engine_stop_secured [OF s]
  obtain y w2 where rb: "rollback (json E) (install_opts E) w1 = (y, w2)" by fastforce
  note f2 = rollback_files [OF rb]
  obtain z w3 where l: "launch E (projr y) w2 = (z, w3)" by fastforce
  show ?thesis
  proof (cases x)
    case (Inl e)
    then show ?thesis using assms s s1 by (simp add: recover_def)
  next
    case (Inr u)
    have n1: "engine_handle w1 = None" using s1 Inr by simp
    have n2: "engine_handle w2 = None" using n1 files_step_handle [OF f2] by simp
    note o2 = disk_onward1 [OF f2]
    note o3 = onward_trans [OF o2 launch_onward [OF l n2]]
    have "w' = w2 \<or> w' = w3 \<or> (\<exists>d. w' = set_detail d w3)"
      using assms s Inr rb l by (auto simp: recover_def Let_def split: sum.splits)
    then have "onward intact w1 w'"
      using o2 o3 onward_trans [OF o3 detail_onward(1)] by blast
    then show ?thesis by (rule freed_then [OF s1(1) n1])
  qed
qed

lemma read_record_tends:
  assumes "read_record L opts w = (r, w')"
  shows "tends w w'"
proof -
  obtain b w1 where e: "fs_exists (at w (record_path opts)) w = (b, w1)" by fastforce
  obtain x w2 where rd: "fs_read (at w1 (record_path opts)) w1 = (x, w2)" by fastforce
  note f1 = reads_files_step [OF exists_reads [OF e]]
  note f2 = files_step_trans [OF f1 reads_files_step [OF read_reads [OF rd]]]
  have un: "tends w v" if u: "unreadable_record opts why w2 = (y, v)" for why y v
  proof -
    obtain z v1 where c: "clear_record opts (set_detail why w2) = (z, v1)" by fastforce
    have "v = v1" using u c by (auto simp: unreadable_record_def split: sum.splits)
    then show ?thesis
      using tends_trans [OF tends_detail [OF disk_tends [OF f2]] disk_tends [OF step_files [OF clear_record_step [OF c]]]]
      by simp
  qed
  show ?thesis
    using assms e rd disk_tends [OF f1] disk_tends [OF f2] un
    by (auto simp: read_record_def split: bool.splits option.splits sum.splits json.splits)
qed

lemma clear_detail_tends: "clear_record opts (set_detail s w) = (r, w') \<Longrightarrow> tends w w'"
  using tends_trans [OF tends_detail [OF tends_refl] disk_tends [OF step_files [OF clear_record_step]]] by blast

lemma resume_onward:
  assumes "resume E release_id w = (r, w')" "engine_handle w = None"
  shows "onward intact w w'"
proof -
  obtain x w1 where rr: "read_record (json E) (install_opts E) w = (x, w1)" by fastforce
  note t1 = read_record_tends [OF rr]
  obtain y w2 where bi: "boot_identity w1 = (y, w2)" by fastforce
  note t2 = tends_trans [OF t1 disk_tends [OF reads_files_step [OF boot_identity_reads [OF bi]]]]
  have n2: "engine_handle w2 = None" using t2 assms(2) by (simp add: tends_def)
  let ?h = "\<lparr>handle_id = record_process (projr x), start_token = record_token (projr x)\<rparr>"
  obtain z w3 where ad: "sup_adopt (supervisor E) ?h w2 = (z, w3)" by fastforce
  have t3: "tends w2 w3"
    by (rule tendsI [OF adopt_evolves [OF ad] adopt_child [OF ad]]) (use n2 in simp_all)
  note t3' = tends_trans [OF t2 t3]
  have n3: "engine_handle w3 = None" using t3 n2 by (simp add: tends_def)
  have o1: "onward intact w v" if "tends w v" for v using that by (simp add: tends_def)
  let ?w4 = "\<lambda>h. w3\<lparr>engine_handle := Some h\<rparr>"
  have o4: "onward intact w (?w4 h)" for h
  proof -
    have s: "same_os w3 (?w4 h)" by (rule same_os_handle)
    have "onward intact w3 (?w4 h)"
      using processes_only [OF s] same_os_gone [OF s] same_os_offspring [OF s] n3
      by (auto simp: onward_def past_def single_def handle_ids_def)
    then show ?thesis by (rule onward_trans [OF o1 [OF t3']])
  qed
  have stop4: "onward intact w v" if "engine_stop E (?w4 h) = (q, v)" for h q v
    by (rule onward_trans [OF o4 engine_stop_onward(1) [OF that]])
  have det: "onward intact w (set_detail s v)" if "onward intact w v" for s v
    by (rule onward_trans [OF that detail_onward(1)])
  have clr: "onward intact w v" if "tends w u" "clear_record (install_opts E) (set_detail s u) = (q, v)" for s u q v
    by (rule o1 [OF tends_trans [OF that(1) clear_detail_tends [OF that(2)]]])
  show ?thesis
    using assms(1) rr bi ad t1 t2 o1 t3' clr [OF t2] clr [OF t3'] o4 det stop4
    by (auto simp: resume_def Let_def split: sum.splits if_splits prod.splits)
qed

lemma start_active_onward:
  assumes "start_active E w = (r, w')" "engine_handle w = None"
  shows "onward intact w w'"
proof -
  obtain x w1 where st: "installer_state (json E) (install_opts E) w = (x, w1)" by fastforce
  note f1 = reads_files_step [OF installer_state_reads [OF st]]
  note o1 = disk_onward1 [OF f1]
  have n1: "engine_handle w1 = None" using files_step_handle [OF f1] assms(2) by simp
  obtain y w2 where rs: "resume E (active (projr x)) w1 = (y, w2)" by fastforce
  note o2 = onward_trans [OF o1 resume_onward [OF rs n1]]
  have "engine_handle w2 = None \<Longrightarrow> launch E rid w2 = (q, v) \<Longrightarrow> onward intact w v" for rid q v
    using onward_trans [OF o2 launch_onward] by blast
  then show ?thesis
    using assms(1) st rs o1 o2 by (auto simp: start_active_def split: sum.splits if_splits)
qed

end

context engine_client
begin

lemma switch_over_onward:
  assumes "switch_over E release_id w = Some (r, w')" "quiet_curl (http E)" "engine_handle w = None"
  shows "onward intact w w'"
proof -
  obtain x1 w1 where c1: "activate (json E) (install_opts E) release_id w = (x1, w1)" by fastforce
  note o1 = disk_onward1 [OF activate_files [OF c1]]
  have n1: "engine_handle w1 = None" using files_step_handle [OF activate_files [OF c1]] assms(3) by simp
  obtain x2 w2 where c2: "launch E release_id w1 = (x2, w2)" by fastforce
  note o2 = onward_trans [OF o1 launch_onward [OF c2 n1]]
  have rec: "onward intact w v" if "onward intact w u" "recover E why u = (q, v)" for why u q v
    by (rule onward_trans [OF that(1) secured_onward [OF recover_secured [OF that(2)]]])
  have act: "onward intact w v" if "start_active E w1 = (q, v)" for q v
    by (rule onward_trans [OF o1 start_active_onward [OF that n1]])
  have rdy: "onward intact w v" if "await_ready E w2 = Some (q, v)" for q v
    using onward_trans [OF o2] await_ready_tends [OF that assms(2)] by (simp add: tends_def)
  have fin: "onward intact w (set_detail d v)"
    if "await_ready E w2 = Some (q, u)" "prune (json E) (install_opts E) u = (p, v)" for q u p v d
    by (rule onward_trans [OF onward_trans [OF rdy [OF that(1)] disk_onward1 [OF prune_files [OF that(2)]]]
          detail_onward(1)])
  show ?thesis
    using assms(1) c1 c2 act rec [OF o2] rec [OF rdy] fin
    by (auto simp: switch_over_def split: sum.splits option.splits prod.splits)
qed

lemma deploy_apply_secured:
  assumes "deploy_apply E release_id source_directory w = Some (r, w')" "quiet_curl (http E)"
  shows "secured w w'"
proof -
  obtain x1 w1 where c1: "install (install_opts E) release_id source_directory w = (x1, w1)" by fastforce
  obtain x2 w2 where c2: "installer_state (json E) (install_opts E) w1 = (x2, w2)" by fastforce
  obtain x3 w3 where c3: "engine_stop E w2 = (x3, w3)" by fastforce
  note t1 = disk_tends [OF install_files [OF c1]]
  note t2 = tends_trans [OF t1 disk_tends [OF reads_files_step [OF installer_state_reads [OF c2]]]]
  note s3 = tends_then_secured [OF t2 engine_stop_secured(1) [OF c3]]
  have on: "secured w v" if "x3 = Inr ()" "switch_over E release_id w3 = Some (q, v)" for q v
    using freed_then [OF s3] switch_over_onward [OF that(2) assms(2)] engine_stop_secured(2) [OF c3 that(1)]
    by blast
  show ?thesis
    using assms(1) c1 c2 c3 tends_secured [OF tends_refl] tends_secured [OF t1] tends_secured [OF t2] s3 on
    by (auto simp: deploy_apply_def split: sum.splits if_splits)
qed

lemma rollback_to_secured:
  assumes "rollback_to E release_id w = (r, w')"
  shows "secured w w'"
proof -
  obtain b w1 where c1: "fs_is_directory (at w (release_directory (install_opts E) release_id)) w = (b, w1)"
    by fastforce
  obtain x2 w2 where c2: "engine_stop E w1 = (x2, w2)" by fastforce
  obtain x3 w3 where c3: "activate (json E) (install_opts E) release_id w2 = (x3, w3)" by fastforce
  obtain x4 w4 where c4: "launch E release_id w3 = (x4, w4)" by fastforce
  note t1 = disk_tends [OF reads_files_step [OF is_directory_reads [OF c1]]]
  note s2 = tends_then_secured [OF t1 engine_stop_secured(1) [OF c2]]
  have on: "secured w v" if "x2 = Inr ()" "onward intact w2 v" for v
    using freed_then [OF s2 engine_stop_secured(2) [OF c2 that(1)] that(2)] .
  note o3 = disk_onward1 [OF activate_files [OF c3]]
  have o4: "onward intact w2 w4" if "x2 = Inr ()"
    using onward_trans [OF o3 launch_onward [OF c4]] engine_stop_secured(2) [OF c2 that]
      files_step_handle [OF activate_files [OF c3]] by simp
  show ?thesis
    using assms c1 c2 c3 c4 tends_secured [OF tends_refl] tends_secured [OF t1] s2 on o3 o4
      onward_trans [OF o4 detail_onward(1)]
    by (auto simp: rollback_to_def split: if_splits sum.splits bool.splits)
qed

lemma restart_secured:
  assumes "restart E w = Some (r, w')" "quiet_curl (http E)"
  shows "secured w w'"
proof -
  obtain x1 w1 where c1: "installer_state (json E) (install_opts E) w = (x1, w1)" by fastforce
  obtain x2 w2 where c2: "engine_stop E w1 = (x2, w2)" by fastforce
  obtain x3 w3 where c3: "launch E (active (projr x1)) w2 = (x3, w3)" by fastforce
  note t1 = disk_tends [OF reads_files_step [OF installer_state_reads [OF c1]]]
  note s2 = tends_then_secured [OF t1 engine_stop_secured(1) [OF c2]]
  have on: "secured w v" if "x2 = Inr ()" "onward intact w2 v" for v
    using freed_then [OF s2 engine_stop_secured(2) [OF c2 that(1)] that(2)] .
  have o3: "onward intact w2 w3" if "x2 = Inr ()"
    using launch_onward [OF c3 engine_stop_secured(2) [OF c2 that]] .
  have o4: "onward intact w2 v" if "x2 = Inr ()" "await_ready E w3 = Some (q, v)" for q v
    using onward_trans [OF o3 [OF that(1)]] await_ready_tends [OF that(2) assms(2)] by (simp add: tends_def)
  have o5: "onward intact w2 (set_detail d v)" if "x2 = Inr ()" "await_ready E w3 = Some (q, v)" for q v d
    using onward_trans [OF o4 [OF that] detail_onward(1)] .
  show ?thesis
    using assms(1) c1 c2 c3 tends_secured [OF tends_refl] tends_secured [OF t1] s2 on o3 o4 o5
    by (auto simp: restart_def split: if_splits sum.splits option.splits)
qed

lemma running_tends:
  assumes "running E w = (b, w')"
  shows "tends w w'"
proof (cases "engine_handle w = None \<or> \<not> has_supervisor E")
  case True
  then show ?thesis using assms by (auto simp: running_def split: option.splits)
next
  case False
  then obtain h where h: "engine_handle w = Some h" by (cases "engine_handle w") auto
  obtain s w1 where st: "sup_status (supervisor E) h w = (s, w1)" by fastforce
  then have "w' = w1" using assms False h by (auto simp: running_def split: sum.splits)
  then show ?thesis
    using tendsI [OF status_evolves [OF st] status_child [OF st]] status_held [OF st] h by auto
qed

end

section \<open>The engine of the agent\<close>

text \<open>What \<open>make_engine\<close> of \<open>YirangAgent/main.cpp\<close> puts together.\<close>

definition posix_parts ::
    "json_lib \<Rightarrow> 'a engine_scheme curl \<Rightarrow> install_options \<Rightarrow> service_spec \<Rightarrow> health_spec \<Rightarrow> 'a engine_scheme parts" where
  "posix_parts L C opts svc hc =
     \<lparr>json = L, http = C, has_installer = True, has_supervisor = True, install_opts = opts,
      supervisor = posix_supervisor, service = svc, health_cfg = hc\<rparr>"

lemma posix_parts_fields [simp]:
  "json (posix_parts L C opts svc hc) = L" "http (posix_parts L C opts svc hc) = C"
  "install_opts (posix_parts L C opts svc hc) = opts" "service (posix_parts L C opts svc hc) = svc"
  "health_cfg (posix_parts L C opts svc hc) = hc" "supervisor (posix_parts L C opts svc hc) = posix_supervisor"
  "configured (posix_parts L C opts svc hc)" "has_supervisor (posix_parts L C opts svc hc)"
  by (simp_all add: posix_parts_def configured_def)

interpretation agent_engine: engine_client "posix_parts L C opts svc hc" books tracked for L C opts svc hc
  by (simp add: engine_client_def posix.process_supervisor_axioms)

text \<open>
  The life of an agent: it starts the active release once, then carries out operations in any
  order, while other parts of it work on the disk and time passes.
\<close>

inductive engine_step :: "'a engine_scheme parts \<Rightarrow> 'a engine_scheme \<Rightarrow> 'a engine_scheme \<Rightarrow> bool" for E where
  starting: "engine_handle w = None \<Longrightarrow> start_active E w = (r, w') \<Longrightarrow> engine_step E w w'"
| applying: "deploy_apply E release_id source_directory w = Some (r, w') \<Longrightarrow> engine_step E w w'"
| rolling_back: "rollback_to E release_id w = (r, w') \<Longrightarrow> engine_step E w w'"
| restarting: "restart E w = Some (r, w') \<Longrightarrow> engine_step E w w'"
| stopping: "engine_stop E w = (r, w') \<Longrightarrow> engine_step E w w'"
| asking: "running E w = (b, w') \<Longrightarrow> engine_step E w w'"
| working: "files_step w w' \<Longrightarrow> engine_step E w w'"
| resting: "engine_step E w (os_sleep d w)"

lemma engine_step_onward:
  assumes "engine_step (posix_parts L C opts svc hc) w w'" "quiet_curl C"
  shows "onward books w w'"
  using assms(1)
proof cases
  case (starting r)
  then show ?thesis using agent_engine.start_active_onward by blast
next
  case (applying release_id source_directory r)
  then show ?thesis
    using agent_engine.secured_onward [OF agent_engine.deploy_apply_secured] assms(2) by simp
next
  case (rolling_back release_id r)
  then show ?thesis using agent_engine.secured_onward [OF agent_engine.rollback_to_secured] by blast
next
  case (restarting r)
  then show ?thesis using agent_engine.secured_onward [OF agent_engine.restart_secured] assms(2) by simp
next
  case (stopping r)
  then show ?thesis using agent_engine.engine_stop_onward by blast
next
  case (asking b)
  then show ?thesis using agent_engine.running_tends [OF asking] by (simp add: agent_engine.tends_def)
next
  case working
  then show ?thesis using agent_engine.disk_onward1 by blast
next
  case (resting d)
  then show ?thesis using agent_engine.sleep_tends [of w d] resting by (simp add: agent_engine.tends_def)
qed

lemma engine_run_onward:
  assumes "(engine_step (posix_parts L C opts svc hc))\<^sup>*\<^sup>* w w'" "quiet_curl C"
  shows "onward books w w'"
  using assms(1)
proof (induction rule: rtranclp_induct)
  case (step w1 w2)
  then show ?case using onward_trans engine_step_onward assms(2) by blast
qed simp

text \<open>
  The agent never has a second child. From a start without children, after any sequence of
  deployments, rollbacks, restarts and stops, whatever fails in them and however the other
  processes behave, every child process in the table, running or waiting to be reaped, is the
  one the engine's handle names. So no instance of the service is left running or unreaped
  behind a later one, on no error path.
\<close>

theorem engine_single_child:
  assumes "(engine_step (posix_parts L C opts svc hc))\<^sup>*\<^sup>* w0 w" "quiet_curl C"
    and "books w0" "\<forall>i p. map_of (procs w0) i = Some p \<longrightarrow> \<not> is_child p"
    and "map_of (procs w) i = Some p" "is_child p"
  shows "\<exists>h. engine_handle w = Some h \<and> handle_id h = i"
proof -
  have "single books w0" using assms(3,4) by (auto simp: single_def offspring_def)
  then have "single books w" using engine_run_onward [OF assms(1,2)] by (simp add: onward_def)
  then have "i \<in> handle_ids w" using assms(5,6) by (auto simp: single_def offspring_def)
  then show ?thesis by (auto simp: handle_ids_def split: option.splits)
qed

text \<open>
  C12: A process in the engine's hands is never lost. If the engine holds a handle from \<open>start\<close> or
  \<open>adopt\<close>, then after \<open>apply\<close>, \<open>rollback_to\<close>, \<open>restart\<close> or \<open>stop\<close>, successful or not, it either still
  holds this very handle or the process is not in the process table any more: none of these four
  replaces or drops the handle of a process that may still run. \<open>start_active\<close> is not among them:
  the agent calls it once, at its start, when no handle is held.
\<close>

theorem engine_keeps_or_ends:
  assumes "engine_handle w = Some h" "tracked h w" "quiet_curl C"
    and "E = posix_parts L C opts svc hc"
    and "(\<exists>r. deploy_apply E release_id source_directory w = Some (r, w')) \<or>
      (\<exists>r. rollback_to E release_id w = (r, w')) \<or> (\<exists>r. restart E w = Some (r, w')) \<or>
      (\<exists>r. engine_stop E w = (r, w'))"
  shows "engine_handle w' = Some h \<or>
    \<not> (\<exists>p. map_of (procs w') (handle_id h) = Some p \<and>
      parse_start_token (handle_id h) (getline (stat_text p)) = Inr (start_token h))"
proof -
  have q: "quiet_curl (http E)" using assms(3,4) by simp
  have "agent_engine.secured w w'"
    using assms(5) unfolding assms(4)
  proof (elim disjE exE)
    fix r
    assume "deploy_apply (posix_parts L C opts svc hc) release_id source_directory w = Some (r, w')"
    then show ?thesis by (rule agent_engine.deploy_apply_secured) (simp add: assms(3))
  next
    fix r
    assume "rollback_to (posix_parts L C opts svc hc) release_id w = (r, w')"
    then show ?thesis by (rule agent_engine.rollback_to_secured)
  next
    fix r
    assume "restart (posix_parts L C opts svc hc) w = Some (r, w')"
    then show ?thesis by (rule agent_engine.restart_secured) (simp add: assms(3))
  next
    fix r
    assume "engine_stop (posix_parts L C opts svc hc) w = (r, w')"
    then show ?thesis by (rule agent_engine.engine_stop_secured)
  qed
  then show ?thesis
    using assms(1,2) unfolding agent_engine.secured_def in_hand_def gone_def present_def has_token_def by blast
qed

end
