(* ===== verification/EngineDisk.thy ===== *)
theory EngineDisk
  imports EngineProcesses
begin

text \<open>
  What the engine's operations do on the disk: \<open>spares R w w'\<close> says that nothing outside the region
  \<open>R\<close> changes, that the tree stays well formed with proper names, and that an exhausted fault plan
  stays so. Then: the executable lies inside its release, the runtime record reads back, a
  successful deployment has everything in place, a failed one brings the old release back.
\<close>

definition spares :: "(fpath \<Rightarrow> bool) \<Rightarrow> 'a machine_scheme \<Rightarrow> 'a machine_scheme \<Rightarrow> bool" where
  "spares R w w' \<longleftrightarrow>
     cwd w' = cwd w \<and> wall w' = wall w \<and> (\<forall>q. \<not> R q \<longrightarrow> lookup (files w') q = lookup (files w) q) \<and>
     (wf_tree (files w) \<longrightarrow> wf_tree (files w')) \<and> (proper w \<longrightarrow> proper w') \<and>
     (faults w = [] \<longrightarrow> faults w' = [])"

lemma spares_refl [simp]: "spares R w w"
  by (simp add: spares_def)

lemma spares_trans: "spares R w w1 \<Longrightarrow> spares R w1 w2 \<Longrightarrow> spares R w w2"
  by (simp add: spares_def)

lemma spares_mono: "spares R w w' \<Longrightarrow> (\<And>q. R q \<Longrightarrow> S q) \<Longrightarrow> spares S w w'"
  by (auto simp: spares_def)

lemma spares_at: "spares R w w' \<Longrightarrow> at w' s = at w s"
  by (simp add: spares_def at_def)

lemma spares_lookup: "spares R w w' \<Longrightarrow> \<not> R q \<Longrightarrow> lookup (files w') q = lookup (files w) q"
  by (simp add: spares_def)

lemma spares_step:
  assumes "step_in R w w'" "proper w \<Longrightarrow> proper w'" "faults w = [] \<Longrightarrow> faults w' = []"
  shows "spares R w w'"
  using assms step_in_lookup [OF assms(1)] step_in_fields [OF assms(1)] step_in_wf [OF assms(1)]
  by (simp add: spares_def)

lemma spares_evolves: "evolves w w' \<Longrightarrow> spares R w w'"
  by (simp add: evolves_def spares_def proper_def)

lemma spares_client: "spares R w (set_detail s w)" "spares R w (w\<lparr>engine_handle := h\<rparr>)"
  by (simp_all add: spares_def set_detail_def proper_def)

lemma boot_identity_spares: "boot_identity w = (r, w') \<Longrightarrow> spares R w w'"
proof (rule spares_step)
  assume b: "boot_identity w = (r, w')"
  show "step_in R w w'" by (rule reads_step [OF boot_identity_reads [OF b]])
  show "proper w \<Longrightarrow> proper w'" using reads_proper [OF boot_identity_reads [OF b]] by simp
  show "faults w = [] \<Longrightarrow> faults w' = []"
    using b by (auto simp: boot_identity_def read_boot_id_def Let_def dest: take_fault_calm
      split: prod.splits option.splits if_splits)
qed

lemma clear_record_spares:
  assumes "clear_record opts w = (r, w')"
  shows "spares (record_region (root_at w opts)) w w'"
proof (rule spares_step [OF clear_record_step [OF assms]])
  show "proper w \<Longrightarrow> proper w'"
    using assms by (auto simp: clear_record_def dest: remove_proper split: prod.splits sum.splits)
  show "faults w = [] \<Longrightarrow> faults w' = []"
    using assms by (auto simp: clear_record_def dest: remove_calm split: prod.splits sum.splits)
qed

lemma write_record_spares:
  assumes "write_record L opts next w = (r, w')"
  shows "spares (record_region (root_at w opts)) w w'"
proof (rule spares_step [OF write_record_effect(1) [OF assms]])
  show "proper w \<Longrightarrow> proper w'"
    using assms by (auto simp: write_record_def Let_def dest!: write_proper rename_proper
      split: prod.splits sum.splits write_result.splits simp del: at_record_path at_record_temporary)
  show "faults w = [] \<Longrightarrow> faults w' = []"
    using assms by (auto simp: write_record_def Let_def dest!: write_calm rename_calm
      split: prod.splits sum.splits write_result.splits)
qed

lemma make_executable_spares:
  assumes "make_executable p w = (r, w')"
  shows "spares (\<lambda>q. q = p \<and> is_file (lookup (files w) p)) w w'"
proof (rule spares_step [OF make_executable_step [OF assms]])
  show "faults w = [] \<Longrightarrow> faults w' = []"
    using assms by (auto simp: make_executable_def fs_permissions_def fs_chmod_def dest!: take_fault_calm
        split: prod.splits option.splits sum.splits node.splits if_splits)
  assume p: "proper w"
  have chmod: "proper v" if c: "fs_chmod p m u = (x, v)" "proper u" for u v :: "'a machine_scheme" and x m
  proof -
    obtain f u1 where t: "take_fault u = (f, u1)" by fastforce
    have u1: "proper u1" by (rule take_fault_proper [OF t c(2)])
    have "proper (u1\<lparr>files := put_node p (File n m) (files u1)\<rparr>)" if "lookup (files u1) p \<noteq> None" for n
    proof (rule proper_files [OF u1 proper_put_node])
      show "proper_names (files u1)" using u1 by (simp add: proper_def)
      then show "list_all plain_name p" using proper_names_lookup that by blast
    qed
    then show ?thesis using c(1) t u1 by (auto simp: fs_chmod_def split: option.splits node.splits)
  qed
  have "proper v" if "fs_permissions p w = (x, v)" for x v
    using that p by (auto simp: fs_permissions_def dest: take_fault_proper
        split: prod.splits option.splits node.splits)
  then show "proper w'"
    using assms p chmod by (fastforce simp: make_executable_def split: prod.splits sum.splits if_splits)
qed

section \<open>The executable\<close>

lemma validated_executable:
  assumes "validate_service_executable s = Inr ()"
  shows "\<exists>cs. (\<forall>(w :: 'a machine_scheme) p. at w (path_append p (executable s)) = at w p @ cs) \<and>
    (\<forall>c \<in> set cs. c \<noteq> '''' \<and> c \<noteq> ''.'' \<and> c \<noteq> ''..'')"
proof -
  have v: "\<not> fst (lexically_normal (executable s))" "path_begin (lexically_normal (executable s)) \<noteq> ''..''"
    using assms by (auto simp: validate_service_executable_def validate_release_relative_path_def Let_def
        split: if_splits)
  then have "\<not> is_absolute (executable s)" by (simp add: lexically_normal_def)
  note inside = locate_relative_inside [OF this v(2)]
  show ?thesis
    by (rule exI [of _ "snd (lexically_normal (executable s))"]) (use inside in \<open>simp add: at_def\<close>)
qed

text \<open>
  C40: The service's executable always lies inside its release. When the configured path is accepted,
  the position the engine starts for a release is the release's own directory followed by proper
  names only: no absolute path and no combination of \<open>..\<close>, \<open>.\<close> and doubled slashes leads out.
  (\<open>launch\<close> starts exactly this position; a symbolic link inside the release is not followed here.)
\<close>

theorem executable_stays_inside:
  fixes w :: "'a machine_scheme"
  assumes "validate_service_executable s = Inr ()" "install_validate_release_id release_id = Inr ()"
  shows "\<exists>cs. at w (path_append (release_directory opts release_id) (executable s)) =
      releases_at w opts @ [release_id] @ cs \<and> (\<forall>c \<in> set cs. c \<noteq> '''' \<and> c \<noteq> ''.'' \<and> c \<noteq> ''..'')"
proof -
  obtain cs where cs: "\<forall>(w :: 'a machine_scheme) p. at w (path_append p (executable s)) = at w p @ cs"
    "\<forall>c \<in> set cs. c \<noteq> '''' \<and> c \<noteq> ''.'' \<and> c \<noteq> ''..''"
    using validated_executable [OF assms(1)] by blast
  show ?thesis
    by (rule exI [of _ cs]) (use cs at_release(1) [OF assms(2), of w opts] in simp)
qed
section \<open>The runtime record\<close>

definition plain_record :: "runtime_record \<Rightarrow> bool" where
  "plain_record r \<longleftrightarrow> plain_text (record_release r) \<and> plain_text (record_boot r) \<and>
     - (2 ^ 63) \<le> record_process r \<and> record_process r < 2 ^ 63"

lemma load_record_plain:
  "plain_record r \<Longrightarrow> load_record [(''release_id'', JString (record_release r)),
      (''process_id'', JInt64 (word_of_int (record_process r))), (''start_token'', JInt64 (record_token r)),
      (''boot_identity'', JString (record_boot r))] = r"
  by (cases r) (simp add: load_record_def string_field_def int64_field_def plain_record_def
      signed_of_int signed_take_bit_int_eq_self)

lemma read_record_file:
  fixes w :: "'a engine_scheme"
  assumes "boost_json L" "faults w = []" "plain_record r"
    and "lookup (files w) (root_at w opts @ [''runtime.json'']) = Some (File (record_text L r) m)"
  shows "read_record L opts w = (Inr r, w)"
proof -
  have "json_plain (record_json r)" "json_depth (record_json r) \<le> 32"
    using assms(3) by (simp_all add: record_json_def plain_record_def plain_text_def is_ascii_def)
  then have "parse_text L (record_text L r) = Inr (canon (record_json r))"
    using boost_json_parse [OF assms(1)] by (simp add: record_text_def)
  then have p: "parse_text L (record_text L r) = Inr (record_json r)" by (simp add: record_json_def)
  show ?thesis
    using assms(2,4) p load_record_plain [OF assms(3)]
    by (simp add: read_record_def fs_exists_def fs_read_def take_fault_none record_json_def)
qed

text \<open>
  C30: The record of the running instance survives a restart of the agent: what \<open>write_record\<close> wrote
  without an I/O error is what \<open>record\<close> reads back, for every release id and boot identity of plain
  text, every process id, and every 64-bit start token, also those of \<open>2 ^ 63\<close> and more that JSON
  carries as negative numbers.
\<close>

theorem record_roundtrip:
  fixes w :: "'a engine_scheme"
  assumes "boost_json L" "faults w = []" "write_record L opts r w = (Inr (), w')"
    and "plain_text (record_release r)" "plain_text (record_boot r)"
    and "- (2 ^ 63) \<le> record_process r" "record_process r < 2 ^ 63"
  shows "read_record L opts w' = (Inr r, w')"
proof -
  note s = write_record_spares [OF assms(3)]
  obtain m where "lookup (files w') (root_at w opts @ [''runtime.json'']) = Some (File (record_text L r) m)"
    using write_record_effect(2) [OF assms(3)] by auto
  then show ?thesis
    using read_record_file [OF assms(1), of w' r opts m] s assms spares_at [OF s]
    by (simp add: plain_record_def spares_def)
qed

text \<open>
  Recording is atomic, whatever call fails: \<open>write_record\<close> leaves \<open>runtime.json\<close> as it was and
  reports an error, or leaves the complete new document and reports success; it touches nothing
  but this file and its temporary file.
\<close>

theorem write_record_atomic:
  assumes "write_record L opts r w = (x, w')"
  shows "(case x of
      Inl e \<Rightarrow> lookup (files w') (root_at w opts @ [''runtime.json'']) =
                lookup (files w) (root_at w opts @ [''runtime.json''])
    | Inr u \<Rightarrow> \<exists>m. lookup (files w') (root_at w opts @ [''runtime.json'']) =
                Some (File (serialize_value L (record_json r)) m)) \<and>
    (\<forall>q. \<not> prefix (root_at w opts @ [''runtime.json'']) q \<longrightarrow>
       \<not> prefix (root_at w opts @ [''runtime.json.tmp'']) q \<longrightarrow> lookup (files w') q = lookup (files w) q)"
  using write_record_effect(2) [OF assms, unfolded record_text_def]
    step_in_lookup [OF write_record_effect(1) [OF assms]]
  by (simp add: record_region_def)

section \<open>Readiness\<close>

lemma evaluate_spec: "evaluate p c w = (c', w') \<Longrightarrow> spec c' = spec c"
  by (auto simp: evaluate_def note_success_def note_failure_def Let_def split: option.splits prod.splits sum.splits)

lemma ready_loop_returns:
  assumes "\<And>w r w'. probe w = (r, w') \<Longrightarrow> steady w \<le> steady w'"
  shows "1 \<le> interval (spec c) \<Longrightarrow> \<exists>y. ready_loop probe deadline span c w = Some y"
proof (induction "nat (deadline - steady w)" arbitrary: c w rule: less_induct)
  case less
  obtain c1 w1 where e: "evaluate (Some probe) c w = (c1, w1)" by fastforce
  have s: "steady w \<le> steady w1"
    using e assms by (auto simp: evaluate_def split: prod.splits sum.splits)
  note sp = evaluate_spec [OF e]
  have "steady w1 + 1 \<le> steady (os_sleep (interval (spec c1)) w1)"
    using os_sleep_steady [of "interval (spec c1)" w1] less.prems sp by simp
  then have "\<exists>y. ready_loop probe deadline span c1 (os_sleep (interval (spec c1)) w1) = Some y"
    if "steady w < deadline"
    using less.hyps [of "os_sleep (interval (spec c1)) w1" c1] less.prems s sp that by simp
  then show ?case using e by (subst ready_loop.simps) auto
qed

lemma make_probe_steady:
  assumes "make_probe (posix_parts L C opts svc hc) w0 = Some probe" "quiet_curl C" "probe w = (r, w')"
  shows "evolves w w'"
proof (cases "kind hc = Process")
  case True
  then obtain h where "probe = process_probe (Some status) h"
    using assms(1) by (auto simp: make_probe_def posix_supervisor_def split: option.splits)
  then show ?thesis using posix_watch.probe_evolves assms(3) by blast
next
  case False
  then have "network_probe C hc w = (r, w')" using assms(1,3) by (simp add: make_probe_def)
  then show ?thesis using passes_evolves network_probe_passes assms(2) by blast
qed

text \<open>
  The readiness wait always ends. With a health interval of at least one millisecond (the
  configuration accepts no other) \<open>await_ready\<close> returns, whatever the probe answers, for every kind
  of check and any delays.
\<close>

lemma await_ready_terminates:
  assumes "1 \<le> interval hc" "quiet_curl C"
  shows "\<exists>r w'. await_ready (posix_parts L C opts svc hc) w = Some (r, w')"
proof (cases "make_probe (posix_parts L C opts svc hc) w")
  case None
  then show ?thesis by (simp add: await_ready_def)
next
  case (Some probe)
  have "steady u \<le> steady v" if "probe u = (x, v)" for u x v
    using make_probe_steady [OF Some assms(2) that] by (simp add: evolves_def)
  from ready_loop_returns [OF this, where c = "health_checker (hc\<lparr>purpose := Readiness\<rparr>)"]
  show ?thesis using assms(1) Some by (simp add: await_ready_def health_checker_def)
qed

section \<open>Operations of the engine on the disk\<close>

definition launch_region :: "fpath \<Rightarrow> string \<Rightarrow> fpath \<Rightarrow> bool" where
  "launch_region root release_id q \<longleftrightarrow>
     prefix (root @ [''releases'', release_id]) q \<or> record_region root q"

text \<open>A step whose region is named by the service root of the world it starts in.\<close>

lemma spares_then:
  assumes "spares R w w1" "spares (F (root_at w1 opts)) w1 w2" "\<And>q. F (root_at w opts) q \<Longrightarrow> R q"
  shows "spares R w w2"
proof -
  have "spares R w1 w2"
    using spares_mono [OF assms(2), of R] assms(3) spares_at [OF assms(1), of "service_root opts"] by simp
  then show ?thesis by (rule spares_trans [OF assms(1)])
qed

lemma engine_stop_spares:
  assumes "engine_stop (posix_parts L C opts svc hc) w = (r, w')"
  shows "spares (record_region (root_at w opts)) w w'"
proof (cases "engine_handle w")
  case None
  then show ?thesis using assms by (simp add: engine_stop_def)
next
  case (Some h)
  obtain u w1 where s: "stop h (stop_timeout svc) w = (u, w1)" by fastforce
  have s1: "spares (record_region (root_at w opts)) w w1" by (rule spares_evolves [OF stop_evolves [OF s]])
  note s2 = spares_trans [OF s1 spares_client(2) [of _ w1 None]]
  have "spares (record_region (root_at w opts)) w v"
    if "clear_record opts (w1\<lparr>engine_handle := None\<rparr>) = (x, v)" for x v
    using spares_then [where F = record_region, OF s2 clear_record_spares [OF that]] by blast
  then show ?thesis
    using assms Some s s1 by (auto simp: engine_stop_def posix_supervisor_def split: sum.splits)
qed

text \<open>What launching may change in the release: permission bits of a file.\<close>

definition exec_region :: "'a machine_scheme \<Rightarrow> install_options \<Rightarrow> string \<Rightarrow> fpath \<Rightarrow> bool" where
  "exec_region w opts release_id q \<longleftrightarrow>
     prefix (root_at w opts @ [''releases'', release_id]) q \<and> is_file (lookup (files w) q)"

lemma launch_cases:
  assumes "launch (posix_parts L C opts svc hc) release_id w = (r, w')"
    and "install_validate_release_id release_id = Inr ()"
  obtains
    (early) e where "r = Inl e" "spares (exec_region w opts release_id) w w'"
      "engine_handle w' = engine_handle w"
  | (unknown_boot) h e where "r = Inl e" "engine_handle w' = Some h"
      "spares (exec_region w opts release_id) w w'"
  | (recorded) h ident w4 x where
      "spares (exec_region w opts release_id) w w4" "engine_handle w4 = Some h"
      "write_record L opts \<lparr>record_release = release_id, record_process = handle_id h,
         record_token = start_token h, record_boot = ident\<rparr> w4 = (x, w')"
      "is_ok r = is_ok x"
proof -
  let ?root = "release_directory opts release_id" and ?R = "exec_region w opts release_id"
  let ?exe = "path_append ?root (executable svc)"
  obtain b w1 where e: "fs_exists (at w ?exe) w = (b, w1)" by fastforce
  obtain x w2 where m: "make_executable (at w1 ?exe) w1 = (x, w2)" by fastforce
  have s1: "spares ?R w w1"
    using e by (intro spares_step reads_step [OF exists_reads [OF e]])
      (use reads_proper [OF exists_reads [OF e]] exists_calm [OF e] in simp_all)
  let ?o = "\<lparr>executable_path = ?exe, arguments = service_arguments svc,
       working_directory = (if service_directory svc = '''' then ?root else service_directory svc),
       option_environment = []\<rparr>"
  obtain y w3 where s: "start ?o w2 = (y, w3)" by fastforce
  show ?thesis
  proof (cases "validate_service_executable svc")
    case (Inl err)
    then show ?thesis using assms(1) early [of err] by (simp add: launch_def)
  next
    case v: (Inr u)
    obtain cs where cs: "\<forall>(w :: 'a engine_scheme) p. at w (path_append p (executable svc)) = at w p @ cs"
      using validated_executable v by (metis unit.exhaust)
    have "at w1 ?exe = root_at w opts @ [''releases'', release_id] @ cs"
      using cs at_release(1) [OF assms(2), of w1 opts] spares_at [OF s1] by simp
    moreover have "files w1 = files w" using exists_reads [OF e] by simp
    ultimately have "spares ?R w1 w2"
      using spares_mono [OF make_executable_spares [OF m], of ?R] by (simp add: exec_region_def)
    then have s2: "spares ?R w w2" by (rule spares_trans [OF s1])
    note s3 = spares_trans [OF s2 spares_evolves [OF start_evolves [OF s]]]
    have h1: "engine_handle w1 = engine_handle w"
      using files_step_handle [OF reads_files_step [OF exists_reads [OF e]]] .
    have h2: "engine_handle w2 = engine_handle w"
      using files_step_handle [OF step_files [OF make_executable_step [OF m]]] h1 by simp
    have h3: "engine_handle w3 = engine_handle w" using evolves_handle [OF start_evolves [OF s]] h2 by simp
    show ?thesis
    proof (cases "b \<and> is_ok x \<and> is_ok y")
      case False
      then have "\<exists>err. r = Inl err \<and> (w' = w1 \<or> w' = w2 \<or> w' = w3)"
        using assms(1) v e m s
        by (cases b; cases x; cases y) (auto simp: launch_def Let_def posix_supervisor_def cong del: if_weak_cong split del: if_split)
      then show ?thesis using early s1 s2 s3 h1 h2 h3 by blast
    next
      case True
      then obtain h where go: "b" "x = Inr ()" "y = Inr h" by (cases x; cases y) auto
      obtain z w4 where bi: "boot_identity (w3\<lparr>engine_handle := Some h\<rparr>) = (z, w4)" by fastforce
      have s4: "spares ?R w w4" "engine_handle w4 = Some h"
        using spares_trans [OF spares_trans [OF s3 spares_client(2)] boot_identity_spares [OF bi]]
          files_step_handle [OF reads_files_step [OF boot_identity_reads [OF bi]]] by simp_all
      show ?thesis
      proof (cases z)
        case (Inl err)
        then have "r = Inl err" "w' = w4"
          using assms(1) v e m s go bi by (simp_all add: launch_def Let_def posix_supervisor_def cong del: if_weak_cong split del: if_split)
        then show ?thesis using unknown_boot s4 by blast
      next
        case (Inr ident)
        obtain q w5 where wr: "write_record L opts
          \<lparr>record_release = release_id, record_process = handle_id h, record_token = start_token h,
           record_boot = ident\<rparr> w4 = (q, w5)" by fastforce
        have "w' = w5" "is_ok r = is_ok q"
          using assms(1) v e m s go bi Inr wr
          by (auto simp: launch_def Let_def posix_supervisor_def split: sum.splits cong del: if_weak_cong split del: if_split)
        then show ?thesis using recorded [OF s4] wr by simp
      qed
    qed
  qed
qed

lemma launch_spares:
  assumes "launch (posix_parts L C opts svc hc) release_id w = (r, w')"
    and "install_validate_release_id release_id = Inr ()"
  shows "spares (launch_region (root_at w opts) release_id) w w'"
  using assms
proof (cases rule: launch_cases)
  case (early e)
  show ?thesis by (rule spares_mono [OF early(2)]) (auto simp: launch_region_def exec_region_def)
next
  case (unknown_boot h e)
  show ?thesis by (rule spares_mono [OF unknown_boot(3)]) (auto simp: launch_region_def exec_region_def)
next
  case (recorded h ident w4 x)
  have "spares (launch_region (root_at w opts) release_id) w w4"
    by (rule spares_mono [OF recorded(1)]) (auto simp: launch_region_def exec_region_def)
  then show ?thesis
    by (rule spares_then [where F = record_region, OF _ write_record_spares [OF recorded(3)]])
      (auto simp: launch_region_def)
qed

lemma await_ready_spares:
  assumes "await_ready (posix_parts L C opts svc hc) w = Some (r, w')" "quiet_curl C"
  shows "spares R w w' \<and> engine_handle w' = engine_handle w"
proof (cases "make_probe (posix_parts L C opts svc hc) w")
  case None
  then show ?thesis using assms(1) by (simp add: await_ready_def)
next
  case (Some probe)
  have run: "ready_loop probe (steady w + 1000 * startup_timeout svc) (int_text (startup_timeout svc))
      (health_checker (hc\<lparr>purpose := Readiness\<rparr>)) w = Some (r, w')"
    using assms(1) Some by (simp add: await_ready_def)
  show ?thesis
  proof (rule ready_loop_keeps [OF _ _ run, where P = "\<lambda>v. spares R w v \<and> engine_handle v = engine_handle w"])
    fix u x v
    assume u: "spares R w u \<and> engine_handle u = engine_handle w" and "probe u = (x, v)"
    then have "evolves u v" using make_probe_steady [OF Some assms(2)] by blast
    then show "spares R w v \<and> engine_handle v = engine_handle w"
      using u spares_trans [OF _ spares_evolves] evolves_handle by metis
  next
    fix u d
    assume u: "spares R w u \<and> engine_handle u = engine_handle w"
    then show "spares R w (os_sleep d u) \<and> engine_handle (os_sleep d u) = engine_handle w"
      using spares_trans [OF _ spares_evolves [OF os_sleep_evolves]] evolves_handle [OF os_sleep_evolves] by metis
  qed simp
qed

lemma activate_effect:
  assumes "activate L opts release_id w = (r, w')"
  shows "spares (activation_region (root_at w opts)) w w'"
    and "case r of
      Inl e \<Rightarrow> lookup (files w') (root_at w opts @ [''state.json'']) = lookup (files w) (root_at w opts @ [''state.json''])
    | Inr u \<Rightarrow> install_validate_release_id release_id = Inr () \<and> (\<exists>s m. active s = release_id \<and>
        lookup (files w') (root_at w opts @ [''state.json'']) = Some (File (state_text L s) m))"
proof -
  have "step_in (activation_region (root_at w opts)) w w' \<and>
    (case r of
      Inl e \<Rightarrow> lookup (files w') (root_at w opts @ [''state.json'']) = lookup (files w) (root_at w opts @ [''state.json''])
    | Inr u \<Rightarrow> install_validate_release_id release_id = Inr () \<and> (\<exists>s m. active s = release_id \<and>
        lookup (files w') (root_at w opts @ [''state.json'']) = Some (File (state_text L s) m)))"
    using assms
  proof (cases rule: activate_cases)
    case (refused e)
    then show ?thesis using reads_step by (auto split: sum.splits)
  next
    case (attempted current w1 w2 x w3)
    have t: "step_in (activation_region (root_at w opts)) w2 w'"
      using write_then_link [OF attempted(5,7)] attempted(4) by simp
    show ?thesis
    proof (cases r)
      case (Inl e)
      then show ?thesis
        using write_then_link [OF attempted(5,7)] attempted(4,6) reads_then_step [OF attempted(4) t] by simp
    next
      case (Inr u)
      have a: "active (next_activation release_id current (utc_now w2)) = release_id"
        by (simp add: next_activation_def)
      obtain m where "lookup (files w') (root_at w opts @ [''state.json'']) =
          Some (File (state_text L (next_activation release_id current (utc_now w2))) m)"
        using write_then_link [OF attempted(5,7)] attempted(4,6) Inr by auto
      then show ?thesis
        using a attempted(1) reads_then_step [OF attempted(4) t] Inr by auto
    qed
  qed
  then show "spares (activation_region (root_at w opts)) w w'"
    "case r of
      Inl e \<Rightarrow> lookup (files w') (root_at w opts @ [''state.json'']) = lookup (files w) (root_at w opts @ [''state.json''])
    | Inr u \<Rightarrow> install_validate_release_id release_id = Inr () \<and> (\<exists>s m. active s = release_id \<and>
        lookup (files w') (root_at w opts @ [''state.json'']) = Some (File (state_text L s) m))"
    using spares_step activate_proper [OF assms] activate_calm [OF assms] by blast+
qed

lemma install_spares:
  assumes "install opts release_id source_directory w = (r, w')"
  shows "spares (install_region (releases_at w opts) release_id) w w'"
  using spares_step [OF install_step [OF assms]] install_proper [OF assms] install_calm [OF assms] by blast

lemma reads_spares: "reads w w' \<Longrightarrow> (faults w = [] \<Longrightarrow> faults w' = []) \<Longrightarrow> spares R w w'"
  using spares_step [OF reads_step] reads_proper by blast

lemma installer_state_spares: "installer_state L opts w = (r, w') \<Longrightarrow> spares R w w'"
  using reads_spares [OF installer_state_reads] installer_state_calm by fastforce

lemma regions_state:
  "\<not> record_region root (root @ [''state.json''])" "\<not> launch_region root i (root @ [''state.json''])"
  "\<not> install_region (root @ [''releases'']) i (root @ [''state.json''])"
  by (auto simp: record_region_def launch_region_def install_region_def)

text \<open>The seven calls of an \<open>apply\<close> that reports success.\<close>

lemma apply_steps:
  assumes "deploy_apply (posix_parts L C opts svc hc) release_id source_directory w = Some (Inr (), w')"
  obtains w1 x2 w2 w3 w4 w5 w6 x7 w7 d where "install opts release_id source_directory w = (Inr (), w1)"
    "installer_state L opts w1 = (x2, w2)" "engine_stop (posix_parts L C opts svc hc) w2 = (Inr (), w3)"
    "activate L opts release_id w3 = (Inr (), w4)" "launch (posix_parts L C opts svc hc) release_id w4 = (Inr (), w5)"
    "await_ready (posix_parts L C opts svc hc) w5 = Some (Inr (), w6)" "prune L opts w6 = (x7, w7)" "w' = set_detail d w7"
proof -
  let ?E = "posix_parts L C opts svc hc"
  obtain x1 w1 where c1: "install opts release_id source_directory w = (x1, w1)" by fastforce
  obtain x2 w2 where c2: "installer_state L opts w1 = (x2, w2)" by fastforce
  obtain x3 w3 where c3: "engine_stop ?E w2 = (x3, w3)" by fastforce
  have run: "x1 = Inr ()" "x3 = Inr ()" "switch_over ?E release_id w3 = Some (Inr (), w')"
    using assms(1) c1 c2 c3 by (auto simp: deploy_apply_def split: sum.splits if_splits)
  obtain x4 w4 where c4: "activate L opts release_id w3 = (x4, w4)" by fastforce
  obtain x5 w5 where c5: "launch ?E release_id w4 = (x5, w5)" by fastforce
  have x: "x4 = Inr ()" "x5 = Inr ()"
    using run(3) c4 c5 by (auto simp: switch_over_def recover_def Let_def split: sum.splits prod.splits)
  obtain w6 where c6: "await_ready ?E w5 = Some (Inr (), w6)"
    using run(3) c4 c5 x
    by (auto simp: switch_over_def recover_def Let_def split: sum.splits prod.splits option.splits)
  obtain x7 w7 where c7: "prune L opts w6 = (x7, w7)" by fastforce
  obtain d where w': "w' = set_detail d w7" using run(3) c4 c5 x c6 c7 by (auto simp: switch_over_def)
  show thesis by (rule that) (use c1 c2 c3 c4 c5 c6 c7 run x w' in simp_all)
qed

text \<open>A launch that reports success has recorded the process the engine holds.\<close>

lemma launch_records:
  assumes "launch (posix_parts L C opts svc hc) release_id w = (Inr (), w')" "install_validate_release_id release_id = Inr ()"
  shows "\<exists>h boot n. engine_handle w' = Some h \<and> lookup (files w') (root_at w opts @ [''runtime.json'']) =
    Some (File (record_text L \<lparr>record_release = release_id, record_process = handle_id h,
      record_token = start_token h, record_boot = boot\<rparr>) n)"
  using assms
proof (cases rule: launch_cases)
  case (recorded h ident u q)
  have "at u = at w" using spares_at [OF recorded(1)] by auto
  moreover have "engine_handle w' = Some h"
    using files_step_handle [OF step_files [OF write_record_effect(1) [OF recorded(3)]]] recorded(2) by simp
  ultimately show ?thesis
    using write_record_effect(2) [OF recorded(3)] recorded(4) by (cases q) auto
qed simp_all

text \<open>
  C13: A reported success is a complete one, whatever failed on the way: when \<open>apply\<close> returns
  success, \<open>state.json\<close> is a complete document that names the release as the active one, the engine
  holds the handle of the process it started, and \<open>runtime.json\<close> is a complete record of exactly
  this process for this release.
\<close>

theorem apply_success:
  assumes "deploy_apply (posix_parts L C opts svc hc) release_id source_directory w = Some (Inr (), w')"
    and "quiet_curl C" "\<forall>e \<in> set (files w). list_all plain_name (fst e)" "list_all plain_name (cwd w)"
  shows "\<exists>s h boot m n. active s = release_id \<and> engine_handle w' = Some h \<and>
    lookup (files w') (root_at w opts @ [''state.json'']) =
      Some (File (serialize_value L (activation_json s)) m) \<and>
    lookup (files w') (root_at w opts @ [''runtime.json'']) =
      Some (File (serialize_value L (record_json \<lparr>record_release = release_id,
        record_process = handle_id h, record_token = start_token h, record_boot = boot\<rparr>)) n)"
proof -
  let ?S = "root_at w opts @ [''state.json'']" and ?P = "root_at w opts @ [''runtime.json'']"
  obtain w1 x2 w2 w3 w4 w5 w6 x7 w7 d where c1: "install opts release_id source_directory w = (Inr (), w1)"
    and c2: "installer_state L opts w1 = (x2, w2)" and c3: "engine_stop (posix_parts L C opts svc hc) w2 = (Inr (), w3)"
    and c4: "activate L opts release_id w3 = (Inr (), w4)" and c5: "launch (posix_parts L C opts svc hc) release_id w4 = (Inr (), w5)"
    and c6: "await_ready (posix_parts L C opts svc hc) w5 = Some (Inr (), w6)" and c7: "prune L opts w6 = (x7, w7)"
    and w': "w' = set_detail d w7"
    by (rule apply_steps [OF assms(1)])
  note s1 = install_spares [OF c1] and s2 = installer_state_spares [OF c2] and s3 = engine_stop_spares [OF c3]
    and s4 = activate_effect(1) [OF c4]
  have at1: "at w1 = at w" "at w2 = at w" "at w3 = at w" "at w4 = at w"
    using spares_at [OF s1] spares_at [OF s2] spares_at [OF s3] spares_at [OF s4] by auto
  have v: "install_validate_release_id release_id = Inr ()" and
    st: "\<exists>s m. active s = release_id \<and> lookup (files w4) ?S = Some (File (state_text L s) m)"
    using activate_effect(2) [OF c4] at1 by simp_all
  note s5 = launch_spares [OF c5 v]
  have s6: "spares (\<lambda>_. False) w5 w6" "engine_handle w6 = engine_handle w5"
    using await_ready_spares [OF c6 assms(2)] by blast+
  have at2: "at w5 = at w" "at w6 = at w" using spares_at [OF s5] spares_at [OF s6(1)] at1 by auto
  obtain h boot n where h: "engine_handle w5 = Some h"
    "lookup (files w5) ?P = Some (File (record_text L \<lparr>record_release = release_id,
        record_process = handle_id h, record_token = start_token h, record_boot = boot\<rparr>) n)"
    using launch_records [OF c5 v] at1 by auto
  have p: "proper w6"
    using assms(3,4) s1 s2 s3 s4 s5 s6 by (simp add: spares_def proper_def proper_names_def)
  have s7: "step_in (strict_prefix (releases_at w opts)) w6 w7"
    using prune_below_releases [OF c7] p at2 by (simp add: proper_def)
  have keep7: "lookup (files w7) q = lookup (files w5) q" if "\<not> strict_prefix (releases_at w opts) q" for q
    using step_in_lookup [OF s7 that] spares_lookup [OF s6(1)] by simp
  have "lookup (files w7) ?S = lookup (files w4) ?S"
    using keep7 [of ?S] spares_lookup [OF s5, of ?S] at1 regions_state(2)
    by (simp add: strict_prefix_def prefix_def)
  moreover have "lookup (files w7) ?P = lookup (files w5) ?P"
    using keep7 [of ?P] by (simp add: strict_prefix_def prefix_def)
  moreover have "engine_handle w7 = Some h"
    using files_step_handle [OF prune_files [OF c7]] s6 h(1) by simp
  ultimately show ?thesis
    using st h(2) w' by (auto simp: set_detail_def state_text_def record_text_def)
qed

end
