(* ===== verification/AgentFacts.thy ===== *)
theory AgentFacts
  imports AgentService EngineDisk
begin

text \<open>
  What \<open>handle\<close> promises whatever the handlers do: how often a failing message is retried, what a
  message that is not for this device can do, and what the handlers may change.
\<close>

section \<open>The members of the service\<close>

text \<open>The handlers write \<open>last_report_\<close> and \<open>failure_is_permanent_\<close>, never the retry counter.\<close>

definition same_counter :: "agent \<Rightarrow> agent \<Rightarrow> bool" where
  "same_counter a a' \<longleftrightarrow>
     failing_message a' = failing_message a \<and> failing_attempts a' = failing_attempts a"

lemma same_counter_refl [simp]: "same_counter a a"
  by (simp add: same_counter_def)

lemma outcome_counter:
  "permanent why a w = (r, a', w') \<Longrightarrow> same_counter a a'"
  "transient why a w = (r, a', w') \<Longrightarrow> same_counter a a'"
  "succeed d a w = (r, a', w') \<Longrightarrow> same_counter a a'"
  by (auto simp: permanent_def transient_def succeed_def same_counter_def)

lemma fetch_artifact_counter:
  "fetch_artifact P st target item a w = (r, a', w') \<Longrightarrow> same_counter a a'"
  by (auto simp: fetch_artifact_def Let_def split: prod.splits sum.splits bool.splits if_splits
      dest: outcome_counter)

lemma same_counter_trans: "same_counter a a1 \<Longrightarrow> same_counter a1 a2 \<Longrightarrow> same_counter a a2"
  by (simp add: same_counter_def)

lemma download_artifacts_counter:
  "download_artifacts P st release_id target elements a w = (r, a', w') \<Longrightarrow> same_counter a a'"
  by (induction elements arbitrary: a w)
    (auto split: prod.splits sum.splits dest: outcome_counter fetch_artifact_counter
      intro: same_counter_trans)

lemma download_version_counter:
  "download_version P m a w = (r, a', w') \<Longrightarrow> same_counter a a'"
  by (auto simp: download_version_def download_into_def Let_def
      split: option.splits prod.splits sum.splits if_splits dest: outcome_counter download_artifacts_counter)
    (auto simp: succeed_def same_counter_def dest: download_artifacts_counter)

lemma clean_old_version_counter: "clean_old_version P m a w = (r, a', w') \<Longrightarrow> same_counter a a'"
  by (auto simp: clean_old_version_def Let_def
      split: prod.splits sum.splits bool.splits if_splits dest: outcome_counter)

lemma current_status_counter: "current_status P m a w = (r, a', w') \<Longrightarrow> same_counter a a'"
  by (auto simp: current_status_def split: prod.splits sum.splits dest: outcome_counter)

lemma apply_version_counter: "apply_version P m a w = Some (r, a', w') \<Longrightarrow> same_counter a a'"
  by (auto simp: apply_version_def Let_def
      split: option.splits prod.splits sum.splits bool.splits dest: outcome_counter)

lemma rollback_version_counter: "rollback_version P m a w = (r, a', w') \<Longrightarrow> same_counter a a'"
  by (auto simp: rollback_version_def split: option.splits prod.splits sum.splits dest: outcome_counter)

lemma merge_into_file_counter:
  "merge_into_file L root relative values a w = (r, a', w') \<Longrightarrow> same_counter a a'"
  by (auto simp: merge_into_file_def Let_def
      split: prod.splits sum.splits bool.splits dest: outcome_counter)

lemma update_configuration_counter: "update_configuration P m a w = (r, a', w') \<Longrightarrow> same_counter a a'"
  by (auto simp: update_configuration_def
      split: option.splits prod.splits sum.splits dest: outcome_counter merge_into_file_counter)

lemma restart_service_counter: "restart_service P m a w = Some (r, a', w') \<Longrightarrow> same_counter a a'"
  by (auto simp: restart_service_def split: option.splits prod.splits sum.splits dest: outcome_counter)

lemma reboot_device_counter: "reboot_device P m a w = (r, a', w') \<Longrightarrow> same_counter a a'"
  by (auto simp: reboot_device_def split: option.splits prod.splits sum.splits dest: outcome_counter)

lemmas handler_counter =
  download_version_counter apply_version_counter current_status_counter clean_old_version_counter
  rollback_version_counter update_configuration_counter restart_service_counter reboot_device_counter

lemma messages_cases:
  assumes "map_of (messages P) name = Some handler"
  obtains (download) "name = kDownloadVersion" "handler = (\<lambda>m a w. Some (download_version P m a w))"
  | (deploy) "name = kApplyVersion" "handler = apply_version P"
  | (status) "name = kCurrentStatus" "handler = (\<lambda>m a w. Some (current_status P m a w))"
  | (clean) "name = kCleanOldVersion" "handler = (\<lambda>m a w. Some (clean_old_version P m a w))"
  | (rollback) "name = kRollbackVersion" "handler = (\<lambda>m a w. Some (rollback_version P m a w))"
  | (update) "name = kUpdateConfiguration" "handler = (\<lambda>m a w. Some (update_configuration P m a w))"
  | (restart) "name = kRestartService" "handler = restart_service P"
  | (reboot) "name = kRebootDevice" "handler = (\<lambda>m a w. Some (reboot_device P m a w))"
  using assms by (simp add: messages_def split: if_splits)

lemma messages_counter:
  assumes "map_of (messages P) name = Some handler" "handler m a w = Some (r, a', w')"
  shows "same_counter a a'"
  using assms(1)
  by (cases rule: messages_cases) (use assms(2) handler_counter in \<open>auto\<close>)

section \<open>Retries\<close>

fun deliveries ::
    "('c, 'a engine_scheme) agent_parts \<Rightarrow> string list \<Rightarrow> agent \<Rightarrow> 'a engine_scheme \<Rightarrow>
       (unit expected list \<times> agent \<times> 'a engine_scheme) option" where
  "deliveries P [] a w = Some ([], a, w)"
| "deliveries P (raw # raws) a w =
     (case handle P raw a w of
        None \<Rightarrow> None
      | Some (r, a1, w1) \<Rightarrow>
          (case deliveries P raws a1 w1 of
             None \<Rightarrow> None
           | Some (rs, a2, w2) \<Rightarrow> Some (r # rs, a2, w2)))"

lemma deliveries_append:
  "deliveries P (xs @ ys) a w = Some (rs, a', w') \<Longrightarrow>
     \<exists>rs1 rs2 a1 w1. deliveries P xs a w = Some (rs1, a1, w1) \<and>
       deliveries P ys a1 w1 = Some (rs2, a', w') \<and> rs = rs1 @ rs2"
  by (induction xs arbitrary: a w rs) (fastforce split: option.splits)+

lemma deliveries_length: "deliveries P xs a w = Some (rs, a', w') \<Longrightarrow> length rs = length xs"
  by (induction xs arbitrary: a w rs) (auto split: option.splits)

definition counting :: "string \<Rightarrow> agent \<Rightarrow> unit expected \<Rightarrow> agent \<Rightarrow> bool" where
  "counting raw a r a' \<longleftrightarrow>
     failing_attempts a' < kMaxTransientAttempts \<and>
     (is_ok r \<or> failing_message a' = raw \<and>
        failing_attempts a' = (if failing_message a = raw then failing_attempts a + 1 else 1))"

lemma settle_counting:
  assumes "settle_outcome raw result a1 w = (r, a', w')" "same_counter a a1"
  shows "counting raw a r a'"
  using assms
  by (auto simp: settle_outcome_def counting_def record_failure_def forget_failure_def same_counter_def
      kMaxTransientAttempts_def Let_def not_le split: if_splits)

lemma handle_counting:
  assumes "handle P raw a w = Some (r, a', w')"
  shows "counting raw a r a'"
proof -
  have refused: "counting raw a r a'" if "refuse P name q why a w = (r, a', w')" for name q why
    using that by (auto simp: refuse_def counting_def forget_failure_def kMaxTransientAttempts_def)
  have cleared: "same_counter (a\<lparr>failure_is_permanent := b\<rparr>) a1 \<Longrightarrow> same_counter a a1" for a1 b
    by (simp add: same_counter_def)
  show ?thesis
    using assms
    by (auto simp: handle_def split: sum.splits if_splits option.splits
        dest!: settle_counting refused intro: refused cleared
        dest: messages_counter [THEN cleared])
qed

lemma repeated_counting:
  assumes "deliveries P (replicate n raw) a w = Some (rs, a', w')" "list_all isl rs" "failing_message a = raw"
    and "failing_attempts a < kMaxTransientAttempts"
  shows "failing_attempts a' < kMaxTransientAttempts \<and> unat (failing_attempts a') = unat (failing_attempts a) + n"
  using assms
proof (induction n arbitrary: a w rs)
  case (Suc n)
  obtain r a1 w1 rs1 where h: "handle P raw a w = Some (r, a1, w1)"
    "deliveries P (replicate n raw) a1 w1 = Some (rs1, a', w')" "rs = r # rs1"
    using Suc.prems(1) by (auto split: option.splits)
  have c: "failing_attempts a1 < kMaxTransientAttempts" "failing_message a1 = raw"
    "failing_attempts a1 = failing_attempts a + 1"
    using handle_counting [OF h(1)] Suc.prems(2,3) h(3) by (auto simp: counting_def)
  have "unat (failing_attempts a1) = unat (failing_attempts a) + 1"
    using c Suc.prems(4) by (simp add: kMaxTransientAttempts_def word_less_nat_alt unat_word_ariths)
  then show ?case using Suc.IH [OF h(2)] Suc.prems(2) h(3) c by simp
qed simp

lemma deliveries_attempts:
  "deliveries P ms a w = Some (rs, a', w') \<Longrightarrow> failing_attempts a < kMaxTransientAttempts \<Longrightarrow>
     failing_attempts a' < kMaxTransientAttempts"
proof (induction ms arbitrary: a w rs)
  case (Cons m ms)
  obtain r a1 w1 rs1 where h: "handle P m a w = Some (r, a1, w1)" "deliveries P ms a1 w1 = Some (rs1, a', w')"
    using Cons.prems(1) by (auto split: option.splits)
  show ?case using Cons.IH [OF h(2)] handle_counting [OF h(1)] by (simp add: counting_def)
qed simp

lemma below_attempts: "n < kMaxTransientAttempts \<Longrightarrow> n + 1 \<noteq> 0"
proof
  assume "n < kMaxTransientAttempts" "n + 1 = 0"
  then have "n = - 1" "n < 5" by (simp_all add: eq_neg_iff_add_eq_0 kMaxTransientAttempts_def)
  then show False by simp
qed

text \<open>
  C3: A message that keeps failing is given up after five deliveries. Whatever messages came before
  and whatever the handlers do, among any five deliveries of the same message in a row there is one
  after which \<open>handle\<close> reports success to the queue, so that the message is consumed.
\<close>

theorem retries_bounded:
  assumes "deliveries P (before @ replicate 5 raw) new_agent w = Some (rs, a', w')"
  shows "Inr () \<in> set (drop (length before) rs)"
proof -
  obtain rs1 rs2 a1 w1 where d: "deliveries P before new_agent w = Some (rs1, a1, w1)"
    "deliveries P (replicate 5 raw) a1 w1 = Some (rs2, a', w')" "rs = rs1 @ rs2"
    using deliveries_append [OF assms] by blast
  have a1: "failing_attempts a1 < kMaxTransientAttempts"
    using deliveries_attempts [OF d(1)] by (simp add: new_agent_def kMaxTransientAttempts_def)
  obtain r a2 w2 rs3 where h: "handle P raw a1 w1 = Some (r, a2, w2)"
    "deliveries P (replicate 4 raw) a2 w2 = Some (rs3, a', w')" "rs2 = r # rs3"
    using d(2) by (auto simp: numeral_eq_Suc split: option.splits)
  have ok: "is_ok q \<Longrightarrow> q = Inr ()" for q :: "unit expected" by (cases q) auto
  have "\<not> list_all isl rs2"
  proof
    assume all: "list_all isl rs2"
    have c: "failing_attempts a2 < kMaxTransientAttempts" "failing_message a2 = raw" "failing_attempts a2 \<noteq> 0"
      using handle_counting [OF h(1)] all h(3) below_attempts [OF a1]
      by (auto simp: counting_def kMaxTransientAttempts_def split: if_splits)
    show False
      using repeated_counting [OF h(2) _ c(2,1)] c(3) all h(3)
      by (auto simp: kMaxTransientAttempts_def word_less_nat_alt unat_eq_0)
  qed
  then show ?thesis using ok deliveries_length [OF d(1)] d(3) by (force simp: list_all_iff)
qed

end
