(* ===== verification/PathFacts.thy ===== *)
theory PathFacts
  imports Paths
begin

text \<open>
  More on path strings: the directory of a path is above it, the file name is the last component,
  and how appending acts on both.
\<close>

text \<open>The directory of a file is above it.\<close>

lemma split_char_separators:
  "split_char c (t @ replicate (Suc n) c @ f) = split_char c t @ replicate n [] @ split_char c f"
proof (induction n arbitrary: t)
  case (Suc n)
  have "split_char c (t @ replicate (Suc (Suc n)) c @ f) = split_char c ((t @ [c]) @ replicate (Suc n) c @ f)"
    by simp
  also have "\<dots> = split_char c (t @ [c]) @ replicate n [] @ split_char c f" by (rule Suc.IH)
  finally show ?case using split_char_sep [of c t "[]"] by simp
qed (simp add: split_char_sep)

lemma resolve_empties: "resolve base (replicate n []) = base"
  by (induction n) auto

lemma locate_parent:
  assumes "parent_path s \<noteq> ''''"
  shows "locate c s = resolve (locate c (parent_path s)) [path_filename s]"
proof -
  define d where "d = dropWhile (\<lambda>x. x \<noteq> CHR ''/'') (rev s)"
  define e where "e = dropWhile (\<lambda>x. x = CHR ''/'') d"
  have p: "parent_path s = (if e = [] \<and> d \<noteq> [] then ''/'' else rev e)"
    unfolding parent_path_def Let_def d_def e_def by (simp split: if_split)
  have "takeWhile (\<lambda>x. x \<noteq> CHR ''/'') (rev s) @ d = rev s"
    unfolding d_def by (rule takeWhile_dropWhile_id)
  then have f: "rev s = rev (path_filename s) @ d"
    unfolding path_filename_def by simp
  have slash: "CHR ''/'' \<notin> set (path_filename s)"
    by (auto simp: path_filename_def dest: set_takeWhileD)
  obtain x xs where d: "d = x # xs" using p assms by (cases d) (auto simp: e_def)
  have "x = CHR ''/''" using d unfolding d_def by (simp add: dropWhile_eq_Cons_conv)
  then have "e = dropWhile (\<lambda>x. x = CHR ''/'') xs" by (simp add: e_def d)
  then have ne: "length e < length d" using d length_dropWhile_le [of "\<lambda>x. x = CHR ''/''" xs] by simp
  define v where "v = takeWhile (\<lambda>x. x = CHR ''/'') d"
  have v: "d = v @ e" "\<forall>x \<in> set v. x = CHR ''/''"
    unfolding v_def e_def by (simp_all add: takeWhile_dropWhile_id) (auto dest: set_takeWhileD)
  then have "v = replicate (length v) CHR ''/''" by (simp add: replicate_length_same)
  moreover have "length v \<noteq> 0" using ne v(1) by simp
  then obtain n where "length v = Suc n" by (cases "length v") simp_all
  ultimately have n: "v = replicate (Suc n) CHR ''/''" by simp
  have s: "s = rev e @ replicate (Suc n) CHR ''/'' @ path_filename s"
    using arg_cong [OF f, of rev] v(1) n by (simp del: replicate_Suc)
  have split: "split_char (CHR ''/'') s = split_char (CHR ''/'') (rev e) @ replicate n [] @ [path_filename s]"
    using arg_cong [OF s, of "split_char (CHR ''/'')"] slash
    by (simp only: split_char_separators split_char_no_sep not_False_eq_True)
  show ?thesis
  proof (cases "e = []")
    case True
    have "is_absolute s" using arg_cong [OF s, of is_absolute] True by (simp add: is_absolute_def starts_with_def)
    moreover have "locate c (parent_path s) = []"
      using p d True by (simp add: locate_def is_absolute_def starts_with_def)
    ultimately show ?thesis
      using split True by (simp add: locate_def resolve_append resolve_empties)
  next
    case False
    have "is_absolute s = is_absolute (rev e)"
      using arg_cong [OF s, of is_absolute] False by (simp del: replicate_Suc)
    then show ?thesis
      using p False split by (simp add: locate_def resolve_append resolve_empties)
  qed
qed

lemma parent_above:
  "path_filename s \<noteq> ''..'' \<Longrightarrow> parent_path s \<noteq> '''' \<Longrightarrow> prefix (locate c (parent_path s)) (locate c s)"
  by (simp add: locate_parent)

lemma locate_in_parent:
  "plain_name (path_filename s) \<Longrightarrow> parent_path s \<noteq> '''' \<Longrightarrow>
     locate c s = locate c (parent_path s) @ [path_filename s]"
  by (simp add: locate_parent plain_name_def)

lemma path_filename_last: "path_filename s = last (split_char (CHR ''/'') s)"
proof (cases "CHR ''/'' \<in> set s")
  case True
  then obtain u v where s: "s = u @ CHR ''/'' # v" "CHR ''/'' \<notin> set v" using split_list_last by metis
  then have "takeWhile (\<lambda>c. c \<noteq> CHR ''/'') (rev s) = rev v"
    using takeWhile_sep [of "CHR ''/''" "rev v" "rev u"] by simp
  then show ?thesis using s by (simp add: path_filename_def split_char_sep split_char_no_sep)
next
  case False
  then have "takeWhile (\<lambda>c. c \<noteq> CHR ''/'') (rev s) = rev s" by (auto simp: takeWhile_eq_all_conv)
  then have "path_filename s = s" unfolding path_filename_def by (simp only: rev_rev_ident)
  then show ?thesis using False by (simp add: split_char_no_sep)
qed

lemma path_append_filename: "\<not> is_absolute p \<Longrightarrow> path_filename (path_append t p) = path_filename p"
proof -
  assume p: "\<not> is_absolute p"
  consider (nil) "t = ''''" | (slash) u where "t = u @ ''/''" | (name) "t \<noteq> ''''" "last t \<noteq> CHR ''/''"
    by (metis append_butlast_last_id)
  then show ?thesis
  proof cases
    case (slash u)
    then show ?thesis using p split_char_sep [of "CHR ''/''" u p] by (simp add: path_append_def path_filename_last)
  next
    case name
    then show ?thesis using p split_char_sep [of "CHR ''/''" t p] by (simp add: path_append_def path_filename_last)
  qed (simp add: path_append_def p)
qed

lemma path_append_no_nul: "no_nul t \<Longrightarrow> no_nul p \<Longrightarrow> no_nul (path_append t p)"
  by (auto simp: path_append_def no_nul_def)

lemma normal_comps_append: "normal_comps a acc (xs @ ys) = normal_comps a (normal_comps a acc xs) ys"
  by (induction a acc xs rule: normal_comps.induct) auto

lemma split_char_snoc:
  assumes "c \<notin> set x"
  shows "split_char c (s @ x) = butlast (split_char c s) @ [last (split_char c s) @ x]"
proof (induction s)
  case (Cons d s)
  then show ?case by (cases "split_char c s" rule: rev_cases) (auto split: list.splits simp: append_eq_Cons_conv)
qed (simp add: split_char_no_sep assms)

end
