(* ===== verification/DownloadFacts.thy ===== *)
theory DownloadFacts
  imports AgentFacts PathFacts
begin

text \<open>
  \<open>download_version\<close>: what the version directory holds after a success and after a failure, and
  that a download touches nothing else. The store is any that keeps the contract \<open>lawful_store\<close>,
  which \<open>S3ArtifactStore\<close> keeps when its SDK client does.
\<close>

section \<open>What a store promises\<close>

text \<open>
  \<open>fetches p r w w'\<close>: the call kept every directory and every file but \<open>p\<close>, made no new ones but \<open>p\<close>
  and directories above it, and left a file at \<open>p\<close> if it reports success.
\<close>

definition fetches :: "fpath \<Rightarrow> 'b expected \<Rightarrow> 'a machine_scheme \<Rightarrow> 'a machine_scheme \<Rightarrow> bool" where
  "fetches p r w w' \<longleftrightarrow>
     cwd w' = cwd w \<and> (faults w = [] \<longrightarrow> faults w' = []) \<and>
     (\<forall>q. lookup (files w) q \<noteq> None \<longrightarrow> q \<noteq> p \<or> lookup (files w) q = Some Directory \<longrightarrow>
        lookup (files w') q = lookup (files w) q) \<and>
     (\<forall>q. \<not> prefix q p \<longrightarrow> lookup (files w') q = lookup (files w) q) \<and>
     (is_ok r \<longrightarrow> is_file (lookup (files w') p))"

text \<open>
  Paths without a zero byte whose last component is not \<open>..\<close>: those are the paths
  \<open>download_version\<close> asks for.
\<close>

definition clean_path :: "string \<Rightarrow> bool" where
  "clean_path p \<longleftrightarrow> no_nul p \<and> path_filename p \<noteq> ''..''"

definition unaltered :: "'a machine_scheme \<Rightarrow> 'a machine_scheme \<Rightarrow> bool" where
  "unaltered w w' \<longleftrightarrow> cwd w' = cwd w \<and> files w' = files w \<and> (faults w = [] \<longrightarrow> faults w' = [])"

definition lawful_store :: "'a machine_scheme artifact_store \<Rightarrow> bool" where
  "lawful_store st \<longleftrightarrow>
     (\<forall>key path w. clean_path path \<longrightarrow>
        fetches (at w path) (fst (download st key path w)) w (snd (download st key path w))) \<and>
     (\<forall>key w. unaltered w (snd (object_exists st key w)))"

definition lawful_s3_client :: "'a machine_scheme s3_client \<Rightarrow> bool" where
  "lawful_s3_client C \<longleftrightarrow>
     (\<forall>b key path w. fetches (at w path) (fst (download_file C b key path w)) w
        (snd (download_file C b key path w))) \<and>
     (\<forall>b key w. unaltered w (snd (file_exists C b key w)))"

lemma fetches_at: "fetches p r w w' \<Longrightarrow> at w' = at w"
  by (rule ext) (simp add: fetches_def at_def)

lemma unaltered_at: "unaltered w w' \<Longrightarrow> at w' = at w"
  by (rule ext) (simp add: unaltered_def at_def)

lemma lawful_download:
  "lawful_store st \<Longrightarrow> clean_path path \<Longrightarrow> download st key path w = (r, w') \<Longrightarrow> fetches (at w path) r w w'"
  unfolding lawful_store_def by (metis fst_conv snd_conv)

lemma lawful_exists: "lawful_store st \<Longrightarrow> object_exists st key w = (r, w') \<Longrightarrow> unaltered w w'"
  unfolding lawful_store_def by (metis snd_conv)

lemma fetches_refl: "fetches p (Inl e) w w"
  by (simp add: fetches_def)

section \<open>\<open>S3ArtifactStore\<close> keeps the contract\<close>

lemma fetches_then:
  assumes "step_in (\<lambda>q. prefix q d) w w1" "prefix d p" "faults w = [] \<Longrightarrow> faults w1 = []"
    and "\<And>q. lookup (files w) q \<noteq> None \<Longrightarrow> lookup (files w1) q = lookup (files w) q" "fetches p r w1 w2"
  shows "fetches p r w w2"
proof -
  have "lookup (files w1) q = lookup (files w) q" if "\<not> prefix q p" for q
    using step_in_lookup [OF assms(1)] that assms(2) prefix_order.trans by blast
  then show ?thesis using assms(3-5) step_in_fields [OF assms(1)] by (simp add: fetches_def)
qed

lemma create_directories_keeps:
  assumes "fs_create_directories p w = (r, w')" "lookup (files w) q \<noteq> None"
  shows "lookup (files w') q = lookup (files w) q"
  using assms by (auto simp: fs_create_directories_def take_fault_def lookup_make_dirs
      split: prod.splits list.splits option.splits if_splits)

lemma s3_fetch_fetches:
  assumes "lawful_s3_client C" "no_nul path" "s3_fetch C opts key path w = (r, w')"
  shows "fetches (at w path) r w w'"
proof -
  have "fetches (at w (c_str path)) (fst (download_file C (c_str (bucket opts)) (c_str key) (c_str path) w)) w
      (snd (download_file C (c_str (bucket opts)) (c_str key) (c_str path) w))"
    using assms(1) by (simp add: lawful_s3_client_def)
  then show ?thesis
    using assms(2,3) by (auto simp: s3_fetch_def fetches_def split: prod.splits sum.splits)
qed

lemma s3_download_fetches:
  assumes "lawful_s3_client C" "clean_path path" "s3_download C opts key path w = (r, w')"
  shows "fetches (at w path) r w w'"
proof (cases "bucket opts = '''' \<or> parent_path path = ''''")
  case True
  then show ?thesis
    using assms s3_fetch_fetches [OF assms(1)] fetches_refl
    by (auto simp: s3_download_def Let_def clean_path_def split: if_splits)
next
  case False
  let ?d = "at w (parent_path path)"
  have d: "prefix ?d (at w path)" using parent_above False assms(2) by (simp add: at_def clean_path_def)
  obtain x w1 where c: "fs_create_directories ?d w = (x, w1)" by fastforce
  note made = fetches_then [OF create_directories_step [OF c] d create_directories_calm [OF c]
    create_directories_keeps [OF c]]
  have a: "at w1 = at w" using step_in_at [OF create_directories_step [OF c]] by (rule ext)
  show ?thesis
  proof (cases x)
    case (Inl e)
    then have "w' = w1" "\<not> is_ok r" using assms(3) False c by (auto simp: s3_download_def Let_def)
    then show ?thesis using made [of r w'] by (cases r) (auto simp: fetches_refl)
  next
    case (Inr u)
    then have "s3_fetch C opts key path w1 = (r, w')"
      using assms(3) False c by (simp add: s3_download_def Let_def)
    then have "fetches (at w1 path) r w1 w'"
      using s3_fetch_fetches [OF assms(1)] assms(2) by (simp add: clean_path_def)
    then show ?thesis using made a by simp
  qed
qed

lemma s3_lawful:
  assumes "\<And>cred conf v. lawful_s3_client (sdk cred conf v)"
  shows "lawful_store (s3_artifact_store sdk standard opts)"
proof -
  have C: "lawful_s3_client (make_client sdk standard opts)"
    using assms by (simp add: make_client_def Let_def)
  have "unaltered w (snd (s3_exists (make_client sdk standard opts) opts key w))" for key w
  proof -
    have "unaltered w (snd (file_exists (make_client sdk standard opts) (c_str (bucket opts)) (c_str key) w))"
      using C by (simp add: lawful_s3_client_def)
    then show ?thesis
      by (auto simp: s3_exists_def unaltered_def split: prod.splits sum.splits)
  qed
  moreover have "fetches (at w path) (fst x) w (snd x)"
    if "clean_path path" "x = s3_download (make_client sdk standard opts) opts key path w" for key path w x
    using s3_download_fetches [OF C that(1), of opts key w "fst x" "snd x"] that(2) by simp
  ultimately show ?thesis by (simp add: lawful_store_def s3_artifact_store_def Let_def)
qed

section \<open>Where an artifact goes\<close>

text \<open>The destination of an accepted artifact: below the version directory and a clean path.\<close>

lemma destination:
  assumes "make_object_key release_id path = Inr key" "no_nul target" "no_nul path"
  shows "clean_path (path_append target path)" "prefix (at w target) (at w (path_append target path))"
proof -
  note parts = make_object_key_parts [OF assms(1)]
  have "last (split_char (CHR ''/'') path) \<noteq> ''..''" using parts(4) last_in_set split_char_not_Nil by metis
  then show "clean_path (path_append target path)"
    using assms path_append_no_nul [OF assms(2,3)] path_append_filename [OF parts(3)] path_filename_last [of path]
    by (simp add: clean_path_def)
  show "prefix (at w target) (at w (path_append target path))"
    using parts(3,4) by (simp add: at_def locate_append resolve_no_parent)
qed

section \<open>The loop over the artifacts\<close>

text \<open>\<open>inside T w w'\<close>: outside \<open>T\<close> nothing changes, and I/O errors do not begin.\<close>

definition inside :: "fpath \<Rightarrow> 'a machine_scheme \<Rightarrow> 'a machine_scheme \<Rightarrow> bool" where
  "inside T w w' \<longleftrightarrow>
     cwd w' = cwd w \<and> (faults w = [] \<longrightarrow> faults w' = []) \<and>
     (\<forall>q. prefix q T \<longrightarrow> lookup (files w) q = Some Directory) \<and>
     (\<forall>q. \<not> strict_prefix T q \<longrightarrow> lookup (files w') q = lookup (files w) q)"

lemma inside_trans:
  assumes "inside T w w1" "inside T w1 w2"
  shows "inside T w w2"
  using assms by (simp add: inside_def)

lemma fetches_inside:
  assumes "fetches p r w w'" "prefix T p"
    and "\<forall>q. prefix q T \<longrightarrow> lookup (files w) q = Some Directory"
  shows "inside T w w'"
proof -
  have "lookup (files w') q = lookup (files w) q" if "\<not> strict_prefix T q" for q
  proof (cases "lookup (files w) q = None")
    case True
    then have "\<not> prefix q T" using assms(3) by auto
    then have "\<not> prefix q p" using that assms(2) prefix_same_cases [of q p T] by (auto simp: strict_prefix_def)
    then show ?thesis using assms(1) by (simp add: fetches_def)
  next
    case False
    have "q \<noteq> p \<or> lookup (files w) q = Some Directory"
      using that assms(2,3) by (auto simp: strict_prefix_def)
    then show ?thesis using assms(1) False by (simp add: fetches_def)
  qed
  then show ?thesis using assms(1,3) by (simp add: inside_def fetches_def)
qed

text \<open>An element of the array as the loop reads it: its position on the device and its digest.\<close>

definition place :: "'a machine_scheme \<Rightarrow> string \<Rightarrow> json \<Rightarrow> fpath" where
  "place w target e =
     (case e of JObject entry \<Rightarrow> at w (path_append target (the (string_field entry ''install_path''))) | _ \<Rightarrow> [])"

definition declared :: "json \<Rightarrow> string" where
  "declared e = (case e of JObject entry \<Rightarrow> the (string_field entry ''sha256'') | _ \<Rightarrow> '''')"

text \<open>Every artifact is in place, and its content has the declared digest; where two artifacts have
  the same place, the later one.\<close>

definition verified ::
    "(string \<Rightarrow> string) \<Rightarrow> string \<Rightarrow> json list \<Rightarrow> 'a machine_scheme \<Rightarrow> bool" where
  "verified H target elements w \<longleftrightarrow>
     (\<forall>xs e ys. elements = xs @ e # ys \<longrightarrow> (\<forall>e' \<in> set ys. place w target e' \<noteq> place w target e) \<longrightarrow>
        (\<exists>c m. lookup (files w) (place w target e) = Some (File c m) \<and> to_hex (H c) = declared e))"

lemma no_nul_string_field: "string_field obj key = Some s \<Longrightarrow> no_nul s"
  by (auto simp: string_field_def split: option.splits json.splits)

lemma payload_string_ok: "payload_string obj key = Inr s \<longleftrightarrow> string_field obj key = Some s"
  by (auto simp: payload_string_def split: option.splits)

lemma place_cong: "cwd w' = cwd w \<Longrightarrow> place w' target e = place w target e"
  by (auto simp: place_def at_def split: json.splits)



lemma artifact_fields_ok:
  assumes "artifact_fields release_id e = Inr (path, expected, key)" "no_nul target"
  shows "place w target e = at w (path_append target path)" "declared e = expected"
    "clean_path (path_append target path)" "prefix (at w target) (at w (path_append target path))"
proof -
  obtain entry where e: "e = JObject entry" "string_field entry ''install_path'' = Some path"
    "string_field entry ''sha256'' = Some expected" "make_object_key release_id path = Inr key"
    using assms(1) by (auto simp: artifact_fields_def payload_string_ok split: json.splits sum.splits)
  show "place w target e = at w (path_append target path)" "declared e = expected"
    using e by (simp_all add: place_def declared_def)
  show "clean_path (path_append target path)" "prefix (at w target) (at w (path_append target path))"
    using destination [OF e(4) assms(2) no_nul_string_field [OF e(2)]] by auto
qed

lemma unaltered_inside: "inside T w w1 \<Longrightarrow> unaltered w1 w2 \<Longrightarrow> inside T w w2"
  by (simp add: inside_def unaltered_def)

lemma file_sha256_unaltered: "file_sha256 D path w = (r, w') \<Longrightarrow> unaltered w w'"
  using file_sha256_reads [of D path w r w'] reads_step [of w w' "\<lambda>_. False"] step_in_fields [of "\<lambda>_. False" w w']
  by (auto simp: unaltered_def file_sha256_def split: prod.splits option.splits dest: read_calm)

text \<open>One artifact, whatever comes of it; and what a success means.\<close>

lemma fetch_artifact_inside:
  assumes "artifact_fields release_id e = Inr item" "fetch_artifact P st target item a w = (r, a', w')"
    and "lawful_store st" "no_nul target"
    and "\<forall>q. prefix q (at w target) \<longrightarrow> lookup (files w) q = Some Directory"
  shows "inside (at w target) w w'"
proof -
  obtain path expected key where i: "item = (path, expected, key)" by (cases item) auto
  note f = artifact_fields_ok [OF assms(1) [unfolded i] assms(4)]
  obtain x w1 where d: "download st key (path_append target path) w = (x, w1)" by fastforce
  have w1: "inside (at w target) w w1"
    by (rule fetches_inside [OF lawful_download [OF assms(3) f(3) d] f(4) assms(5)])
  show ?thesis
  proof (cases x)
    case (Inl err)
    then obtain y where "object_exists st key w1 = (y, w')"
      using assms(2) i d by (auto simp: fetch_artifact_def permanent_def transient_def
          split: prod.splits sum.splits bool.splits)
    then show ?thesis using w1 lawful_exists [OF assms(3)] unaltered_inside by blast
  next
    case (Inr u)
    then obtain y where "file_sha256 (agent_digest P) (path_append target path) w1 = (y, w')"
      using assms(2) i d by (auto simp: fetch_artifact_def permanent_def transient_def Let_def
          split: prod.splits sum.splits if_splits)
    then show ?thesis using w1 file_sha256_unaltered unaltered_inside by blast
  qed
qed

lemma fetch_artifact_ok:
  assumes "artifact_fields release_id e = Inr item" "fetch_artifact P st target item a w = (Inr u, a', w')"
    and "lawful_store st" "no_nul target" "faults w = []" "evp_sha256 (agent_digest P) H"
  shows "a' = a" "\<exists>c m. lookup (files w') (place w target e) = Some (File c m) \<and> to_hex (H c) = declared e"
    "q \<noteq> place w target e \<Longrightarrow> lookup (files w) q \<noteq> None \<Longrightarrow> lookup (files w') q = lookup (files w) q"
proof -
  obtain path expected key where i: "item = (path, expected, key)" by (cases item) auto
  note f = artifact_fields_ok [OF assms(1) [unfolded i] assms(4)]
  obtain x w1 where d: "download st key (path_append target path) w = (x, w1)" by fastforce
  note fe = lawful_download [OF assms(3) f(3) d]
  have x: "is_ok x" using assms(2) i d
    by (auto simp: fetch_artifact_def permanent_def transient_def split: prod.splits sum.splits bool.splits)
  then obtain c m where look: "lookup (files w1) (at w (path_append target path)) = Some (File c m)"
    using fe by (auto simp: fetches_def is_file_iff)
  have calm: "faults w1 = []" "at w1 = at w" using fe assms(5) fetches_at by (auto simp: fetches_def)
  have "file_sha256 (agent_digest P) (path_append target path) w1 = (Inr (to_hex (H c)), w1)"
    using file_sha256_ok [OF assms(6), of w1 "path_append target path" c m] look calm
    by (simp add: fs_read_def take_fault_none)
  then have e: "w' = w1" "to_hex (H c) = expected" "a' = a"
    using assms(2) i d x by (auto simp: fetch_artifact_def permanent_def Let_def split: sum.splits if_splits)
  show "a' = a" by (rule e)
  show "\<exists>c m. lookup (files w') (place w target e) = Some (File c m) \<and> to_hex (H c) = declared e"
    using e f(1) [of w] f(2) look by (intro exI [of _ c] exI [of _ m]) simp
  show "q \<noteq> place w target e \<Longrightarrow> lookup (files w) q \<noteq> None \<Longrightarrow> lookup (files w') q = lookup (files w) q"
    using e f(1) [of w] fe by (auto simp: fetches_def)
qed

lemma inside_directories:
  "inside T w w' \<Longrightarrow> \<forall>q. prefix q T \<longrightarrow> lookup (files w) q = Some Directory \<Longrightarrow>
     \<forall>q. prefix q T \<longrightarrow> lookup (files w') q = Some Directory"
  unfolding inside_def strict_prefix_def by (metis prefix_order.antisym)

lemma inside_at: "inside T w w' \<Longrightarrow> at w' = at w"
  by (rule ext) (simp add: inside_def at_def)

lemma download_artifacts_inside:
  assumes "download_artifacts P st release_id target elements a w = (r, a', w')"
    and "lawful_store st" "no_nul target"
    and "\<forall>q. prefix q (at w target) \<longrightarrow> lookup (files w) q = Some Directory"
  shows "inside (at w target) w w'"
  using assms(1,4)
proof (induction elements arbitrary: a w)
  case Nil
  then show ?case by (simp add: inside_def)
next
  case (Cons e elements)
  show ?case
  proof (cases "artifact_fields release_id e")
    case (Inl err)
    then show ?thesis using Cons.prems by (simp add: permanent_def inside_def)
  next
    case (Inr item)
    obtain x a1 w1 where s: "fetch_artifact P st target item a w = (x, a1, w1)" by (metis prod_cases3)
    note i = fetch_artifact_inside [OF Inr s assms(2,3) Cons.prems(2)]
    show ?thesis
    proof (cases x)
      case (Inl err)
      then show ?thesis using Cons.prems(1) Inr s i by simp
    next
      case ok: (Inr u)
      then have d: "download_artifacts P st release_id target elements a1 w1 = (r, a', w')"
        using Cons.prems(1) Inr s by simp
      then have "inside (at w1 target) w1 w'"
        by (rule Cons.IH) (use inside_directories [OF i Cons.prems(2)] inside_at [OF i] in simp)
      then show ?thesis using i inside_at [OF i] inside_trans by metis
    qed
  qed
qed

lemma download_artifacts_verified:
  assumes "download_artifacts P st release_id target elements a w = (Inr u, a', w')"
    and "lawful_store st" "no_nul target" "faults w = []" "evp_sha256 (agent_digest P) H"
    and "\<forall>q. prefix q (at w target) \<longrightarrow> lookup (files w) q = Some Directory"
  shows "a' = a \<and> verified H target elements w' \<and>
    (\<forall>q. lookup (files w) q \<noteq> None \<longrightarrow> q \<notin> place w target ` set elements \<longrightarrow>
       lookup (files w') q = lookup (files w) q)"
  using assms(1,4,6)
proof (induction elements arbitrary: a w)
  case Nil
  then show ?case by (simp add: verified_def)
next
  case (Cons e elements)
  obtain item where f: "artifact_fields release_id e = Inr item"
    using Cons.prems(1) by (cases "artifact_fields release_id e") (auto simp: permanent_def)
  obtain x a1 w1 where s: "fetch_artifact P st target item a w = (x, a1, w1)" by (metis prod_cases3)
  obtain v where x: "x = Inr v" using Cons.prems(1) f s by (cases x) auto
  have d: "download_artifacts P st release_id target elements a1 w1 = (Inr u, a', w')"
    using Cons.prems(1) f s x by simp
  note ok = fetch_artifact_ok [OF f s [unfolded x] assms(2,3) Cons.prems(2) assms(5)]
  note i = fetch_artifact_inside [OF f s assms(2,3) Cons.prems(3)]
  have calm: "faults w1 = []" and cwd: "cwd w1 = cwd w" using i Cons.prems(2) by (auto simp: inside_def)
  have IH: "a' = a1" "verified H target elements w'"
    "\<And>q. lookup (files w1) q \<noteq> None \<Longrightarrow> q \<notin> place w1 target ` set elements \<Longrightarrow>
       lookup (files w') q = lookup (files w1) q"
    using Cons.IH [OF d calm] inside_directories [OF i Cons.prems(3)] inside_at [OF i] by auto
  note pl = place_cong [OF cwd]
  have cwd': "cwd w' = cwd w"
    using download_artifacts_inside [OF d assms(2,3)] inside_directories [OF i Cons.prems(3)] inside_at [OF i] cwd
    by (simp add: inside_def)
  obtain c m where c: "lookup (files w1) (place w target e) = Some (File c m)" "to_hex (H c) = declared e"
    using ok(2) by blast
  have "verified H target (e # elements) w'"
    unfolding verified_def
  proof (intro allI impI)
    fix xs e1 ys
    assume split: "e # elements = xs @ e1 # ys" and last: "\<forall>e' \<in> set ys. place w' target e' \<noteq> place w' target e1"
    show "\<exists>c m. lookup (files w') (place w' target e1) = Some (File c m) \<and> to_hex (H c) = declared e1"
    proof (cases xs)
      case Nil
      then have e1: "e1 = e" "ys = elements" using split by auto
      have "place w target e' \<noteq> place w target e" if "e' \<in> set elements" for e'
        using last that unfolding e1 place_cong [OF cwd'] by blast
      then have "place w target e \<notin> place w1 target ` set elements" unfolding pl by force
      then have "lookup (files w') (place w target e) = Some (File c m)"
        using IH(3) [of "place w target e"] c(1) by simp
      then show ?thesis unfolding e1 place_cong [OF cwd'] using c(2) by blast
    next
      case (Cons x xs')
      then have "elements = xs' @ e1 # ys" using split by auto
      then show ?thesis using IH(2) last unfolding verified_def by blast
    qed
  qed
  moreover have "lookup (files w') q = lookup (files w) q"
    if "lookup (files w) q \<noteq> None" "q \<notin> place w target ` set (e # elements)" for q
    using ok(3) [of q] IH(3) [of q] that pl by auto
  ultimately show ?case using IH(1) ok(1) by auto
qed

section \<open>The handler\<close>

lemma create_directories_made:
  assumes "fs_create_directories p w = (Inr u, w')"
  shows "\<forall>q. prefix q p \<longrightarrow> lookup (files w') q = Some Directory" "cwd w' = cwd w"
proof -
  obtain w1 where w1: "take_fault w = (None, w1)" "\<not> dirs_blocked (files w1) p"
    "w' = w1\<lparr>files := make_dirs p (files w1)\<rparr>"
    using assms by (auto simp: fs_create_directories_def split: prod.splits option.splits if_splits)
  show "cwd w' = cwd w" using step_in_fields [OF create_directories_step [OF assms]] by simp
  have "lookup (files w1) q \<in> {None, Some Directory}" if "prefix q p" for q
  proof -
    have "q = take (length q) p" "length q \<in> set [0..<Suc (length p)]"
      using that by (auto simp: prefix_def)
    then show ?thesis using w1(2) unfolding dirs_blocked_def by metis
  qed
  then show "\<forall>q. prefix q p \<longrightarrow> lookup (files w') q = Some Directory"
    using w1(3) by (fastforce simp: lookup_make_dirs)
qed

lemma discarded:
  "fs_remove_all p w = (Inr u, w') \<Longrightarrow> p \<noteq> [] \<Longrightarrow> prefix p q \<Longrightarrow> lookup (files w') q = None"
  "fs_remove_all p w = (Inl d, w') \<Longrightarrow> faults w \<noteq> []"
  by (auto simp: fs_remove_all_def take_fault_def lookup_drop_tree split: list.splits option.splits)

lemma download_cases:
  assumes "download_version P m a w = (r, a', w')"
  obtains (refused) e where "r = Inl e" "w' = w"
  | (go) st obj release_id elements where "store P = Some st" "payload_object (agent_json P) m = Inr obj"
      "validated_release_id obj = Inr release_id" "array_field obj ''artifacts'' = Some elements"
      "elements \<noteq> []" "download_into P st release_id elements a w = (r, a', w')"
  using assms unfolding download_version_def permanent_def
  by (fastforce split: option.splits sum.splits if_splits)

lemma validated_id:
  assumes "validated_release_id obj = Inr release_id"
  shows "plain_name release_id" "no_nul release_id"
  using assms validate_release_id_plain no_nul_string_field
  by (auto simp: validated_release_id_def payload_string_ok split: sum.splits)

lemma version_position:
  "plain_name release_id \<Longrightarrow> at w (version_directory opts release_id) = at w (version_root opts) @ [release_id]"
  by (simp add: version_directory_def at_def locate_child)

lemma download_into_steps:
  assumes "download_into P st release_id elements a w = (r, a', w')" "lawful_store st"
    and "no_nul (version_directory (agent_opts P) release_id)"
  defines "target \<equiv> version_directory (agent_opts P) release_id"
  obtains (blocked) e where "r = Inl e" "files w' = files w"
  | (failed) e w1 a1 w2 where "fs_create_directories (at w target) w = (Inr (), w1)" "r = Inl e"
      "download_artifacts P st release_id target elements a w1 = (Inl e, a1, w2)" "inside (at w target) w1 w2"
      "w' = snd (fs_remove_all (at w target) w2)" "a' = a1"
  | (finished) w1 a1 where "fs_create_directories (at w target) w = (Inr (), w1)" "r = Inr ()"
      "download_artifacts P st release_id target elements a w1 = (Inr (), a1, w')" "inside (at w target) w1 w'"
proof -
  obtain x w1 where c: "fs_create_directories (at w target) w = (x, w1)" by fastforce
  show thesis
  proof (cases x)
    case (Inl e)
    have "files w1 = files w"
      using c Inl by (auto simp: fs_create_directories_def split: prod.splits option.splits if_splits
          dest: take_fault_reads reads_files)
    then show ?thesis using assms(1) c Inl blocked by (auto simp: download_into_def transient_def Let_def target_def)
  next
    case (Inr u)
    note made = create_directories_made [OF c [unfolded Inr]]
    have a: "at w1 = at w" using made(2) by (simp add: at_def fun_eq_iff)
    obtain y a1 w2 where d: "download_artifacts P st release_id target elements a w1 = (y, a1, w2)"
      by (metis prod_cases3)
    have i: "inside (at w target) w1 w2"
      using download_artifacts_inside [OF d assms(2)] assms(3) made(1) a by (simp add: target_def)
    have a2: "at w2 = at w" using inside_at [OF i] a by simp
    show ?thesis
    proof (cases y)
      case (Inl e)
      then show ?thesis using assms(1) c Inr d i a2 failed [of w1 _ a1 w2]
        by (auto simp: download_into_def Let_def target_def)
    next
      case ok: (Inr v)
      then show ?thesis using assms(1) c Inr d i finished [of w1 a1]
        by (auto simp: download_into_def succeed_def Let_def target_def)
    qed
  qed
qed

text \<open>
  C5: A download that reports success is complete and verified. Without I/O errors, when
  \<open>download_version\<close> succeeds, the payload names a release and a non-empty list of artifacts, and for
  every artifact a file lies at its install path below the release's version directory whose
  SHA-256 digest is the declared one (of several artifacts with one path, the last).
\<close>

theorem download_verified:
  assumes "download_version P m a w = (Inr (), a', w')" "store P = Some st" "lawful_store st"
    and "evp_sha256 (agent_digest P) H" "no_nul (version_root (agent_opts P))" "faults w = []"
  shows "\<exists>obj release_id elements. payload_object (agent_json P) m = Inr obj \<and>
    validated_release_id obj = Inr release_id \<and> array_field obj ''artifacts'' = Some elements \<and> elements \<noteq> [] \<and>
    verified H (version_directory (agent_opts P) release_id) elements w'"
  using assms(1)
proof (cases rule: download_cases)
  case (go st' obj release_id elements)
  have n: "no_nul (version_directory (agent_opts P) release_id)"
    unfolding version_directory_def using path_append_no_nul [OF assms(5) validated_id(2) [OF go(3)]] .
  have st: "st' = st" using go(1) assms(2) by simp
  from go(6) [unfolded st] assms(3) n show ?thesis
  proof (cases rule: download_into_steps)
    case (finished w1 a1)
    note made = create_directories_made [OF finished(1)]
    have "faults w1 = []" using create_directories_calm [OF finished(1) assms(6)] .
    moreover have "at w1 = at w" using made(2) by (simp add: at_def fun_eq_iff)
    ultimately show ?thesis
      using download_artifacts_verified [OF finished(3) assms(3) n _ assms(4)] made(1) go by auto
  qed simp_all
qed simp

text \<open>
  C9: A failed download is discarded. Whatever fails, when \<open>download_version\<close> reports an error,
  either nothing on the disk has changed, or the version directory of the release the payload
  names is gone with everything below it, or that very removal, made with what the failed
  artifact left, failed itself (the guard that removes the directory ignores its error). Without
  I/O errors the last case is excluded, so nothing is left that could be installed.
\<close>

theorem download_failure_discards:
  assumes "download_version P m a w = (Inl e, a', w')" "store P = Some st" "lawful_store st"
    and "no_nul (version_root (agent_opts P))"
  shows "files w' = files w \<or>
    (\<exists>obj release_id elements T. payload_object (agent_json P) m = Inr obj \<and>
       validated_release_id obj = Inr release_id \<and> array_field obj ''artifacts'' = Some elements \<and>
       T = at w (version_root (agent_opts P)) @ [release_id] \<and>
       ((\<forall>q. prefix T q \<longrightarrow> lookup (files w') q = None) \<or>
        faults w \<noteq> [] \<and>
        (\<exists>w1 w2 d. fs_create_directories T w = (Inr (), w1) \<and>
           download_artifacts P st release_id (version_directory (agent_opts P) release_id) elements a w1 =
             (Inl e, a', w2) \<and>
           fs_remove_all T w2 = (Inl d, w'))))"
  using assms(1)
proof (cases rule: download_cases)
  case (go st' obj release_id elements)
  have n: "no_nul (version_directory (agent_opts P) release_id)"
    unfolding version_directory_def using path_append_no_nul [OF assms(4) validated_id(2) [OF go(3)]] .
  have st: "st' = st" using go(1) assms(2) by simp
  note T = version_position [OF validated_id(1) [OF go(3)], of w "agent_opts P"]
  let ?T = "at w (version_root (agent_opts P)) @ [release_id]"
  from go(6) [unfolded st] assms(3) n show ?thesis
  proof (cases rule: download_into_steps)
    case (failed e' w1 a1 w2)
    obtain x where rm: "fs_remove_all ?T w2 = (x, w')" using failed(5) T by (cases "fs_remove_all ?T w2") simp
    show ?thesis
    proof (cases x)
      case (Inr u)
      then show ?thesis using discarded(1) [of ?T w2 u w'] rm go by auto
    next
      case (Inl d)
      then have "faults w2 \<noteq> []" using discarded(2) [of ?T w2 d w'] rm by simp
      then have "faults w \<noteq> []"
        using create_directories_calm [OF failed(1)] failed(4) by (auto simp: inside_def)
      then show ?thesis using rm Inl go failed(1,2,3,6) T by auto
    qed
  qed simp_all
qed simp

text \<open>
  C21: A download stays in its directory, whatever the payload says, whatever fails, successful or
  not: of everything outside the release's version directory nothing changes, but for directories
  newly made on the way to it; and that directory is exactly the child of \<open>version_root\<close> with the
  release's name.
\<close>

theorem download_stays_inside:
  assumes "download_version P m a w = (r, a', w')" "store P = Some st" "lawful_store st"
    and "no_nul (version_root (agent_opts P))"
  shows "files w' = files w \<or>
    (\<exists>obj release_id T. payload_object (agent_json P) m = Inr obj \<and> validated_release_id obj = Inr release_id \<and>
       T = at w (version_root (agent_opts P)) @ [release_id] \<and>
       (\<forall>q. \<not> prefix T q \<longrightarrow> lookup (files w) q \<noteq> None \<or> \<not> prefix q T \<longrightarrow>
          lookup (files w') q = lookup (files w) q))"
  using assms(1)
proof (cases rule: download_cases)
  case (go st' obj release_id elements)
  have n: "no_nul (version_directory (agent_opts P) release_id)"
    unfolding version_directory_def using path_append_no_nul [OF assms(4) validated_id(2) [OF go(3)]] .
  have st: "st' = st" using go(1) assms(2) by simp
  note T = version_position [OF validated_id(1) [OF go(3)], of w "agent_opts P"]
  let ?T = "at w (version_root (agent_opts P)) @ [release_id]"
  have made: "lookup (files w1) q = lookup (files w) q"
    if "fs_create_directories ?T w = (Inr (), w1)" "lookup (files w) q \<noteq> None \<or> \<not> prefix q ?T" for w1 q
    using create_directories_keeps [OF that(1)] step_in_lookup [OF create_directories_step [OF that(1)]] that(2)
    by blast
  have kept: "lookup (files w2) q = lookup (files w1) q" if "inside ?T w1 w2" "\<not> prefix ?T q" for w1 w2 q
    using that by (auto simp: inside_def strict_prefix_def)
  from go(6) [unfolded st] assms(3) n show ?thesis
  proof (cases rule: download_into_steps)
    case (failed e w1 a1 w2)
    have "lookup (files w') q = lookup (files w2) q" if "\<not> prefix ?T q" for q
      using step_in_lookup [OF remove_all_step [of ?T w2 "fst (fs_remove_all ?T w2)" w'] that]
        failed(5) T by (simp add: prod_eq_iff)
    then show ?thesis using go made kept failed(1,4) unfolding T by (metis (no_types, lifting))
  next
    case (finished w1 a1)
    then show ?thesis using go made kept unfolding T by (metis (no_types, lifting))
  qed simp_all
qed simp

end
