(* ===== verification/EndToEnd.thy ===== *)
theory EndToEnd
  imports CliFacts DownloadFacts InstallCopy
begin

text \<open>
  From the tool to the device: what \<open>deploy\<close> uploaded and announced, an agent downloads and installs. The two
  programs meet in the object store and in the message; between them stands the control plane,
  which is not modelled: \<open>relayed\<close> says what of the request it passes on to the agents.
\<close>

section \<open>The parties between\<close>

text \<open>
  A store that serves a set of objects: without I/O errors, whoever asks for one of them at a free
  place below directories that exist gets its content there.
\<close>

definition serves :: "'a machine_scheme artifact_store \<Rightarrow> (string \<Rightarrow> string option) \<Rightarrow> bool" where
  "serves st objs \<longleftrightarrow>
     (\<forall>key c path w. objs key = Some c \<longrightarrow> no_nul path \<longrightarrow> plain_name (path_filename path) \<longrightarrow> faults w = [] \<longrightarrow>
        (\<forall>q. strict_prefix q (at w path) \<longrightarrow> lookup (files w) q = Some Directory) \<longrightarrow> lookup (files w) (at w path) = None \<longrightarrow>
        (\<exists>w' m. download st key path w = (Inr (), w') \<and> lookup (files w') (at w path) = Some (File c m)))"

definition same_artifact :: "json \<Rightarrow> json \<Rightarrow> bool" where
  "same_artifact a b \<longleftrightarrow>
     (\<exists>x y. a = JObject x \<and> b = JObject y \<and> string_field y ''install_path'' = string_field x ''install_path'' \<and>
        string_field y ''sha256'' = string_field x ''sha256'')"

definition relayed :: "json_object \<Rightarrow> json_object \<Rightarrow> bool" where
  "relayed request passed \<longleftrightarrow>
     string_field passed ''release_id'' = string_field request ''release_id'' \<and>
     (\<exists>xs ys. array_field request ''artifacts'' = Some xs \<and> array_field passed ''artifacts'' = Some ys \<and>
        list_all2 same_artifact xs ys)"

section \<open>The request\<close>

lemma artifact_element_entry: "artifact_element = entry_json"
  by (rule ext) (simp add: artifact_element_def entry_json_def)

lemma deploy_request_parses:
  assumes "boost_json L" "plain_text (manifest_release_id m)" "plain_text (cli_target_group c)"
    and "\<forall>e \<in> set (artifacts m). plain_text (install_path e) \<and> is_sha256_hex (sha256 e)"
  shows "parse_text L (serialize_value L (deploy_request c m)) =
    Inr (JObject [(''release_id'', JString (manifest_release_id m)), (''group'', JString (cli_target_group c)),
      (''artifacts'', JArray (map (canon \<circ> entry_json) (artifacts m)))])"
proof -
  have e: "json_plain (entry_json e)" "json_depth (entry_json e) \<le> 1" if "e \<in> set (artifacts m)" for e
    using assms(4) that entry_json_wf by auto
  have p: "json_plain (deploy_request c m)"
    using e(1) assms(2,3) by (auto simp: deploy_request_def artifact_element_entry plain_text_def is_ascii_def)
  have "fold max (map json_depth (map entry_json (artifacts m))) 0 \<le> 1"
    using e(2) by (auto simp: fold_max_le)
  then have "json_depth (deploy_request c m) \<le> 32"
    by (simp add: deploy_request_def artifact_element_entry comp_def)
  then show ?thesis
    using boost_json_parse [OF assms(1) p] by (simp add: deploy_request_def artifact_element_entry)
qed

section \<open>The download\<close>

text \<open>An element of the payload that asks for an entry whose object has the content \<open>f e\<close>.\<close>

definition asks_for ::
    "string \<Rightarrow> (string \<Rightarrow> string option) \<Rightarrow> (string \<Rightarrow> string) \<Rightarrow> (artifact_entry \<Rightarrow> string) \<Rightarrow> artifact_entry \<Rightarrow> json \<Rightarrow> bool" where
  "asks_for release_id objs H f e y \<longleftrightarrow>
     (\<exists>key. artifact_fields release_id y = Inr (install_path e, sha256 e, key) \<and>
        objs key = Some (f e) \<and> sha256 e = to_hex (H (f e))) \<and> plain_name (install_path e)"

lemma fetch_artifact_served:
  assumes "asks_for release_id objs H f e y" "artifact_fields release_id y = Inr item"
    and "lawful_store st" "serves st objs" "evp_sha256 (agent_digest P) H" "no_nul target" "faults w = []"
    and "\<forall>q. prefix q (at w target) \<longrightarrow> lookup (files w) q = Some Directory"
    and "lookup (files w) (at w target @ [install_path e]) = None"
  shows "\<exists>w' m. fetch_artifact P st target item a w = (Inr (), a, w') \<and> inside (at w target) w w' \<and>
    lookup (files w') (at w target @ [install_path e]) = Some (File (f e) m) \<and>
    (\<forall>q. \<not> prefix q (at w target) \<longrightarrow> q \<noteq> at w target @ [install_path e] \<longrightarrow> lookup (files w') q = lookup (files w) q)"
proof -
  let ?n = "install_path e" and ?d = "path_append target (install_path e)"
  obtain key where i: "item = (?n, sha256 e, key)" "objs key = Some (f e)" "sha256 e = to_hex (H (f e))"
    and n: "plain_name ?n"
    using assms(1,2) by (auto simp: asks_for_def)
  note fo = artifact_fields_ok [OF assms(2) [unfolded i(1)] assms(6)]
  have p: "at w ?d = at w target @ [?n]" using n by (simp add: at_def locate_child)
  have "path_filename ?n = ?n"
    using n split_char_no_sep [of "CHR ''/''" ?n] by (simp add: path_filename_last plain_name_def contains_char_def)
  then have name: "no_nul ?d" "plain_name (path_filename ?d)"
    using fo(3) n path_append_filename [of ?n target] plain_name_relative [OF n] by (simp_all add: clean_path_def)
  have "\<forall>q. strict_prefix q (at w ?d) \<longrightarrow> lookup (files w) q = Some Directory"
    using assms(8) unfolding p by (auto simp: strict_prefix_def)
  note served_here = assms(4) [unfolded serves_def, rule_format, OF i(2) name assms(7), OF this [rule_format]]
  obtain w1 m where d: "download st key ?d w = (Inr (), w1)" "lookup (files w1) (at w ?d) = Some (File (f e) m)"
    using served_here assms(9) p by auto
  note fe = lawful_download [OF assms(3) fo(3) d(1)]
  have calm: "faults w1 = []" "at w1 = at w" using fe assms(7) fetches_at by (auto simp: fetches_def)
  have "file_sha256 (agent_digest P) ?d w1 = (Inr (to_hex (H (f e))), w1)"
    using file_sha256_ok [OF assms(5) calm(1), of ?d "f e" m] d(2) calm(2) by simp
  then have r: "fetch_artifact P st target item a w = (Inr (), a, w1)"
    using i d(1) by (simp add: fetch_artifact_def Let_def)
  have "lookup (files w1) q = lookup (files w) q" if "\<not> prefix q (at w target)" "q \<noteq> at w target @ [?n]" for q
    using fe that p by (auto simp: fetches_def)
  then show ?thesis
    using r d(2) p fetch_artifact_inside [OF assms(2) r assms(3,6,8)] by (intro exI [of _ w1] exI [of _ m]) simp
qed

lemma download_artifacts_served:
  assumes "lawful_store st" "serves st objs" "evp_sha256 (agent_digest P) H" "no_nul target"
    and "list_all2 (asks_for release_id objs H f) es ys" "distinct (map install_path es)" "faults w = []"
    and "\<forall>q. prefix q (at w target) \<longrightarrow> lookup (files w) q = Some Directory"
    and "\<forall>e \<in> set es. lookup (files w) (at w target @ [install_path e]) = None"
  shows "\<exists>w'. download_artifacts P st release_id target ys a w = (Inr (), a, w') \<and>
    (\<forall>e \<in> set es. \<exists>m. lookup (files w') (at w target @ [install_path e]) = Some (File (f e) m)) \<and>
    (\<forall>q. \<not> prefix q (at w target) \<longrightarrow> (\<forall>e \<in> set es. q \<noteq> at w target @ [install_path e]) \<longrightarrow>
       lookup (files w') q = lookup (files w) q)"
  using assms(5-9)
proof (induction es ys arbitrary: w rule: list_all2_induct)
  case Nil
  then show ?case by simp
next
  case (Cons e es y ys)
  let ?T = "at w target"
  obtain item where f: "artifact_fields release_id y = Inr item"
    using Cons.hyps(1) by (auto simp: asks_for_def)
  have free: "lookup (files w) (?T @ [install_path e]) = None" using Cons.prems(4) by simp
  obtain w1 m where s: "fetch_artifact P st target item a w = (Inr (), a, w1)" "inside ?T w w1"
      "lookup (files w1) (?T @ [install_path e]) = Some (File (f e) m)"
      "\<forall>q. \<not> prefix q ?T \<longrightarrow> q \<noteq> ?T @ [install_path e] \<longrightarrow> lookup (files w1) q = lookup (files w) q"
    using fetch_artifact_served [OF Cons.hyps(1) f assms(1-4) Cons.prems(2,3) free, of a] by (elim exE conjE) rule
  have a: "at w1 = at w" "faults w1 = []" using inside_at [OF s(2)] s(2) Cons.prems(2) by (auto simp: inside_def)
  have other: "lookup (files w1) (?T @ [install_path e']) = None" "install_path e' \<noteq> install_path e"
    if "e' \<in> set es" for e'
  proof -
    have "install_path e \<notin> install_path ` set es" using Cons.prems(1) by simp
    then show n: "install_path e' \<noteq> install_path e" using that by (metis imageI)
    have "lookup (files w) (?T @ [install_path e']) = None" using Cons.prems(4) that by simp
    then show "lookup (files w1) (?T @ [install_path e']) = None"
      using s(4) [rule_format, of "?T @ [install_path e']"] n by simp
  qed
  have d: "distinct (map install_path es)" using Cons.prems(1) by simp
  have dirs': "\<forall>q. prefix q (at w1 target) \<longrightarrow> lookup (files w1) q = Some Directory"
    using inside_directories [OF s(2) Cons.prems(3)] a(1) by simp
  have free': "\<forall>e \<in> set es. lookup (files w1) (at w1 target @ [install_path e]) = None"
    using other(1) a(1) by simp
  obtain w' where r: "download_artifacts P st release_id target ys a w1 = (Inr (), a, w')"
      "\<forall>e \<in> set es. \<exists>m. lookup (files w') (?T @ [install_path e]) = Some (File (f e) m)"
      "\<forall>q. \<not> prefix q ?T \<longrightarrow> (\<forall>e \<in> set es. q \<noteq> ?T @ [install_path e]) \<longrightarrow>
         lookup (files w') q = lookup (files w1) q"
    using Cons.IH [OF d a(2) dirs' free'] unfolding a(1) by (elim exE conjE) rule
  have "\<forall>x \<in> set es. ?T @ [install_path e] \<noteq> ?T @ [install_path x]"
    using other(2) by (metis append1_eq_conv)
  then have "lookup (files w') (?T @ [install_path e]) = Some (File (f e) m)"
    using r(3) s(3) by simp
  then have files': "\<forall>x \<in> set (e # es). \<exists>m. lookup (files w') (?T @ [install_path x]) = Some (File (f x) m)"
    using r(2) by simp
  have "\<forall>q. \<not> prefix q ?T \<longrightarrow> (\<forall>x \<in> set (e # es). q \<noteq> ?T @ [install_path x]) \<longrightarrow>
      lookup (files w') q = lookup (files w) q"
    using r(3) s(4) by simp
  moreover have "download_artifacts P st release_id target (y # ys) a w = (Inr (), a, w')"
    using f s(1) r(1) by simp
  ultimately show ?case using files' by blast
qed

text \<open>
  What a complete download leaves: the objects at their places below \<open>T\<close>, the directories on the way
  to \<open>T\<close>, and nothing else new.
\<close>

definition delivered ::
    "fpath \<Rightarrow> artifact_entry list \<Rightarrow> (artifact_entry \<Rightarrow> string) \<Rightarrow> 'a machine_scheme \<Rightarrow> 'a machine_scheme \<Rightarrow> bool" where
  "delivered T es f w w' \<longleftrightarrow>
     faults w' = [] \<and> at w' = at w \<and>
     (\<forall>e \<in> set es. \<exists>m. lookup (files w') (T @ [install_path e]) = Some (File (f e) m)) \<and>
     (\<forall>q. prefix q T \<longrightarrow> lookup (files w') q = Some Directory) \<and>
     (\<forall>q. \<not> prefix q T \<longrightarrow> (\<forall>e \<in> set es. q \<noteq> T @ [install_path e]) \<longrightarrow> lookup (files w') q = lookup (files w) q)"

definition keeps_trees :: "'a machine_scheme artifact_store \<Rightarrow> bool" where
  "keeps_trees st \<longleftrightarrow> (\<forall>key path w. wf_tree (files w) \<longrightarrow> wf_tree (files (snd (download st key path w))))"

lemma fetch_artifact_wf:
  assumes "keeps_trees st" "lawful_store st" "fetch_artifact P st target item a w = (r, a', w')" "wf_tree (files w)"
  shows "wf_tree (files w')"
proof -
  obtain path expected key where i: "item = (path, expected, key)" by (cases item) auto
  obtain x w1 where d: "download st key (path_append target path) w = (x, w1)" by fastforce
  have w1: "wf_tree (files w1)" using assms(1,4) d unfolding keeps_trees_def by (metis snd_conv)
  have e: "files w2 = files w1" if "object_exists st key w1 = (y, w2)" for y w2
    using lawful_exists [OF assms(2) that] by (simp add: unaltered_def)
  have h: "files w2 = files w1" if "file_sha256 D p w1 = (y, w2)" for D :: "'x digest_lib" and p y w2
    using file_sha256_unaltered [OF that] by (simp add: unaltered_def)
  show ?thesis
    using assms(3) i d w1 e h
    by (fastforce simp: fetch_artifact_def permanent_def transient_def Let_def
        split: prod.splits sum.splits bool.splits if_splits)
qed

lemma download_artifacts_wf:
  assumes "keeps_trees st" "lawful_store st" "download_artifacts P st release_id target ys a w = (r, a', w')" "wf_tree (files w)"
  shows "wf_tree (files w')"
  using assms(3,4)
proof (induction ys arbitrary: a w)
  case Nil
  then show ?case by simp
next
  case (Cons y ys)
  then show ?case
    using fetch_artifact_wf [OF assms(1,2)]
    by (fastforce simp: permanent_def split: sum.splits prod.splits)
qed

lemma download_into_served:
  fixes d :: "'a machine_scheme"
  assumes "lawful_store st" "serves st objs" "evp_sha256 (agent_digest P) H"
    and "no_nul (version_directory (agent_opts P) release_id)"
    and "list_all2 (asks_for release_id objs H f) es ys" "distinct (map install_path es)" "faults d = []"
  defines "T \<equiv> at d (version_directory (agent_opts P) release_id)"
  assumes "\<not> dirs_blocked (files d) T" "\<forall>q. strict_prefix T q \<longrightarrow> lookup (files d) q = None"
  shows "\<exists>a' d'. download_into P st release_id ys a d = (Inr (), a', d') \<and> delivered T es f d d' \<and>
    (keeps_trees st \<longrightarrow> wf_tree (files d) \<longrightarrow> wf_tree (files d'))"
proof -
  let ?t = "version_directory (agent_opts P) release_id" and ?w = "d\<lparr>files := make_dirs T (files d)\<rparr>"
  have c: "fs_create_directories T d = (Inr (), ?w)"
    using assms(7,9) by (simp add: fs_create_directories_def take_fault_none)
  have a: "at ?w = at d" by (simp add: at_def fun_eq_iff)
  have calm: "faults ?w = []" using assms(7) by simp
  have dirs: "\<forall>q. prefix q (at ?w ?t) \<longrightarrow> lookup (files ?w) q = Some Directory"
    unfolding a T_def [symmetric] by (rule create_directories_made(1) [OF c])
  have free: "\<forall>e \<in> set es. lookup (files ?w) (at ?w ?t @ [install_path e]) = None"
  proof
    fix e
    have "strict_prefix T (T @ [install_path e])" by (simp add: strict_prefix_def)
    then have "lookup (files d) (T @ [install_path e]) = None" using assms(10) by blast
    then show "lookup (files ?w) (at ?w ?t @ [install_path e]) = None"
      unfolding a T_def [symmetric] by (simp add: lookup_make_dirs)
  qed
  from download_artifacts_served [OF assms(1-6) calm dirs free, of a]
  obtain w' where w': "download_artifacts P st release_id ?t ys a ?w = (Inr (), a, w')"
    "\<forall>e \<in> set es. \<exists>m. lookup (files w') (T @ [install_path e]) = Some (File (f e) m)"
    "\<forall>q. \<not> prefix q T \<longrightarrow> (\<forall>e \<in> set es. q \<noteq> T @ [install_path e]) \<longrightarrow> lookup (files w') q = lookup (files ?w) q"
    unfolding a T_def [symmetric] by (elim exE conjE) rule
  note i = download_artifacts_inside [OF w'(1) assms(1,4) dirs]
  have "delivered T es f d w'"
    unfolding delivered_def
  proof (intro conjI)
    show "faults w' = []" "at w' = at d" using i calm inside_at [OF i] a by (auto simp: inside_def)
    show "\<forall>q. prefix q T \<longrightarrow> lookup (files w') q = Some Directory"
      using inside_directories [OF i dirs] unfolding a T_def [symmetric] .
    show "\<forall>q. \<not> prefix q T \<longrightarrow> (\<forall>e \<in> set es. q \<noteq> T @ [install_path e]) \<longrightarrow> lookup (files w') q = lookup (files d) q"
      using w'(3) by (simp add: lookup_make_dirs)
  qed (rule w'(2))
  moreover have "wf_tree (files w')" if "keeps_trees st" "wf_tree (files d)"
    using download_artifacts_wf [OF that(1) assms(1) w'(1)] step_in_wf [OF create_directories_step [OF c] that(2)] by blast
  ultimately show ?thesis using c w'(1) by (simp add: download_into_def Let_def succeed_def T_def)
qed

text \<open>What the agent reads in the payload that was passed on.\<close>

lemma relayed_asks:
  assumes "relayed [(''release_id'', JString release_id), (''group'', g),
      (''artifacts'', JArray (map (canon \<circ> entry_json) es))] obj"
    and "validate_release_id release_id = Inr ()" "no_nul release_id"
    and "\<forall>e \<in> set es. no_nul (install_path e) \<and> no_nul (sha256 e) \<and> plain_name (install_path e) \<and>
      (\<exists>key. make_object_key release_id (install_path e) = Inr key \<and> objs key = Some (f e)) \<and> sha256 e = to_hex (H (f e))"
  shows "validated_release_id obj = Inr release_id \<and>
    (\<exists>ys. array_field obj ''artifacts'' = Some ys \<and> list_all2 (asks_for release_id objs H f) es ys)"
proof -
  obtain ys where y: "array_field obj ''artifacts'' = Some ys"
    "list_all2 same_artifact (map (canon \<circ> entry_json) es) ys" "string_field obj ''release_id'' = Some release_id"
    using assms(1,3) by (auto simp: relayed_def array_field_def string_field_def)
  have "asks_for release_id objs H f e y" if "e \<in> set es" "same_artifact (canon (entry_json e)) y" for e y
  proof -
    have "\<exists>b. y = JObject b \<and> string_field b ''install_path'' = Some (install_path e) \<and>
        string_field b ''sha256'' = Some (sha256 e)"
      using that assms(4) by (auto simp: same_artifact_def entry_json_def string_field_def)
    then show ?thesis
      using that(1) assms(4) by (fastforce simp: asks_for_def artifact_fields_def payload_string_def)
  qed
  then have "list_all2 (asks_for release_id objs H f) es ys"
    using y(2) by (auto simp: list_all2_conv_all_nth)
  then show ?thesis using y(1,3) assms(2) by (simp add: validated_release_id_def payload_string_def)
qed

section \<open>The announced release\<close>

lemma filename_plain: "plain_text s \<Longrightarrow> plain_text (path_filename s)"
  unfolding path_filename_def plain_text_def is_ascii_def no_nul_def by (auto dest: set_takeWhileD)

lemma named_entry:
  assumes "s \<in> set ss" "map source_path es = ss" "map install_path es = map path_filename ss"
  shows "\<exists>e \<in> set es. source_path e = s \<and> install_path e = path_filename s"
  using assms by (induction es arbitrary: ss) auto

lemma deploy_needs_files: "deploy P w = (r, w') \<Longrightarrow> requests w' \<noteq> requests w \<Longrightarrow> upload_file_list (settings P) \<noteq> []"
  by (auto simp: deploy_def cli_required_for_deploy_def split: sum.splits)

lemma stored_content:
  assumes "stored_entry objs b H w release_id e"
  shows "\<exists>c m key. make_object_key release_id (install_path e) = Inr key \<and> objs b key = Some c \<and>
    lookup (files w) (at w (source_path e)) = Some (File c m) \<and> sha256 e = to_hex (H c)"
  using assms by (auto simp: stored_entry_def)

text \<open>
  What the request of \<open>deploy\<close> says, entry by entry: the object \<open>f e\<close> of the entry is in the bucket and is
  the content of its upload file.
\<close>

lemma deploy_announces:
  assumes "deploy (make_commands E H c) w = (r, w')" "requests w' \<noteq> requests w"
    and "evp_sha256 (platform_digest H) D" "\<And>credentials configuration addressing. faithful_s3 objects (platform_s3 H credentials configuration addressing)"
    and "faults w = []" "no_nul (cli_s3_bucket c)" "boost_json (env_json E)" "plain_text (cli_target_group c)"
    and "\<forall>s \<in> set (upload_file_list c). plain_text s \<and> plain_name (path_filename s)"
    and "rest_body (last (requests w')) = Some body" "parse_text (env_json E) body = Inr (JObject sent)"
  obtains es f where "sent = [(''release_id'', JString (make_release_id (wall w))), (''group'', JString (cli_target_group c)),
      (''artifacts'', JArray (map (canon \<circ> entry_json) es))]" "length es = length (upload_file_list c)" "es \<noteq> []" "distinct (map install_path es)"
    "\<forall>e \<in> set es. no_nul (install_path e) \<and> no_nul (sha256 e) \<and> plain_name (install_path e) \<and>
       (\<exists>key. make_object_key (make_release_id (wall w)) (install_path e) = Inr key \<and>
          objects (cli.more w') (cli_s3_bucket c) key = Some (f e)) \<and> sha256 e = to_hex (D (f e))"
    "\<forall>s \<in> set (upload_file_list c). \<exists>e \<in> set es. install_path e = path_filename s \<and>
       (\<exists>m. lookup (files w) (at w s) = Some (File (f e) m))"
proof -
  let ?id = "make_release_id (wall w)" and ?objs = "objects (cli.more w') (cli_s3_bucket c)"
  have nul: "\<forall>s \<in> set (upload_file_list c). no_nul s" using assms(9) by (auto simp: plain_text_def)
  obtain m where m: "requests w' = requests w @
      [make_request (make_rest_client (control_plane_url c) (api_token c) (request_timeout_seconds c))
        ''/api/v1/deployments'' (Some (serialize_value (env_json E) (deploy_request c m)))]"
    "manifest_release_id m = ?id" "map source_path (artifacts m) = upload_file_list c"
    "map install_path (artifacts m) = map path_filename (upload_file_list c)" "distinct (map install_path (artifacts m))"
    "\<forall>e \<in> set (artifacts m). stored_entry (objects (cli.more w')) (cli_s3_bucket c) D w ?id e"
    using deploy_sends [OF assms(1-6) nul] by metis
  have "\<forall>e \<in> set (artifacts m). \<exists>x n key. make_object_key ?id (install_path e) = Inr key \<and> ?objs key = Some x \<and>
      lookup (files w) (at w (source_path e)) = Some (File x n) \<and> sha256 e = to_hex (D x)"
    using stored_content [OF m(6) [rule_format]] by blast
  from bchoice [OF this] obtain f where f: "\<And>e. e \<in> set (artifacts m) \<Longrightarrow>
      \<exists>n key. make_object_key ?id (install_path e) = Inr key \<and> ?objs key = Some (f e) \<and>
        lookup (files w) (at w (source_path e)) = Some (File (f e) n) \<and> sha256 e = to_hex (D (f e))"
    by blast
  have named: "\<exists>e \<in> set (artifacts m). source_path e = s \<and> install_path e = path_filename s"
    if "s \<in> set (upload_file_list c)" for s
    using that m(3,4) by (rule named_entry)
  have plain: "plain_text (install_path e) \<and> is_sha256_hex (sha256 e) \<and> plain_name (install_path e)"
    if "e \<in> set (artifacts m)" for e
  proof -
    have "install_path e \<in> path_filename ` set (upload_file_list c)"
      using that m(4) by (metis image_eqI image_set)
    moreover have "length (D (f e)) = 32" using assms(3) by (auto simp: evp_sha256_def)
    ultimately show ?thesis using f [OF that] assms(9) filename_plain to_hex_sha256 by auto
  qed
  have "body = serialize_value (env_json E) (deploy_request c m)"
    using assms(10) m(1) by (simp add: make_request_def)
  then have sent: "sent = [(''release_id'', JString ?id), (''group'', JString (cli_target_group c)),
      (''artifacts'', JArray (map (canon \<circ> entry_json) (artifacts m)))]"
    using assms(11) deploy_request_parses [OF assms(7) _ assms(8), of m] m(2) plain make_release_id_plain by auto
  have "upload_file_list c \<noteq> []" using deploy_needs_files [OF assms(1,2)] by (simp add: make_commands_def)
  then have ne: "artifacts m \<noteq> []" using m(3) by auto
  have all: "\<forall>e \<in> set (artifacts m). no_nul (install_path e) \<and> no_nul (sha256 e) \<and> plain_name (install_path e) \<and>
      (\<exists>key. make_object_key ?id (install_path e) = Inr key \<and> ?objs key = Some (f e)) \<and> sha256 e = to_hex (D (f e))"
    using f plain sha_plain by (fastforce simp: plain_text_def)
  have "\<forall>s \<in> set (upload_file_list c). \<exists>e \<in> set (artifacts m). install_path e = path_filename s \<and>
      (\<exists>n. lookup (files w) (at w s) = Some (File (f e) n))"
    using named f by metis
  moreover have "length (artifacts m) = length (upload_file_list c)" unfolding m(3) [symmetric] by simp
  ultimately show thesis by (intro that [OF sent _ ne m(5) all])
qed

section \<open>A delivered release can be installed\<close>

lemma delivered_nodes:
  assumes "delivered T es f d w" "\<forall>q. strict_prefix T q \<longrightarrow> lookup (files d) q = None"
    and "r \<noteq> []" "lookup (files w) (T @ r) = Some n"
  shows "\<exists>e \<in> set es. \<exists>m. r = [install_path e] \<and> n = File (f e) m"
proof -
  have "strict_prefix T (T @ r)" using assms(3) by (simp add: strict_prefix_def)
  then have "lookup (files d) (T @ r) = None" using assms(2) by blast
  then have changed: "lookup (files w) (T @ r) \<noteq> lookup (files d) (T @ r)" using assms(4) by simp
  have new: "\<not> prefix (T @ r) T" using assms(3) prefix_length_le [of "T @ r" T] by auto
  have "\<not> (\<forall>e \<in> set es. T @ r \<noteq> T @ [install_path e])"
    using assms(1) changed new unfolding delivered_def by blast
  then obtain e where e: "e \<in> set es" "r = [install_path e]" by auto
  obtain m where "lookup (files w) (T @ [install_path e]) = Some (File (f e) m)"
    using assms(1) e(1) unfolding delivered_def by blast
  then show ?thesis using assms(4) e by auto
qed

lemma delivered_files:
  assumes "delivered T es f d w" "\<forall>q. strict_prefix T q \<longrightarrow> lookup (files d) q = None" "wf_tree (files w)"
  shows "set (release_files (files w) T) = (\<lambda>e. [install_path e]) ` set es"
    and "length (release_files (files w) T) \<le> length es"
proof -
  have "r \<in> set (release_files (files w) T) \<longleftrightarrow> r \<in> (\<lambda>e. [install_path e]) ` set es" for r
  proof -
    have in_tree: "r \<in> set (release_files (files w) T) \<longleftrightarrow>
        r \<noteq> [] \<and> lookup (files w) (T @ r) \<noteq> None \<and> lookup (files w) (T @ r) \<noteq> Some Directory"
      by (auto simp: release_files_def set_below keys_lookup)
    have "\<exists>m. lookup (files w) (T @ [install_path e]) = Some (File (f e) m)" if "e \<in> set es" for e
      using assms(1) that by (auto simp: delivered_def)
    then have "r \<in> (\<lambda>e. [install_path e]) ` set es \<Longrightarrow> r \<in> set (release_files (files w) T)"
      unfolding in_tree by fastforce
    moreover have "r \<in> (\<lambda>e. [install_path e]) ` set es" if "r \<noteq> []" "lookup (files w) (T @ r) = Some n" for n
      using delivered_nodes [OF assms(1,2) that] by blast
    ultimately show ?thesis using in_tree by blast
  qed
  then show eq: "set (release_files (files w) T) = (\<lambda>e. [install_path e]) ` set es" by blast
  have "distinct (release_files (files w) T)"
    using assms(3) distinct_below by (simp add: release_files_def wf_tree_def)
  then have "length (release_files (files w) T) = card ((\<lambda>e. [install_path e]) ` set es)"
    using distinct_card eq by metis
  also have "\<dots> \<le> card (set es)" by (rule card_image_le) simp
  also have "\<dots> \<le> length es" by (rule card_length)
  finally show "length (release_files (files w) T) \<le> length es" .
qed

lemma delivered_release_tree:
  assumes "delivered T es f d w" "\<forall>q. strict_prefix T q \<longrightarrow> lookup (files d) q = None" "wf_tree (files w)"
    and "\<forall>e \<in> set es. plain_name (install_path e)"
  shows "release_tree (files w) T"
proof -
  have "''..'' \<notin> set (drop (length T) p) \<and> (n = Directory \<or> is_file (Some n))"
    if "(p, n) \<in> set (files w)" "prefix T p" for p n
  proof -
    note node = that
    obtain r where p: "p = T @ r" using node(2) by (auto simp: prefix_def)
    have "p \<noteq> []" using node(1) assms(3) by (force simp: wf_tree_def keys_def)
    then have l: "lookup (files w) p = Some n" using node(1) assms(3) by (simp add: wf_tree_def lookup_def)
    show ?thesis
    proof (cases "r = []")
      case True
      then have "lookup (files w) p = Some Directory" using assms(1) p by (simp add: delivered_def)
      then show ?thesis using l p True by simp
    next
      case False
      then show ?thesis
        using delivered_nodes [OF assms(1,2) False, of n] l p assms(4) by (auto simp: plain_name_def)
    qed
  qed
  moreover have "lookup (files w) T = Some Directory" using assms(1) by (simp add: delivered_def)
  ultimately show ?thesis unfolding release_tree_def by force
qed

lemma delivered_not_blocked:
  assumes "delivered T es f d w" "\<not> dirs_blocked (files d) R" "\<not> prefix T R"
  shows "\<not> dirs_blocked (files w) R"
proof -
  have "lookup (files w) q \<in> {None, Some Directory}" if "prefix q R" "lookup (files d) q \<in> {None, Some Directory}" for q
  proof (cases "prefix q T")
    case True
    then show ?thesis using assms(1) by (simp add: delivered_def)
  next
    case False
    have "\<not> prefix T q" using that(1) assms(3) prefix_order.trans by blast
    then have "\<forall>x. q \<noteq> T @ x" by auto
    then have "lookup (files w) q = lookup (files d) q" using assms(1) False by (simp add: delivered_def)
    then show ?thesis using that(2) by simp
  qed
  then show ?thesis using assms(2) take_is_prefix unfolding dirs_blocked_def by metis
qed

lemma delivered_ready:
  assumes "delivered (at d dir) es f d w" "\<forall>q. strict_prefix (at d dir) q \<longrightarrow> lookup (files d) q = None" "wf_tree (files w)"
    and "\<forall>e \<in> set es. plain_name (install_path e)" "es \<noteq> []" "length es < 2 ^ 32"
    and "service_root opts \<noteq> ''''" "install_validate_release_id release_id = Inr ()"
    and "\<not> prefix (at d dir) (releases_at d opts)" "\<not> prefix (releases_at d opts) (at d dir)"
    and "\<not> dirs_blocked (files d) (releases_at d opts)"
  shows "install_ready opts release_id dir w"
proof -
  have a: "at w = at d" "faults w = []" using assms(1) by (simp_all add: delivered_def)
  note n = delivered_files [OF assms(1-3)]
  have "release_files (files w) (at d dir) \<noteq> []" using n(1) assms(5) by auto
  then show ?thesis
    using n(2) assms(3,6-10) a delivered_release_tree [OF assms(1-4)] delivered_not_blocked [OF assms(1,11,9)]
    by (simp add: install_ready_def)
qed

lemma delivered_installs:
  assumes "delivered (at d dir) es f d w" "\<forall>q. strict_prefix (at d dir) q \<longrightarrow> lookup (files d) q = None" "wf_tree (files w)"
    and "\<forall>e \<in> set es. plain_name (install_path e)" "es \<noteq> []" "length es < 2 ^ 32"
    and "service_root opts \<noteq> []" "install_validate_release_id release_id = Inr ()"
    and "\<not> prefix (at d dir) (releases_at d opts)" "\<not> prefix (releases_at d opts) (at d dir)"
    and "\<not> dirs_blocked (files d) (releases_at d opts)"
  shows "\<exists>w'. install opts release_id dir w = (Inr (), w') \<and>
    (\<forall>e \<in> set es. \<exists>n. lookup (files w) (at d dir @ [install_path e]) = Some (File (f e) n) \<and>
       lookup (files w') (releases_at d opts @ [release_id, install_path e]) = Some (File (f e) n))"
proof -
  obtain w' where w': "install opts release_id dir w = (Inr (), w')"
      "\<And>q. lookup (files w') (releases_at w opts @ [release_id] @ q) = lookup (files w) (at w dir @ q)"
    using install_copy_ok [OF delivered_ready [OF assms]] by blast
  have "at w = at d" using assms(1) by (simp add: delivered_def)
  then have "lookup (files w') (releases_at d opts @ [release_id, install_path e]) = lookup (files w) (at d dir @ [install_path e])"
    for e :: artifact_entry using w'(2) [of "[install_path e]"] by simp
  then show ?thesis using w'(1) assms(1) unfolding delivered_def by (intro exI [of _ w']) simp
qed

lemma make_release_id_installs: "install_validate_release_id (make_release_id now) = Inr ()"
proof -
  obtain t where t: "make_release_id now = ''rel_'' @ t" using make_release_id_start by blast
  have "\<not> contains_char (CHR ''/'') (make_release_id now)" "\<not> contains_char (CHR 0x5C) (make_release_id now)"
    using make_release_id_chars id_char_plain unfolding contains_char_def by blast+
  then show ?thesis
    using t by (simp add: install_validate_release_id_def is_internal_name_def starts_with_def kStagingPrefix_def kRetiredPrefix_def)
qed

section \<open>From deploy to install\<close>

text \<open>
  A device that can take a release: a store that keeps its contract and the tree well formed, no
  I/O errors, nothing yet at the place of the release, and a service root apart from it.
\<close>

definition device_ready ::
    "('c, 'b machine_scheme) agent_parts \<Rightarrow> 'b machine_scheme artifact_store \<Rightarrow> install_options \<Rightarrow> string \<Rightarrow> 'b machine_scheme \<Rightarrow> bool" where
  "device_ready P st opts release_id d \<longleftrightarrow>
     (let T = at d (version_directory (agent_opts P) release_id); R = releases_at d opts in
      store P = Some st \<and> lawful_store st \<and> keeps_trees st \<and>
      version_root (agent_opts P) \<noteq> '''' \<and> no_nul (version_root (agent_opts P)) \<and> service_root opts \<noteq> '''' \<and>
      faults d = [] \<and> wf_tree (files d) \<and> (\<forall>q. strict_prefix T q \<longrightarrow> lookup (files d) q = None) \<and>
      \<not> dirs_blocked (files d) T \<and> \<not> dirs_blocked (files d) R \<and> \<not> prefix T R \<and> \<not> prefix R T)"

lemma device_downloads:
  assumes "device_ready P st opts release_id d" "serves st objs" "evp_sha256 (agent_digest P) H"
    and "payload_object (agent_json P) message = Inr passed" "validated_release_id passed = Inr release_id"
    and "array_field passed ''artifacts'' = Some ys" "list_all2 (asks_for release_id objs H f) es ys"
    and "distinct (map install_path es)" "es \<noteq> []" "no_nul release_id"
  defines "version \<equiv> version_directory (agent_opts P) release_id"
  shows "\<exists>a' d1. download_version P message a d = (Inr (), a', d1) \<and> delivered (at d version) es f d d1 \<and> wf_tree (files d1)"
proof -
  note ready = assms(1) [unfolded device_ready_def Let_def, folded version_def]
  have n: "no_nul version"
    unfolding version_def version_directory_def using path_append_no_nul ready assms(10) by blast
  have st: "lawful_store st" "keeps_trees st" "faults d = []" "\<not> dirs_blocked (files d) (at d version)"
    "\<forall>q. strict_prefix (at d version) q \<longrightarrow> lookup (files d) q = None" "wf_tree (files d)"
    using ready by blast+
  obtain a' d1 where d1: "download_into P st release_id ys a d = (Inr (), a', d1)" "delivered (at d version) es f d d1"
      "wf_tree (files d1)"
    using download_into_served [OF st(1) assms(2,3) n [unfolded version_def] assms(7,8) st(3), folded version_def, OF st(4,5), of a]
      st(2,6) by (elim exE conjE) simp
  have "ys \<noteq> []" using assms(7,9) by auto
  then have "download_version P message a d = (Inr (), a', d1)"
    using assms(4-6) ready d1(1) by (simp add: download_version_def)
  then show ?thesis using d1(2,3) by blast
qed

text \<open>
  C6: What is deployed arrives. Take the bytes of the one request that \<open>deploy\<close> sends, any payload that
  passes on its release id and its artifacts, and any device that can take the release and whose
  store serves the objects of the bucket. Then \<open>download_version\<close> succeeds on that device, \<open>install\<close>
  of what it downloaded succeeds, and for every file of the upload list the version directory and the
  installed release hold, under the file's name, exactly its content.
\<close>

theorem deployed_release_arrives:
  fixes d :: "'b machine_scheme"
  assumes "deploy (make_commands E H c) w = (r, w')" "requests w' \<noteq> requests w"
    and "evp_sha256 (platform_digest H) D" "\<And>credentials configuration addressing. faithful_s3 objects (platform_s3 H credentials configuration addressing)"
    and "faults w = []" "no_nul (cli_s3_bucket c)" "boost_json (env_json E)" "plain_text (cli_target_group c)"
    and "\<forall>s \<in> set (upload_file_list c). plain_text s \<and> plain_name (path_filename s)"
    and "rest_body (last (requests w')) = Some body" "parse_text (env_json E) body = Inr (JObject sent)"
    and "payload_object (agent_json P) message = Inr passed" "relayed sent passed"
    and "device_ready P st opts (make_release_id (wall w)) d" "serves st (objects (cli.more w') (cli_s3_bucket c))"
    and "evp_sha256 (agent_digest P) D" "length (upload_file_list c) < 2 ^ 32"
  defines "release_id \<equiv> make_release_id (wall w)"
  defines "version \<equiv> version_directory (agent_opts P) release_id"
  shows "\<exists>a' d1 d2. download_version P message a d = (Inr (), a', d1) \<and> install opts release_id version d1 = (Inr (), d2) \<and>
    (\<forall>s \<in> set (upload_file_list c). \<exists>content m n. lookup (files w) (at w s) = Some (File content m) \<and>
       lookup (files d1) (at d version @ [path_filename s]) = Some (File content n) \<and>
       lookup (files d2) (releases_at d opts @ [release_id, path_filename s]) = Some (File content n))"
proof -
  let ?objs = "objects (cli.more w') (cli_s3_bucket c)"
  note ready = assms(14) [folded release_id_def, unfolded device_ready_def Let_def, folded version_def]
  have id: "validate_release_id release_id = Inr ()" "install_validate_release_id release_id = Inr ()" "no_nul release_id"
    unfolding release_id_def by (rule make_release_id_valid make_release_id_installs make_release_id_no_nul)+
  obtain es f where es: "sent = [(''release_id'', JString release_id), (''group'', JString (cli_target_group c)),
      (''artifacts'', JArray (map (canon \<circ> entry_json) es))]" "length es = length (upload_file_list c)" "es \<noteq> []"
      "distinct (map install_path es)"
    and all: "\<forall>e \<in> set es. no_nul (install_path e) \<and> no_nul (sha256 e) \<and> plain_name (install_path e) \<and>
       (\<exists>key. make_object_key release_id (install_path e) = Inr key \<and> ?objs key = Some (f e)) \<and> sha256 e = to_hex (D (f e))"
    and local: "\<forall>s \<in> set (upload_file_list c). \<exists>e \<in> set es. install_path e = path_filename s \<and>
       (\<exists>m. lookup (files w) (at w s) = Some (File (f e) m))"
    unfolding release_id_def by (rule deploy_announces [OF assms(1-11)])
  from relayed_asks [OF assms(13) [unfolded es(1)] id(1,3) all]
  obtain ys where ys: "validated_release_id passed = Inr release_id" "array_field passed ''artifacts'' = Some ys"
    "list_all2 (asks_for release_id ?objs D f) es ys" by blast
  obtain a' d1 where d1: "download_version P message a d = (Inr (), a', d1)" "delivered (at d version) es f d d1" "wf_tree (files d1)"
    using device_downloads [OF assms(14) [folded release_id_def] assms(15,16,12) ys es(4,3) id(3), folded version_def, of a] by blast
  have "\<forall>q. strict_prefix (at d version) q \<longrightarrow> lookup (files d) q = None" using ready by blast
  from delivered_installs [OF d1(2) this d1(3) _ es(3), of opts release_id]
  obtain d2 where d2: "install opts release_id version d1 = (Inr (), d2)"
      "\<forall>e \<in> set es. \<exists>n. lookup (files d1) (at d version @ [install_path e]) = Some (File (f e) n) \<and>
         lookup (files d2) (releases_at d opts @ [release_id, install_path e]) = Some (File (f e) n)"
    using ready all es(2) assms(17) id(2) by auto
  have "\<forall>s \<in> set (upload_file_list c). \<exists>content m n. lookup (files w) (at w s) = Some (File content m) \<and>
      lookup (files d1) (at d version @ [path_filename s]) = Some (File content n) \<and>
      lookup (files d2) (releases_at d opts @ [release_id, path_filename s]) = Some (File content n)"
    using local d2(2) by metis
  then show ?thesis using d1(1) d2(1) by blast
qed

end
