(* ===== verification/AgentDisk.thy ===== *)
theory AgentDisk
  imports AgentFacts PathFacts
begin

text \<open>
  The other handlers that work on the disk: \<open>clean_old_version\<close> and what it spares, the merge of
  \<open>update_configuration\<close> and the file it replaces.
\<close>

section \<open>\<open>clean_old_version\<close>\<close>

lemma remove_versions_step:
  "remove_versions root names n w = (r, w') \<Longrightarrow> step_in (\<lambda>q. \<exists>name \<in> set names. prefix (at w root @ [name]) q) w w'"
proof (induction names arbitrary: n w)
  case (Cons name names)
  let ?R = "\<lambda>q. \<exists>x \<in> set (name # names). prefix (at w root @ [x]) q"
  obtain x w1 where c1: "fs_remove_all (at w root @ [name]) w = (x, w1)" by fastforce
  have s1: "step_in ?R w w1" by (rule step_in_mono [OF remove_all_step [OF c1]]) auto
  obtain f w2 where c2: "take_fault w1 = (f, w2)" by fastforce
  have s2: "step_in ?R w w2" by (rule step_in_trans [OF s1 reads_step [OF take_fault_reads [OF c2]]])
  have a: "at w2 root = at w root" using step_in_at [OF s2] .
  show ?case
  proof (cases "is_ok x \<and> f = None")
    case True
    then have "remove_versions root names (n + 1) w2 = (r, w')" using Cons.prems c1 c2 by (cases x) auto
    then have "step_in (\<lambda>q. \<exists>x \<in> set names. prefix (at w2 root @ [x]) q) w2 w'" by (rule Cons.IH)
    then show ?thesis using s2 a by (auto intro: step_in_trans step_in_mono)
  next
    case False
    then have "w' = w1 \<or> w' = w2" using Cons.prems c1 c2 by (cases x; cases f) auto
    then show ?thesis using s1 s2 by auto
  qed
qed simp

text \<open>When the loop reports success, every name it was given is gone.\<close>

lemma remove_versions_all:
  "remove_versions root names n w = (Inr m, w') \<Longrightarrow>
     lookup (files w') q = (if \<exists>name \<in> set names. prefix (at w root @ [name]) q then None else lookup (files w) q)"
proof (induction names arbitrary: n w)
  case (Cons name names)
  obtain x w1 where c1: "fs_remove_all (at w root @ [name]) w = (x, w1)" by fastforce
  obtain f w2 where c2: "take_fault w1 = (f, w2)" by fastforce
  have ok: "x = Inr ()" "f = None" using Cons.prems c1 c2 by (cases x; cases f; simp)+
  have run: "remove_versions root names (n + 1) w2 = (Inr m, w')" using Cons.prems c1 c2 ok by simp
  note s = step_in_trans [OF step_in_mono [OF remove_all_step [OF c1], of "\<lambda>_. True"] reads_step [OF take_fault_reads [OF c2]]]
  have l: "lookup (files w2) q = (if prefix (at w root @ [name]) q then None else lookup (files w) q)"
    using c1 ok reads_files [OF take_fault_reads [OF c2]] reads_files [OF take_fault_reads [of w]]
    by (cases "take_fault w") (auto simp: fs_remove_all_def lookup_drop_tree split: option.splits)
  show ?case using Cons.IH [OF run] l step_in_at [OF s] by auto
qed simp

text \<open>The report of a clean-up that found no directory to clean.\<close>

definition nothing_to_clean :: "('c, 'w) agent_parts \<Rightarrow> string" where
  "nothing_to_clean P =
     ''version_root '' @ quoted (version_root (agent_opts P)) @ '' is not a directory'' @ em_dash @
       ''nothing to clean''"

lemma clean_cases:
  assumes "clean_old_version P m a w = (r, a', w')"
  obtains (idle) "files w' = files w" "step_in (\<lambda>_. False) w w'"
    "is_ok r \<Longrightarrow> lookup (files w) (at w (version_root (agent_opts P))) = Some Directory \<Longrightarrow>
      (\<exists>f fs. faults w = Some f # fs) \<and> last_report a' = nothing_to_clean P"
  | (go) w1 names x where "reads w w1" "names = children (files w) (at w (version_root (agent_opts P)))"
    "lookup (files w) (at w (version_root (agent_opts P))) = Some Directory"
    "remove_versions (version_root (agent_opts P)) names 0 w1 = (x, w')" "is_ok r \<longleftrightarrow> is_ok x"
proof -
  let ?v = "version_root (agent_opts P)"
  have none: thesis if "reads w w'" "is_ok r \<Longrightarrow> lookup (files w) (at w ?v) = Some Directory \<Longrightarrow>
      (\<exists>f fs. faults w = Some f # fs) \<and> last_report a' = nothing_to_clean P"
    using idle that reads_step [OF that(1)] by simp
  obtain d w1 where c1: "fs_is_directory (at w ?v) w = (d, w1)" by fastforce
  note r1 = is_directory_reads [OF c1]
  obtain b w2 where c2: "roots_collide (agent_opts P) w1 = (b, w2)" by fastforce
  have r2: "reads w1 w2"
    using c2 by (auto simp: roots_collide_def fs_canonical_def dest!: take_fault_reads intro: reads_trans
        split: prod.splits option.splits if_splits)
  obtain y w3 where c3: "fs_list (at w2 ?v) w2 = (y, w3)" by fastforce
  note r3 = list_reads [OF c3]
  note reads = reads_trans [OF reads_trans [OF r1 r2] r3]
  note run = assms c1 c2 c3
  show thesis
  proof (cases "?v = '''' \<or> \<not> d \<or> b \<or> isl y")
    case True
    have "w' \<in> {w, w1, w2, w3}" "is_ok r \<Longrightarrow> \<not> d \<and> last_report a' = nothing_to_clean P"
      using run True by (auto simp: clean_old_version_def Let_def permanent_def transient_def succeed_def
          nothing_to_clean_def split: sum.splits bool.splits if_splits)
    moreover have "\<exists>f fs. faults w = Some f # fs" if "\<not> d" "lookup (files w) (at w ?v) = Some Directory"
      using c1 that by (auto simp: fs_is_directory_def take_fault_def split: list.splits option.splits)
    ultimately show ?thesis using none r1 reads reads_trans [OF r1 r2] by blast
  next
    case False
    then obtain names where y: "y = Inr names" by (cases y) auto
    obtain x w4 where c4: "remove_versions ?v names 0 w3 = (x, w4)" by fastforce
    have fs: "files w2 = files w" "at w2 ?v = at w ?v" "files w1 = files w"
      using reads_files [OF reads_trans [OF r1 r2]] reads_at [OF reads_trans [OF r1 r2]] reads_files [OF r1] by auto
    have kids: "lookup (files w) (at w ?v) = Some Directory" "names = children (files w) (at w ?v)"
      using c3 y fs reads_files [OF r3] reads_files [OF take_fault_reads]
      by (auto simp: fs_list_def split: prod.splits option.splits if_splits)
    have "w' = w4" "is_ok r \<longleftrightarrow> is_ok x"
      using run False y c4 by (auto simp: clean_old_version_def Let_def transient_def succeed_def split: sum.splits if_splits)
    then show ?thesis using go [OF reads] c4 kids by blast
  qed
qed

lemma clean_old_version_step:
  assumes "clean_old_version P m a w = (r, a', w')"
  shows "step_in (strict_prefix (at w (version_root (agent_opts P)))) w w'"
  using assms
proof (cases rule: clean_cases)
  case idle
  then show ?thesis by (auto intro: step_in_mono)
next
  case (go w1 names x)
  have "step_in (strict_prefix (at w (version_root (agent_opts P)))) w1 w'"
  proof (rule step_in_mono [OF remove_versions_step [OF go(4)]])
    fix q
    assume "\<exists>name \<in> set names. prefix (at w1 (version_root (agent_opts P)) @ [name]) q"
    then show "strict_prefix (at w (version_root (agent_opts P))) q"
      using reads_at [OF go(1)] by (auto simp: strict_prefix_def dest: append_prefixD prefix_length_le)
  qed
  then show ?thesis by (rule reads_then_step [OF go(1)])
qed

lemma child_below:
  assumes "wf_tree fs" "strict_prefix d q" "lookup fs q \<noteq> None"
  shows "\<exists>name \<in> set (children fs d). prefix (d @ [name]) q"
proof -
  obtain zs where zs: "q = d @ zs" "zs \<noteq> []" using assms(2) by (auto simp: strict_prefix_def prefix_def)
  then obtain x xs where q: "q = d @ x # xs" by (cases zs) auto
  have "lookup fs (d @ [x]) \<noteq> None"
  proof (cases xs)
    case Nil
    then show ?thesis using assms(3) q by simp
  next
    case (Cons y ys)
    then have "strict_prefix (d @ [x]) q" using q by (auto simp: strict_prefix_def)
    then show ?thesis using wf_tree_parents [OF assms(1,3)] by auto
  qed
  then have "d @ [x] \<in> keys fs" by (simp add: keys_lookup)
  then have "x \<in> set (children fs d)" by (force simp: keys_def children_def)
  then show ?thesis using q by force
qed

lemma clean_removes:
  assumes "clean_old_version P m a w = (Inr (), a', w')" "wf_tree (files w)"
    and "lookup (files w) (at w (version_root (agent_opts P))) = Some Directory"
  shows "(\<forall>q. lookup (files w') q =
      (if strict_prefix (at w (version_root (agent_opts P))) q then None else lookup (files w) q)) \<or>
    files w' = files w \<and> (\<exists>f fs. faults w = Some f # fs) \<and> last_report a' = nothing_to_clean P"
  using assms(1)
proof (cases rule: clean_cases)
  case idle
  then show ?thesis using assms(3) by simp
next
  case (go w1 names x)
  let ?R = "at w (version_root (agent_opts P))"
  obtain n where n: "x = Inr n" using go(5) by (cases x) auto
  have l: "lookup (files w') q =
      (if \<exists>name \<in> set names. prefix (?R @ [name]) q then None else lookup (files w) q)" for q
    using remove_versions_all [OF go(4) [unfolded n]] reads_at [OF go(1)] reads_files [OF go(1)] by simp
  have "strict_prefix ?R q" if "prefix (?R @ [name]) q" for name q
    using that by (auto simp: strict_prefix_def dest: append_prefixD prefix_length_le)
  then have "lookup (files w') q = (if strict_prefix ?R q then None else lookup (files w) q)" for q
    using l [of q] child_below [OF assms(2), of ?R q] go(2) by (cases "lookup (files w) q") auto
  then show ?thesis by blast
qed

text \<open>
  C24: \<open>clean_old_version\<close> removes the downloaded versions and nothing else. Whatever fails, nothing
  that is not below \<open>version_root\<close> changes. When it reports success and \<open>version_root\<close> is a
  directory, everything below is gone; the one exception is an error of its very first call, the
  question whether \<open>version_root\<close> is a directory: it is taken for \<open>no\<close>, nothing is removed and the
  report says that there was nothing to clean.
\<close>

theorem clean_exact:
  assumes "clean_old_version P m a w = (r, a', w')"
  defines "R \<equiv> at w (version_root (agent_opts P))"
  shows "(\<forall>q. \<not> strict_prefix R q \<longrightarrow> lookup (files w') q = lookup (files w) q) \<and>
    (r = Inr () \<longrightarrow> wf_tree (files w) \<longrightarrow> lookup (files w) R = Some Directory \<longrightarrow>
       (\<forall>q. strict_prefix R q \<longrightarrow> lookup (files w') q = None) \<or>
       files w' = files w \<and> (\<exists>f fs. faults w = Some f # fs) \<and>
       last_report a' = ''version_root '' @ quoted (version_root (agent_opts P)) @ '' is not a directory'' @
         em_dash @ ''nothing to clean'')"
  using step_in_lookup [OF clean_old_version_step [OF assms(1)]] clean_removes [of P m a w a' w'] assms(1)
  unfolding R_def nothing_to_clean_def by auto


section \<open>The merge\<close>

text \<open>
  The values a merge gives to the members, as a function of the two maps: members that are objects
  on both sides are merged, a member the library holds equal stays, any other is replaced.
\<close>

definition merged_member :: "json_lib \<Rightarrow> json option \<Rightarrow> json \<Rightarrow> json" where
  "merged_member L old new =
     (case (old, new) of
        (Some (JObject inner), JObject nested) \<Rightarrow> JObject (fst (merge_object L inner nested))
      | (Some existing, _) \<Rightarrow> if values_equal L existing new then existing else new
      | (None, _) \<Rightarrow> new)"

lemma merge_object_Cons:
  "merge_object L target ((key, v) # changes) =
     (case (map_of target key, v) of
        (Some (JObject inner), JObject nested) \<Rightarrow>
          (fst (merge_object L (AList.update key (merged_member L (map_of target key) v) target) changes),
           snd (merge_object L inner nested) +
           snd (merge_object L (AList.update key (merged_member L (map_of target key) v) target) changes))
      | (Some existing, _) \<Rightarrow>
          if values_equal L existing v then merge_object L target changes
          else (fst (merge_object L (AList.update key v target) changes),
                1 + snd (merge_object L (AList.update key v target) changes))
      | (None, _) \<Rightarrow>
          (fst (merge_object L (AList.update key v target) changes),
           1 + snd (merge_object L (AList.update key v target) changes)))"
  by (auto simp: merged_member_def split: option.splits json.splits prod.splits)

lemma merge_object_first:
  "fst (merge_object L target ((key, v) # changes)) =
     fst (merge_object L
       (if \<exists>old. map_of target key = Some old \<and> values_equal L old v \<and> (\<nexists>i n. old = JObject i \<and> v = JObject n)
        then target else AList.update key (merged_member L (map_of target key) v) target) changes)"
  unfolding merge_object_Cons
  by (auto simp: merged_member_def split: option.splits json.splits)

lemma merge_object_other: "key \<notin> fst ` set changes \<Longrightarrow> map_of (fst (merge_object L target changes)) key = map_of target key"
proof (induction changes arbitrary: target)
  case (Cons c changes)
  obtain k v where c: "c = (k, v)" by (cases c)
  show ?case using Cons.IH Cons.prems unfolding c merge_object_first by (auto simp: map_of_update_eq)
qed simp

lemma merge_object_lookup:
  "distinct (map fst changes) \<Longrightarrow> map_of changes key = Some v \<Longrightarrow>
     map_of (fst (merge_object L target changes)) key = Some (merged_member L (map_of target key) v)"
proof (induction changes arbitrary: target)
  case (Cons c changes)
  obtain k u where c: "c = (k, u)" by (cases c)
  show ?case
  proof (cases "k = key")
    case True
    then have "key \<notin> fst ` set changes" "u = v" using Cons.prems c by auto
    then show ?thesis
      unfolding c merge_object_first using merge_object_other [of key changes] True
      by (auto simp: map_of_update_eq merged_member_def split: json.splits)
  next
    case False
    then show ?thesis
      using Cons c unfolding c merge_object_first by (auto simp: map_of_update_eq)
  qed
qed simp

text \<open>
  C22: The merge does member by member what a partial update means: a member the change does not
  name keeps its value, a named one is the changed value, or the merge of both where both are
  objects. So the order of the members does not matter, and nothing is lost.
\<close>

theorem merge_object_correct:
  assumes "distinct (map fst changes)"
  shows "map_of (fst (merge_object L target changes)) key =
    (case map_of changes key of
       None \<Rightarrow> map_of target key
     | Some v \<Rightarrow> Some (
         case (map_of target key, v) of
           (Some (JObject inner), JObject nested) \<Rightarrow> JObject (fst (merge_object L inner nested))
         | (Some existing, _) \<Rightarrow> if values_equal L existing v then existing else v
         | (None, _) \<Rightarrow> v))"
proof (cases "map_of changes key")
  case None
  then have "key \<notin> fst ` set changes" by (simp add: map_of_eq_None_iff)
  then show ?thesis using None merge_object_other by simp
next
  case (Some v)
  then show ?thesis using merge_object_lookup [OF assms Some] by (simp add: merged_member_def)
qed

text \<open>A member is settled when merging its new value into it changes nothing.\<close>

definition settled_member :: "json_lib \<Rightarrow> json option \<Rightarrow> json \<Rightarrow> bool" where
  "settled_member L old new \<longleftrightarrow>
     (case (old, new) of
        (Some (JObject inner), JObject nested) \<Rightarrow> merge_object L inner nested = (inner, 0)
      | (Some existing, _) \<Rightarrow> values_equal L existing new
      | (None, _) \<Rightarrow> False)"

lemma update_same: "map_of xs k = Some v \<Longrightarrow> AList.update k v xs = xs"
  by (induction xs) auto

lemma merge_settled:
  "\<forall>(key, v) \<in> set changes. settled_member L (map_of target key) v \<Longrightarrow> merge_object L target changes = (target, 0)"
proof (induction changes)
  case (Cons c changes)
  obtain k v where c: "c = (k, v)" by (cases c)
  have s: "settled_member L (map_of target k) v" "merge_object L target changes = (target, 0)"
    using Cons c by auto
  show ?case
    using s update_same [of target k] unfolding c
    by (auto simp: settled_member_def split: option.splits json.splits)
qed simp

text \<open>
  Values as parsing gives them: the names in an object are distinct, and the library holds every
  value equal to itself, which a floating-point number that is not a number would not be.
\<close>

primrec comparable :: "json_lib \<Rightarrow> json \<Rightarrow> bool" where
  "comparable L JNull = values_equal L JNull JNull"
| "comparable L (JBool b) = values_equal L (JBool b) (JBool b)"
| "comparable L (JInt64 n) = values_equal L (JInt64 n) (JInt64 n)"
| "comparable L (JUint64 n) = values_equal L (JUint64 n) (JUint64 n)"
| "comparable L (JDouble d) = values_equal L (JDouble d) (JDouble d)"
| "comparable L (JString s) = values_equal L (JString s) (JString s)"
| "comparable L (JArray xs) = values_equal L (JArray xs) (JArray xs)"
| "comparable L (JObject kvs) =
     (distinct (map fst kvs) \<and> (\<forall>kb \<in> set (map (map_prod id (comparable L)) kvs). snd kb))"

lemma comparable_equal: "comparable L v \<Longrightarrow> (\<exists>obj. v = JObject obj) \<or> values_equal L v v"
  by (cases v) auto

lemma member_size: "(key, v) \<in> set obj \<Longrightarrow> size v < size (JObject obj)"
  by (induction obj) auto

lemma merge_self: "comparable L (JObject obj) \<Longrightarrow> merge_object L obj obj = (obj, 0)"
proof (induction "size (JObject obj)" arbitrary: obj rule: less_induct)
  case less
  have "settled_member L (map_of obj key) v" if kv: "(key, v) \<in> set obj" for key v
  proof -
    have m: "map_of obj key = Some v" using kv less.prems by simp
    have u: "comparable L v" using kv less.prems by (auto simp: ball_Un)
    show ?thesis
    proof (cases "\<exists>inner. v = JObject inner")
      case True
      then obtain inner where v: "v = JObject inner" by blast
      have "size (JObject inner) < size (JObject obj)" using member_size [OF kv] v by simp
      then show ?thesis using less.hyps u m v by (simp add: settled_member_def)
    next
      case False
      then show ?thesis using m comparable_equal [OF u] by (auto simp: settled_member_def split: json.splits)
    qed
  qed
  then show ?case by (intro merge_settled) auto
qed

lemma settled_new:
  "comparable L v \<Longrightarrow> settled_member L (Some v) v"
  using merge_self comparable_equal by (auto simp: settled_member_def split: json.splits)

text \<open>
  C23: Sending the same configuration twice changes nothing the second time: merging the values again
  into the merged document leaves it as it is and counts zero changed keys, however deeply the
  objects are nested.
\<close>

theorem merge_object_idempotent:
  assumes "comparable L (JObject changes)"
  shows "merge_object L (fst (merge_object L target changes)) changes = (fst (merge_object L target changes), 0)"
  using assms
proof (induction "size (JObject changes)" arbitrary: target changes rule: less_induct)
  case less
  have "settled_member L (map_of (fst (merge_object L target changes)) key) v" if kv: "(key, v) \<in> set changes" for key v
  proof -
    have m: "map_of changes key = Some v" and u: "comparable L v" using kv less.prems by (auto simp: ball_Un)
    have l: "map_of (fst (merge_object L target changes)) key = Some (merged_member L (map_of target key) v)"
      using merge_object_lookup m less.prems by simp
    show ?thesis
    proof (cases "\<exists>inner nested. map_of target key = Some (JObject inner) \<and> v = JObject nested")
      case True
      then obtain inner nested where o: "map_of target key = Some (JObject inner)" "v = JObject nested" by blast
      have "size (JObject nested) < size (JObject changes)" using member_size [OF kv] o by simp
      then have "merge_object L (fst (merge_object L inner nested)) nested = (fst (merge_object L inner nested), 0)"
        using less.hyps u o by simp
      then show ?thesis unfolding l by (simp add: merged_member_def settled_member_def o)
    next
      case False
      have "merged_member L (map_of target key) v = v \<or>
          (\<exists>old. merged_member L (map_of target key) v = old \<and> map_of target key = Some old \<and> values_equal L old v)"
        using False by (auto simp: merged_member_def split: option.splits json.splits)
      then show ?thesis
        unfolding l using settled_new [OF u] False
        by (auto simp: settled_member_def split: json.splits)
    qed
  qed
  then show ?case by (intro merge_settled) auto
qed

section \<open>The configuration file\<close>

text \<open>
  An accepted path with a proper file name lies in the release directory, and the temporary file
  beside it.
\<close>

lemma config_positions:
  assumes "validate_release_relative_path relative label = Inr u" "plain_name (path_filename relative)"
  obtains dirs where
    "at w (path_append root relative) = at w root @ dirs @ [path_filename relative]"
    "at w (path_append root relative @ ''.tmp'') = at w root @ dirs @ [path_filename relative @ ''.tmp'']"
proof -
  let ?s = "split_char (CHR ''/'') relative" and ?c = "path_filename relative"
  have rel: "\<not> is_absolute relative" "path_begin (lexically_normal relative) \<noteq> ''..''" "relative \<noteq> ''''"
    using assms(1) by (auto simp: validate_release_relative_path_def lexically_normal_def Let_def split: if_splits)
  have s: "?s = butlast ?s @ [?c]" by (simp add: path_filename_last)
  let ?n = "normal_comps False [] (butlast ?s)"
  have n: "snd (lexically_normal relative) = ?n @ [?c]"
  proof -
    have "normal_comps False [] ?s = normal_comps False [] (butlast ?s @ [?c])" using s by simp
    also have "\<dots> = ?n @ [?c]" using assms(2) unfolding normal_comps_append by (simp add: plain_name_def)
    finally show ?thesis using rel by (simp add: lexically_normal_def)
  qed
  note inside = locate_relative_inside [OF rel(1,2), unfolded n]
  have p: "at w (path_append root relative) = at w root @ ?n @ [?c]" using inside(1) by (simp add: at_def)
  have "resolve (at w root) ?s = resolve (at w root) (butlast ?s @ [?c])" using s by simp
  also have "\<dots> = resolve (at w root) (butlast ?s) @ [?c]"
    unfolding resolve_append using assms(2) by (simp add: plain_name_def)
  finally have B: "resolve (at w root) (butlast ?s) = at w root @ ?n"
    using p locate_append [OF rel(1), of "cwd w" root] by (simp add: at_def)
  have tmp: "plain_name (?c @ ''.tmp'')" using assms(2) by (auto simp: plain_name_def contains_char_def)
  have "path_append root relative @ ''.tmp'' = path_append root (relative @ ''.tmp'')"
    using rel(1,3) by (simp add: path_append_def)
  then have "at w (path_append root relative @ ''.tmp'') = resolve (at w root) (butlast ?s @ [last ?s @ ''.tmp''])"
    using rel(1,3) locate_append [of "relative @ ''.tmp''" "cwd w" root]
      split_char_snoc [of "CHR ''/''" "''.tmp''" relative] by (simp add: at_def)
  also have "\<dots> = at w root @ ?n @ [?c @ ''.tmp'']"
    unfolding resolve_append B using tmp path_filename_last [of relative] by (simp add: plain_name_def)
  finally show ?thesis using p that by blast
qed

lemma write_json_object_effect:
  assumes "write_json_object L path document w = (r, w')"
  defines "P \<equiv> at w path" and "T \<equiv> at w (path @ ''.tmp'')"
  assumes apart: "\<not> prefix T P" "\<not> prefix P T"
  shows "step_in (\<lambda>q. prefix T q \<or> prefix P q) w w'"
    and "case r of
      Inl e \<Rightarrow> lookup (files w') P = lookup (files w) P
    | Inr u \<Rightarrow> \<exists>m. lookup (files w') P = Some (File (serialize_value L (JObject document)) m)"
proof -
  let ?R = "\<lambda>q. prefix T q \<or> prefix P q"
  obtain x2 w2 where c2: "fs_write T (serialize_value L (JObject document)) w = (x2, w2)" by fastforce
  note s2 = write_step [OF c2]
  have s2': "step_in ?R w w2" by (rule step_in_mono [OF s2]) auto
  obtain x3 w3 where c3: "fs_rename T P w2 = (x3, w3)" by fastforce
  have s3: "step_in ?R w w3" by (rule step_in_trans [OF s2' step_in_mono [OF rename_step [OF c3]]]) auto
  obtain x4 w4 where c4: "fs_remove T w3 = (x4, w4)" by fastforce
  have s4: "step_in ?R w w4" by (rule step_in_trans [OF s3 step_in_mono [OF remove_step [OF c4]]]) auto
  obtain x5 w5 where c5: "fs_remove T w2 = (x5, w5)" by fastforce
  have s5: "step_in ?R w w5" by (rule step_in_trans [OF s2' step_in_mono [OF remove_step [OF c5]]]) auto
  have e: "at w2 s = at w s" "at w3 s = at w s" for s using step_in_at s2' s3 by blast+
  note run = assms(1) c2 c3 c4 c5 e
  show "step_in ?R w w'"
    using run s2' s3 s4 s5 unfolding P_def T_def
    by (auto simp: write_json_object_def Let_def split: sum.splits write_result.splits)
  have l2: "lookup (files w2) P = lookup (files w) P"
    using step_in_lookup [OF s2, of P] apart by auto
  have l4: "lookup (files w4) P = lookup (files w) P" if "x3 = Inl err" for err
    using step_in_lookup [OF remove_step [OF c4] apart(1)] rename_failed [of T P w2] c3 that l2 by simp
  have l5: "lookup (files w5) P = lookup (files w) P"
    using step_in_lookup [OF remove_step [OF c5] apart(1)] l2 by simp
  have l3: "\<exists>m. lookup (files w3) P = Some (File (serialize_value L (JObject document)) m)"
    if "x2 = Written" "x3 = Inr u" for u
    using rename_publishes [of T P w2 u w3 P] write_publishes [of T _ w w2] c2 c3 that apart
    by auto
  show "case r of Inl e \<Rightarrow> lookup (files w') P = lookup (files w) P
    | Inr u \<Rightarrow> \<exists>m. lookup (files w') P = Some (File (serialize_value L (JObject document)) m)"
    using run l2 l3 l4 l5 unfolding P_def T_def
    by (auto simp: write_json_object_def Let_def split: sum.splits write_result.splits)
qed

lemma active_release_directory_reads: "active_release_directory E w = (r, w') \<Longrightarrow> reads w w'"
  by (auto simp: active_release_directory_def dest: installer_state_reads split: prod.splits sum.splits if_splits)

lemma active_release_directory_calm:
  "active_release_directory E w = (r, w') \<Longrightarrow> faults w = [] \<Longrightarrow> w' = w"
  by (auto simp: active_release_directory_def installer_state_calm split: prod.splits sum.splits if_splits)

lemma read_json_object_reads: "read_json_object L path w = (r, w') \<Longrightarrow> reads w w'"
  by (auto simp: read_json_object_def dest: read_reads split: prod.splits option.splits sum.splits json.splits)

definition published ::
    "json_lib \<Rightarrow> json_object \<Rightarrow> fpath \<Rightarrow> unit expected \<Rightarrow> 'a machine_scheme \<Rightarrow> 'a machine_scheme \<Rightarrow> bool" where
  "published L values T r w w' \<longleftrightarrow>
     (case r of
        Inl e \<Rightarrow> lookup (files w') T = lookup (files w) T
      | Inr u \<Rightarrow> \<exists>document m.
          lookup (files w') T = Some (File (serialize_value L (JObject (fst (merge_object L document values)))) m) \<and>
          (faults w = [] \<longrightarrow> (\<exists>content n. lookup (files w) T = Some (File content n) \<and>
             parse_text L content = Inr (JObject document))))"

lemma merge_into_file_effect:
  assumes "merge_into_file L root relative values a w = (r, a', w')"
    and "T = at w (path_append root relative)" "U = at w (path_append root relative @ ''.tmp'')"
    and "\<not> prefix U T" "\<not> prefix T U"
  shows "step_in (\<lambda>q. prefix U q \<or> prefix T q) w w'" "published L values T r w w'"
proof -
  let ?p = "path_append root relative" and ?R = "\<lambda>q. prefix U q \<or> prefix T q"
  obtain b w1 where c1: "fs_is_regular_file (at w ?p) w = (b, w1)" by fastforce
  obtain y w2 where c2: "read_json_object L ?p w1 = (y, w2)" by fastforce
  note r1 = is_regular_file_reads [OF c1]
  note r2 = reads_trans [OF r1 read_json_object_reads [OF c2]]
  have at2: "at w1 s = at w s" "at w2 s = at w s" for s using reads_at r1 r2 by blast+
  have idle: "step_in ?R w v \<and> published L values T (Inl e) w v" if "reads w v" for v e
    using that reads_step by (auto simp: published_def)
  have "step_in ?R w w' \<and> published L values T r w w'"
  proof (cases "b \<and> is_ok y")
    case False
    then have "(\<exists>e. r = Inl e) \<and> (w' = w1 \<or> w' = w2)"
      using assms(1) c1 c2 unfolding merge_into_file_def permanent_def Let_def
      by (cases b; cases y) auto
    then show ?thesis using idle r1 r2 by auto
  next
    case True
    then obtain document where y: "y = Inr document" by (cases y) auto
    let ?m = "fst (merge_object L document values)"
    obtain z w3 where c3: "write_json_object L ?p ?m w2 = (z, w3)" by fastforce
    have run: "w' = w3" "is_ok r = is_ok z"
      using assms(1) c1 c2 c3 y True
      by (cases "merge_object L document values"; cases z;
          simp add: merge_into_file_def transient_def succeed_def Let_def; fastforce)+
    note eff = write_json_object_effect [OF c3, unfolded at2, folded assms(2,3), OF assms(4,5)]
    have read: "\<exists>content n. lookup (files w) T = Some (File content n) \<and> parse_text L content = Inr (JObject document)"
      if calm: "faults w = []"
    proof -
      have w1: "w1 = w" "is_file (lookup (files w) T)"
        using c1 calm True assms(2) by (auto simp: fs_is_regular_file_def take_fault_none)
      then obtain content n where f: "lookup (files w) T = Some (File content n)" by (auto simp: is_file_iff)
      have "parse_text L content = Inr (JObject document)"
        using c2 y w1 f calm assms(2)
        by (auto simp: read_json_object_def fs_read_def take_fault_none split: sum.splits json.splits)
      then show ?thesis using f by blast
    qed
    have "lookup (files w2) T = lookup (files w) T" using reads_files [OF r2] by simp
    then have "published L values T r w w'"
      using eff(2) run read unfolding published_def by (cases z; cases r) auto
    then show ?thesis using reads_then_step [OF r2 eff(1)] run by simp
  qed
  then show "step_in ?R w w'" "published L values T r w w'" by auto
qed


end
