(* ===== verification/AgentProcesses.thy ===== *)
theory AgentProcesses
  imports AgentDisk DownloadFacts
begin

text \<open>
  The service and the engine together: whatever messages arrive, in whatever order and however
  their handling fails, the agent has at most one child and never loses sight of it.
\<close>

section \<open>What the other services may do\<close>

text \<open>
  Downloading, reporting and asking for the disk space take time, in which other processes live on,
  and may write files; they start and reap no process.
\<close>

definition ambient :: "'a engine_scheme \<Rightarrow> 'a engine_scheme \<Rightarrow> bool" where
  "ambient = (\<lambda>w w'. files_step w w' \<or> passes w w')\<^sup>*\<^sup>*"

definition ambient_services :: "('c, 'a engine_scheme) agent_parts \<Rightarrow> bool" where
  "ambient_services P \<longleftrightarrow>
     (\<forall>st. store P = Some st \<longrightarrow>
        (\<forall>key path w. ambient w (snd (download st key path w))) \<and> (\<forall>key w. ambient w (snd (object_exists st key w)))) \<and>
     (\<forall>send. publisher P = Some send \<longrightarrow> (\<forall>url body w. ambient w (snd (send url body w)))) \<and>
     (\<forall>path w. ambient w (snd (disk_space P path w))) \<and>
     (\<forall>E. agent_deployment P = Some E \<longrightarrow>
        (\<exists>L C opts svc hc. E = posix_parts L C opts svc hc \<and> quiet_curl C))"

lemma ambient_onward: "ambient w w' \<Longrightarrow> onward books w w'"
  unfolding ambient_def
proof (induction rule: rtranclp_induct)
  case (step u v)
  have "onward books u v"
    using step(2)
  proof
    assume "passes u v"
    then have "agent_engine.tends u v"
      by (intro agent_engine.tendsI) (use passes_evolves posix.passes_intact posix.passes_held in blast)+
    then show ?thesis by (simp add: agent_engine.tends_def)
  qed (rule agent_engine.disk_onward1)
  then show ?case using step onward_trans by blast
qed simp

lemma ambient_trans: "ambient w w1 \<Longrightarrow> ambient w1 w2 \<Longrightarrow> ambient w w2"
  unfolding ambient_def by (rule rtranclp_trans)

lemma ambient_disk: "files_step w w' \<Longrightarrow> ambient w w'"
  unfolding ambient_def by blast

lemma ambient_step: "step_in R w w' \<Longrightarrow> ambient w w'"
  by (simp add: ambient_disk step_in_def)

lemma ambient_reads: "reads w w' \<Longrightarrow> ambient w w'"
  using ambient_step [OF reads_step [of w w' "\<lambda>_. False"]] .

lemma ambient_refl [simp]: "ambient w w"
  unfolding ambient_def by simp

lemma ambient_calls:
  assumes "ambient_services P"
  shows "store P = Some st \<Longrightarrow> download st key path w = (r, w') \<Longrightarrow> ambient w w'"
    "store P = Some st \<Longrightarrow> object_exists st key w = (b, w') \<Longrightarrow> ambient w w'"
    "publisher P = Some send \<Longrightarrow> send url body w = (r, w') \<Longrightarrow> ambient w w'"
    "disk_space P path w = (s, w') \<Longrightarrow> ambient w w'"
  using assms unfolding ambient_services_def by (metis snd_conv)+

section \<open>The handlers without the engine\<close>

lemma fetch_artifact_ambient:
  assumes "ambient_services P" "store P = Some st" "fetch_artifact P st target item a w = (r, a', w')"
  shows "ambient w w'"
proof -
  obtain path expected key where i: "item = (path, expected, key)" by (cases item) auto
  obtain x w1 where c1: "download st key (path_append target path) w = (x, w1)" by fastforce
  note s1 = ambient_calls(1) [OF assms(1,2) c1]
  obtain y w2 where c2: "object_exists st key w1 = (y, w2)" by fastforce
  obtain z w3 where c3: "file_sha256 (agent_digest P) (path_append target path) w1 = (z, w3)" by fastforce
  have "w' = w2 \<or> w' = w3"
    using assms(3) c1 c2 c3 unfolding i fetch_artifact_def permanent_def transient_def Let_def
    by (auto split: sum.splits bool.splits if_splits)
  then show ?thesis
    using s1 ambient_trans ambient_calls(2) [OF assms(1,2) c2] ambient_reads [OF file_sha256_reads [OF c3]] by blast
qed

lemma download_artifacts_ambient:
  assumes "ambient_services P" "store P = Some st"
    and "download_artifacts P st release_id target elements a w = (r, a', w')"
  shows "ambient w w'"
  using assms(3)
proof (induction elements arbitrary: a w)
  case (Cons e elements)
  show ?case
  proof (cases "artifact_fields release_id e")
    case (Inr item)
    obtain x a1 w1 where s: "fetch_artifact P st target item a w = (x, a1, w1)" by (metis prod_cases3)
    note am = fetch_artifact_ambient [OF assms(1,2) s]
    show ?thesis
    proof (cases x)
      case (Inl err)
      then show ?thesis using Cons.prems Inr s am by simp
    next
      case ok: (Inr v)
      then show ?thesis using Cons.prems Cons.IH [of a1 w1] Inr s am ambient_trans by simp
    qed
  qed (use Cons.prems in \<open>simp add: permanent_def\<close>)
qed simp

lemma download_version_ambient:
  assumes "ambient_services P" "download_version P m a w = (r, a', w')"
  shows "ambient w w'"
  using assms(2)
proof (cases rule: download_cases)
  case (go st obj release_id elements)
  let ?t = "version_directory (agent_opts P) release_id"
  obtain x w1 where c1: "fs_create_directories (at w ?t) w = (x, w1)" by fastforce
  note s1 = ambient_step [OF create_directories_step [OF c1]]
  obtain y a1 w2 where c2: "download_artifacts P st release_id ?t elements a w1 = (y, a1, w2)" by (metis prod_cases3)
  note s2 = ambient_trans [OF s1 download_artifacts_ambient [OF assms(1) go(1) c2]]
  obtain z w3 where c3: "fs_remove_all (at w2 ?t) w2 = (z, w3)" by fastforce
  note s3 = ambient_trans [OF s2 ambient_step [OF remove_all_step [OF c3]]]
  have "w' = w1 \<or> w' = w2 \<or> w' = w3"
    using go(6) c1 c2 c3 unfolding download_into_def transient_def succeed_def Let_def
    by (auto split: sum.splits)
  then show ?thesis using s1 s2 s3 by blast
qed simp

lemma existing_ancestor_reads: "existing_ancestor t w = (r, w') \<Longrightarrow> reads w w'"
proof (induction t w arbitrary: r w' rule: existing_ancestor.induct)
  case (1 t w)
  obtain b w1 where e: "fs_exists (at w t) w = (b, w1)" by fastforce
  note r = exists_reads [OF e]
  show ?case
  proof (cases "t \<noteq> [] \<and> \<not> b \<and> parent_path t \<noteq> [] \<and> parent_path t \<noteq> t")
    case True
    then have "existing_ancestor (parent_path t) w1 = (r, w')"
      using "1.prems" e by (simp add: existing_ancestor.simps [of t w])
    then show ?thesis using "1.IH" [of b w1] True e r reads_trans by auto
  next
    case False
    then have "w' = w \<or> w' = w1" using "1.prems" e
      by (auto simp: existing_ancestor.simps [of t w] split: if_splits bool.splits)
    then show ?thesis using r by auto
  qed
qed

lemma fs_current_path_reads: "fs_current_path w = (r, w') \<Longrightarrow> reads w w'"
  by (auto simp: fs_current_path_def dest: take_fault_reads split: prod.splits option.splits)

lemma disk_probe_path_reads:
  assumes "disk_probe_path opts w = (r, w')"
  shows "reads w w'"
proof -
  obtain s w1 where c1: "(if version_root opts = '''' then fs_current_path w else (version_root opts, w)) = (s, w1)"
    by fastforce
  have r1: "reads w w1" using c1 fs_current_path_reads by (auto split: if_splits)
  obtain t w2 where c2: "existing_ancestor s w1 = (t, w2)" by fastforce
  note r2 = reads_trans [OF r1 existing_ancestor_reads [OF c2]]
  obtain b w3 where c3: "fs_exists (at w2 t) w2 = (b, w3)" by fastforce
  note r3 = reads_trans [OF r2 exists_reads [OF c3]]
  show ?thesis
    using assms c1 c2 c3 r2 r3 fs_current_path_reads [of w2 r w'] fs_current_path_reads [of w3 r w']
    by (auto simp: disk_probe_path_def intro: reads_trans split: if_splits bool.splits)
qed

lemma collect_versions_reads: "collect_versions root names found w = (r, w') \<Longrightarrow> reads w w'"
  by (induction root names found w arbitrary: r w' rule: collect_versions.induct)
    (auto simp: Let_def dest!: take_fault_reads intro: reads_trans split: prod.splits option.splits)

lemma downloaded_versions_reads: "downloaded_versions opts w = (r, w') \<Longrightarrow> reads w w'"
  by (auto simp: downloaded_versions_def Let_def dest!: is_directory_reads list_reads collect_versions_reads
      intro: reads_trans split: if_splits prod.splits bool.splits sum.splits)

lemma current_status_ambient:
  assumes "ambient_services P" "current_status P m a w = (r, a', w')"
  shows "ambient w w'"
proof -
  obtain t w1 where c1: "disk_probe_path (agent_opts P) w = (t, w1)" by fastforce
  note s1 = ambient_reads [OF disk_probe_path_reads [OF c1]]
  obtain x w2 where c2: "disk_space P t w1 = (x, w2)" by fastforce
  note s2 = ambient_trans [OF s1 ambient_calls(4) [OF assms(1) c2]]
  obtain v w3 where c3: "downloaded_versions (agent_opts P) w2 = (v, w3)" by fastforce
  note s3 = ambient_trans [OF s2 ambient_reads [OF downloaded_versions_reads [OF c3]]]
  show ?thesis
    using assms(2) c1 c2 c3 s2 s3
    by (auto simp: current_status_def transient_def succeed_def split: sum.splits)
qed

lemma write_json_object_ambient: "write_json_object L path document w = (r, w') \<Longrightarrow> ambient w w'"
  by (auto simp: write_json_object_def Let_def dest!: write_step [THEN ambient_step] rename_step [THEN ambient_step]
      intro: ambient_trans remove_step [THEN ambient_step] split: prod.splits sum.splits write_result.splits)
    (metis ambient_step ambient_trans remove_step prod.collapse)+

lemma update_configuration_ambient:
  assumes "update_configuration P m a w = (r, a', w')"
  shows "ambient w w'"
proof -
  have merge: "ambient w1 w2" if "merge_into_file L root relative vals a1 w1 = (q, a2, w2)"
    for L root relative vals a1 w1 q a2 w2
    using that
    by (auto simp: merge_into_file_def Let_def permanent_def transient_def succeed_def
        dest!: is_regular_file_reads [THEN ambient_reads] read_json_object_reads [THEN ambient_reads] write_json_object_ambient
        intro: ambient_trans split: prod.splits sum.splits bool.splits)
  show ?thesis
    using assms
    by (auto simp: update_configuration_def permanent_def
        dest!: active_release_directory_reads [THEN ambient_reads] merge
        intro: ambient_trans split: sum.splits option.splits prod.splits)
qed

section \<open>The handlers of the engine, and \<open>handle\<close>\<close>

lemma engine_parts:
  "ambient_services P \<Longrightarrow> agent_deployment P = Some E \<Longrightarrow>
     \<exists>L C opts svc hc. E = posix_parts L C opts svc hc \<and> quiet_curl C"
  by (simp add: ambient_services_def)

lemma engine_onward:
  assumes "ambient_services P" "agent_deployment P = Some E" "engine_step E w w'"
  shows "onward books w w'"
  using engine_parts [OF assms(1,2)] engine_step_onward assms(3) by blast

lemma apply_version_onward:
  assumes "ambient_services P" "apply_version P m a w = Some (r, a', w')"
  shows "onward books w w'"
proof -
  have go: "onward books w w'"
    if E: "agent_deployment P = Some E" and d: "fs_is_directory p w = (b, w1)"
      and x: "w' = w1 \<or> (\<exists>q i s. deploy_apply E i s w1 = Some (q, w'))" for E p b w1
  proof -
    have "onward books w w1" using ambient_onward [OF ambient_reads [OF is_directory_reads [OF d]]] .
    then show ?thesis using x engine_onward [OF assms(1) E applying] onward_trans by blast
  qed
  show ?thesis
    using assms(2)
    by (auto simp: apply_version_def permanent_def succeed_def Let_def intro: go
        split: sum.splits option.splits prod.splits bool.splits)
qed

lemma rollback_version_onward:
  assumes "ambient_services P" "rollback_version P m a w = (r, a', w')"
  shows "onward books w w'"
  using assms(2) engine_onward [OF assms(1) _ rolling_back]
  by (auto simp: rollback_version_def permanent_def succeed_def
      split: sum.splits option.splits prod.splits)

lemma restart_service_onward:
  assumes "ambient_services P" "restart_service P m a w = Some (r, a', w')"
  shows "onward books w w'"
  using assms(2) engine_onward [OF assms(1) _ restarting]
  by (auto simp: restart_service_def permanent_def succeed_def
      split: sum.splits option.splits prod.splits)

lemma messages_onward:
  assumes "ambient_services P" "map_of (messages P) name = Some handler" "name \<noteq> kRebootDevice"
    and "handler m a w = Some (r, a', w')"
  shows "onward books w w'"
  using assms(2)
proof (cases rule: messages_cases)
  case download
  then show ?thesis using assms(4) ambient_onward [OF download_version_ambient [OF assms(1)]] by blast
next
  case deploy
  then show ?thesis using assms(1,4) apply_version_onward by auto
next
  case status
  then show ?thesis using assms(4) ambient_onward [OF current_status_ambient [OF assms(1)]] by blast
next
  case clean
  then show ?thesis using assms(4) ambient_onward [OF ambient_step [OF clean_old_version_step]] by blast
next
  case rollback
  then show ?thesis using assms(1,4) rollback_version_onward by auto
next
  case update
  then show ?thesis using assms(4) ambient_onward [OF update_configuration_ambient] by blast
next
  case restart
  then show ?thesis using assms(1,4) restart_service_onward by auto
qed (use assms(3) in simp)

lemma report_ambient:
  assumes "ambient_services P"
  shows "ambient w (report P name reply_to result a w)"
proof (cases "publisher P")
  case (Some send)
  have "ambient w (snd (send url body w))" for url body
    using ambient_calls(3) [OF assms Some, of url body w] by (metis prod.collapse)
  then show ?thesis using Some by (auto simp: report_def Let_def)
qed (simp add: report_def Let_def)

text \<open>A message of any command but \<open>reboot_device\<close>, which forks the shutdown program.\<close>

definition no_reboot :: "json_lib \<Rightarrow> string \<Rightarrow> bool" where
  "no_reboot L raw \<longleftrightarrow>
     (case parse_agent_message L raw of Inl e \<Rightarrow> True | Inr m \<Rightarrow> command m \<noteq> kRebootDevice)"

lemma handle_onward:
  assumes "ambient_services P" "no_reboot (agent_json P) raw" "handle P raw a w = Some (r, a', w')"
  shows "onward books w w'"
proof (cases "parse_agent_message (agent_json P) raw")
  case (Inl e)
  then show ?thesis
    using assms(3) ambient_onward [OF report_ambient [OF assms(1)]] by (auto simp: handle_def refuse_def)
next
  case (Inr m)
  have n: "command m \<noteq> kRebootDevice" using assms(2) Inr by (simp add: no_reboot_def)
  consider (refused) why where "refuse P (command m) (reply_queue_url m) why a w = (r, a', w')"
    | (handled) handler q a1 w1 where "map_of (messages P) (command m) = Some handler"
      "handler (payload m) (a\<lparr>failure_is_permanent := False\<rparr>) w = Some (q, a1, w1)"
      "settle_outcome raw q a1 (report P (command m) (reply_queue_url m) q a1 w1) = (r, a', w')"
    using assms(3) Inr by (auto simp: handle_def split: if_splits option.splits)
  then show ?thesis
  proof cases
    case refused
    then show ?thesis using ambient_onward [OF report_ambient [OF assms(1)]] by (auto simp: refuse_def)
  next
    case handled
    have "w' = report P (command m) (reply_queue_url m) q a1 w1"
      using handled(3) by (auto simp: settle_outcome_def split: if_splits prod.splits)
    then show ?thesis
      using messages_onward [OF assms(1) handled(1) n handled(2)] onward_trans
        ambient_onward [OF report_ambient [OF assms(1)]] by blast
  qed
qed

lemma deliveries_onward:
  "ambient_services P \<Longrightarrow> \<forall>raw \<in> set ms. no_reboot (agent_json P) raw \<Longrightarrow>
     deliveries P ms a w = Some (rs, a', w') \<Longrightarrow> onward books w w'"
proof (induction ms arbitrary: a w rs)
  case (Cons raw ms)
  obtain r a1 w1 rs1 where h: "handle P raw a w = Some (r, a1, w1)" "deliveries P ms a1 w1 = Some (rs1, a', w')"
    using Cons.prems(3) by (auto split: option.splits)
  show ?case
    using onward_trans [OF handle_onward [OF Cons.prems(1) _ h(1)]] Cons.IH [OF Cons.prems(1) _ h(2)] Cons.prems(2)
    by auto
qed simp

text \<open>From a fresh start on, every child is the process of the engine's handle.\<close>

lemma single_child:
  assumes "books w0" "\<forall>i p. map_of (procs w0) i = Some p \<longrightarrow> \<not> is_child p" "onward books w0 w"
    and "map_of (procs w) i = Some p" "is_child p"
  shows "\<exists>h. engine_handle w = Some h \<and> handle_id h = i"
proof -
  have "single books w0" using assms(1,2) by (auto simp: single_def offspring_def)
  then have "single books w" using assms(3) by (simp add: onward_def)
  then have "i \<in> handle_ids w" using assms(4,5) by (auto simp: single_def offspring_def)
  then show ?thesis by (auto simp: handle_ids_def split: option.splits)
qed

end
