(* ===== verification/Messaging.thy ===== *)
theory Messaging
  imports ArtifactStore
begin

text \<open>
  \<open>RolloutKit/Messaging\<close>: the queue options, \<open>SqsMessagePublisher.cpp\<close> and
  \<open>SqsMessageConsumer.cpp\<close>. The SQS clients they wrap are not part of the repository; their calls
  are the fields of \<open>sqs_publisher\<close> and \<open>sqs_consumer\<close>. That the consumer deletes a message
  exactly when the handler reports success is documented behaviour of that client and is used
  by \<open>AgentFacts\<close> only in words.
\<close>

record queue_options =
  queue_url :: string
  queue_region :: string
  queue_access_key :: string
  queue_secret_key :: string
  queue_endpoint :: string
  queue_insecure_tls :: bool
  wait_time_seconds :: int
  visibility_timeout_seconds :: int
  max_number_of_messages :: int

definition default_queue_options :: queue_options where
  "default_queue_options =
     \<lparr>queue_url = '''', queue_region = ''us-east-1'', queue_access_key = '''', queue_secret_key = '''',
      queue_endpoint = '''', queue_insecure_tls = False, wait_time_seconds = 20,
      visibility_timeout_seconds = 300, max_number_of_messages = 0\<rparr>"

section \<open>\<open>SqsMessagePublisher\<close>\<close>

definition publisher_configuration :: "queue_options \<Rightarrow> client_configuration \<Rightarrow> client_configuration" where
  "publisher_configuration opts standard =
     (let c = standard\<lparr>client_region := c_str (queue_region opts)\<rparr>;
          c = (if queue_endpoint opts \<noteq> '''' then c\<lparr>endpoint_override := c_str (queue_endpoint opts)\<rparr> else c)
      in if queue_insecure_tls opts then c\<lparr>verify_ssl := False\<rparr> else c)"

text \<open>\<open>send_message_to (url, body, group)\<close>\<close>

type_synonym 'w sqs_publisher = "string \<Rightarrow> string \<Rightarrow> string \<Rightarrow> 'w \<Rightarrow> unit expected \<times> 'w"
type_synonym 'w sqs_publisher_sdk = "(string \<times> string) option \<Rightarrow> client_configuration \<Rightarrow> 'w sqs_publisher"

definition make_publisher ::
    "'w sqs_publisher_sdk \<Rightarrow> client_configuration \<Rightarrow> queue_options \<Rightarrow> 'w sqs_publisher" where
  "make_publisher sdk standard opts =
     (let configuration = publisher_configuration opts standard in
      if queue_access_key opts \<noteq> '''' then
        sdk (Some (queue_access_key opts, queue_secret_key opts)) configuration
      else sdk None configuration)"

definition sqs_send :: "'w sqs_publisher \<Rightarrow> string \<Rightarrow> string \<Rightarrow> 'w \<Rightarrow> unit expected \<times> 'w" where
  "sqs_send C url body w =
     (if url = '''' then (Inl ''queue_url is required'', w)
      else if body = '''' then (Inl ''message body is empty'', w)
      else
        (case C (c_str url) (c_str body) '''' w of
           (Inl e, w1) \<Rightarrow> (Inl (''cannot send to '' @ quoted url @ '': '' @ e), w1)
         | (Inr _, w1) \<Rightarrow> (Inr (), w1)))"

section \<open>\<open>SqsMessageConsumer\<close>\<close>

record consumer_config =
  config_wait_time :: int
  config_visibility_timeout :: int
  config_max_messages :: int

definition consumer_configuration :: "queue_options \<Rightarrow> client_configuration \<Rightarrow> client_configuration" where
  "consumer_configuration opts standard =
     (let c = standard\<lparr>client_region := c_str (queue_region opts)\<rparr>;
          c = (if queue_endpoint opts \<noteq> '''' then c\<lparr>endpoint_override := c_str (queue_endpoint opts)\<rparr> else c)
      in if queue_insecure_tls opts then c\<lparr>verify_ssl := False\<rparr> else c)"

definition make_consumer_config :: "queue_options \<Rightarrow> consumer_config" where
  "make_consumer_config opts =
     \<lparr>config_wait_time = wait_time_seconds opts,
      config_visibility_timeout = visibility_timeout_seconds opts,
      config_max_messages = max_number_of_messages opts\<rparr>"

record ('h, 'w) sqs_consumer =
  register_consume_handler :: "'h \<Rightarrow> 'w \<Rightarrow> unit expected \<times> 'w"
  consumer_start :: "'w \<Rightarrow> unit expected \<times> 'w"
  start_consume :: "'w \<Rightarrow> unit expected \<times> 'w"
  stop_consume :: "'w \<Rightarrow> unit expected \<times> 'w"
  consumer_stop :: "'w \<Rightarrow> 'w"
  is_running :: "'w \<Rightarrow> bool"

type_synonym ('h, 'w) sqs_consumer_sdk =
  "(string \<times> string) option \<Rightarrow> client_configuration \<Rightarrow> consumer_config \<Rightarrow> string \<Rightarrow> ('h, 'w) sqs_consumer"

definition make_consumer ::
    "('h, 'w) sqs_consumer_sdk \<Rightarrow> client_configuration \<Rightarrow> queue_options \<Rightarrow> ('h, 'w) sqs_consumer" where
  "make_consumer sdk standard opts =
     (let configuration = consumer_configuration opts standard;
          consume_config = make_consumer_config opts
      in if queue_access_key opts \<noteq> '''' then
           sdk (Some (queue_access_key opts, queue_secret_key opts)) configuration consume_config (queue_url opts)
         else sdk None configuration consume_config (queue_url opts))"

text \<open>The member \<open>handler_registered_\<close> is the first state; \<open>consumer_\<close> is never null after construction.\<close>

definition set_handler ::
    "('h, 'w) sqs_consumer \<Rightarrow> 'h option \<Rightarrow> bool \<Rightarrow> 'w \<Rightarrow> unit expected \<times> bool \<times> 'w" where
  "set_handler C h registered w =
     (case h of
        None \<Rightarrow> (Inl ''handler is null'', registered, w)
      | Some value \<Rightarrow>
          if is_running C w then (Inl ''handler cannot be replaced while running'', registered, w)
          else
            (case register_consume_handler C value w of
               (Inl e, w1) \<Rightarrow> (Inl e, registered, w1)
             | (Inr _, w1) \<Rightarrow> (Inr (), True, w1)))"

definition start_consumer ::
    "('h, 'w) sqs_consumer \<Rightarrow> queue_options \<Rightarrow> bool \<Rightarrow> 'w \<Rightarrow> unit expected \<times> 'w" where
  "start_consumer C opts registered w =
     (if is_running C w then (Inl ''consumer is already running'', w)
      else if queue_url opts = '''' then (Inl ''queue_url is required'', w)
      else if \<not> registered then (Inl ''handler must be registered before start'', w)
      else
        (case consumer_start C w of
           (Inl e, w1) \<Rightarrow> (Inl e, w1)
         | (Inr _, w1) \<Rightarrow>
             (case start_consume C w1 of
                (Inl e, w2) \<Rightarrow> (Inl e, consumer_stop C w2)
              | (Inr _, w2) \<Rightarrow> (Inr (), w2))))"

definition stop_consumer :: "('h, 'w) sqs_consumer \<Rightarrow> 'w \<Rightarrow> 'w" where
  "stop_consumer C w = consumer_stop C (snd (stop_consume C w))"

end
