(* ===== verification/AgentMain.thy ===== *)
theory AgentMain
  imports AgentProcesses AgentConfig Messaging
begin

text \<open>
  \<open>YirangAgent/main.cpp\<close>: from a configuration to the running agent, and its life until it is asked
  to stop.

  The SDKs, the digest, the HTTP library and what the system answers are the fields of
  \<open>platform\<close>. \<open>run_agent\<close> is \<open>main\<close> without the logger: its argument \<open>ms\<close> are the bodies the consumer
  hands to the handler before a signal ends the wait, its value is the exit code and the world. A
  handler that never came back would make it \<open>None\<close>.
\<close>

section \<open>From the configuration to the parts\<close>

definition make_store_options :: "agent_config \<Rightarrow> store_options" where
  "make_store_options c =
     default_store_options\<lparr>bucket := cfg_s3_bucket c, region := cfg_s3_region c, endpoint := cfg_s3_endpoint c,
       allow_insecure_tls := cfg_allow_insecure_tls c\<rparr>"

definition make_queue_options :: "agent_config \<Rightarrow> queue_options" where
  "make_queue_options c =
     default_queue_options\<lparr>queue_url := cfg_queue_url c, queue_region := cfg_queue_region c,
       queue_endpoint := cfg_queue_endpoint c, queue_insecure_tls := cfg_allow_insecure_tls c,
       wait_time_seconds := cfg_poll_wait_seconds c\<rparr>"

definition make_service_spec :: "agent_config \<Rightarrow> service_spec" where
  "make_service_spec c =
     \<lparr>executable = cfg_service_executable c, service_arguments = cfg_service_arguments c,
      service_directory = cfg_service_working_directory c, stop_timeout = cfg_stop_timeout_seconds c,
      startup_timeout = cfg_startup_timeout_seconds c\<rparr>"

definition make_health_spec :: "agent_config \<Rightarrow> health_spec" where
  "make_health_spec c =
     default_health_spec\<lparr>
       kind := (if cfg_health_kind c = ''http'' then Http else if cfg_health_kind c = ''tcp'' then Tcp else Process),
       host := cfg_health_host c, port := word_of_int (cfg_health_port c), health_path := cfg_health_path c,
       expected_status := cfg_health_expected_status c, health_timeout := cfg_health_timeout_ms c,
       interval := cfg_health_interval_ms c, success_threshold := cfg_health_success_threshold c,
       failure_threshold := cfg_health_failure_threshold c\<rparr>"

definition make_engine ::
    "json_lib \<Rightarrow> 'a engine_scheme curl \<Rightarrow> agent_config \<Rightarrow> 'a engine_scheme parts option" where
  "make_engine L C c =
     (if cfg_service_root c = '''' \<or> cfg_service_executable c = '''' then None
      else Some (posix_parts L C
        \<lparr>service_root = cfg_service_root c, keep_previous_releases = cfg_keep_previous_releases c\<rparr>
        (make_service_spec c) (make_health_spec c)))"

definition make_agent_options :: "agent_config \<Rightarrow> agent_options" where
  "make_agent_options c =
     \<lparr>device_id = cfg_device_id c, device_group = cfg_group c, version_root = cfg_version_root c,
      agent_service_root = cfg_service_root c, result_queue_url = cfg_result_queue_url c\<rparr>"

section \<open>The agent's life\<close>

record ('c, 'w) platform =
  os_json :: json_lib
  os_digest :: "'c digest_lib"
  os_curl :: "'w curl"
  s3_library :: "'w s3_sdk"
  sqs_publishers :: "'w sqs_publisher_sdk"
  sqs_consumers :: "('w handler, 'w) sqs_consumer_sdk"
  standard_configuration :: client_configuration
  os_space :: "string \<Rightarrow> 'w \<Rightarrow> space_info expected \<times> 'w"
  processors :: "32 word"
  is_superuser :: bool

definition make_service ::
    "('c, 'a engine_scheme) platform \<Rightarrow> agent_config \<Rightarrow> ('c, 'a engine_scheme) agent_parts" where
  "make_service H c =
     \<lparr>agent_json = os_json H, agent_digest = os_digest H, agent_opts = make_agent_options c,
      store = Some (s3_artifact_store (s3_library H) (standard_configuration H) (make_store_options c)),
      publisher = Some (sqs_send (make_publisher (sqs_publishers H) (standard_configuration H) (make_queue_options c))),
      agent_deployment = make_engine (os_json H) (os_curl H) c,
      system_control = Some (request_reboot (is_superuser H)),
      disk_space = os_space H, hardware_concurrency = processors H\<rparr>"

text \<open>The message loop; the destructor of the consumer stops it once more.\<close>

definition consume ::
    "('c, 'a engine_scheme) agent_parts \<Rightarrow> ('a engine_scheme handler, 'a engine_scheme) sqs_consumer \<Rightarrow>
       queue_options \<Rightarrow> string list \<Rightarrow> 'a engine_scheme \<Rightarrow> (int \<times> 'a engine_scheme) option" where
  "consume P C opts ms w =
     (case set_handler C (Some (handle P)) False w of
        (Inl e, registered, w1) \<Rightarrow> Some (1, stop_consumer C w1)
      | (Inr _, registered, w1) \<Rightarrow>
          (case start_consumer C opts registered w1 of
             (Inl e, w2) \<Rightarrow> Some (1, stop_consumer C w2)
           | (Inr _, w2) \<Rightarrow>
               (case deliveries P ms new_agent w2 of
                  None \<Rightarrow> None
                | Some (_, _, w3) \<Rightarrow> Some (0, stop_consumer C (stop_consumer C w3)))))"

definition run_agent ::
    "('c, 'a engine_scheme) platform \<Rightarrow> agent_config \<Rightarrow> string list \<Rightarrow> 'a engine_scheme \<Rightarrow>
       (int \<times> 'a engine_scheme) option" where
  "run_agent H c ms w =
     (case validate_required c of
        Inl e \<Rightarrow> Some (1, w)
      | Inr _ \<Rightarrow>
          let P = make_service H c;
              w1 = (case agent_deployment P of None \<Rightarrow> w | Some E \<Rightarrow> snd (start_active E w));
              opts = make_queue_options c
          in consume P (make_consumer (sqs_consumers H) (standard_configuration H) opts) opts ms w1)"

section \<open>Every handler returns\<close>

definition ready_returns :: "'a engine_scheme parts \<Rightarrow> bool" where
  "ready_returns E \<longleftrightarrow> (\<forall>w. await_ready E w \<noteq> None)"

lemma ready_returns_posix:
  "1 \<le> interval hc \<Longrightarrow> quiet_curl C \<Longrightarrow> ready_returns (posix_parts L C opts svc hc)"
  unfolding ready_returns_def using await_ready_terminates by fastforce

lemma engine_returns:
  assumes "ready_returns E"
  shows "deploy_apply E release_id source w \<noteq> None" "restart E w \<noteq> None"
  by (auto simp: assms [unfolded ready_returns_def, rule_format] deploy_apply_def switch_over_def restart_def
      split: sum.splits prod.splits option.splits)

lemma handle_returns:
  assumes "\<And>E. agent_deployment P = Some E \<Longrightarrow> ready_returns E"
  shows "handle P raw a w \<noteq> None"
proof -
  have h: "handler m a w \<noteq> None" if "map_of (messages P) name = Some handler" for handler name m a w
  proof
    assume none: "handler m a w = None"
    from that show False
    proof (cases rule: messages_cases)
      case deploy
      then show ?thesis
        using none
        by (auto simp: apply_version_def Let_def engine_returns(1) [OF assms] split: sum.splits option.splits prod.splits bool.splits)
    next
      case restart
      then show ?thesis
        using none
        by (auto simp: restart_service_def engine_returns(2) [OF assms] split: sum.splits option.splits prod.splits)
    qed (use none in simp_all)
  qed
  show ?thesis
  proof
    assume "handle P raw a w = None"
    then show False by (auto simp: handle_def h split: sum.splits option.splits if_splits)
  qed
qed

lemma deliveries_return:
  assumes "\<And>E. agent_deployment P = Some E \<Longrightarrow> ready_returns E"
  shows "deliveries P ms a w \<noteq> None"
proof (induction ms arbitrary: a w)
  case (Cons raw ms)
  obtain r a1 w1 where h: "handle P raw a w = Some (r, a1, w1)"
    using handle_returns [OF assms] by (metis option.exhaust prod_cases3)
  obtain rs a2 w2 where "deliveries P ms a1 w1 = Some (rs, a2, w2)"
    using Cons by (metis option.exhaust prod_cases3)
  then show ?case using h by simp
qed simp

lemma consume_returns:
  assumes "\<And>E. agent_deployment P = Some E \<Longrightarrow> ready_returns E"
  shows "\<exists>code w'. consume P C opts ms w = Some (code, w') \<and> code \<in> {0, 1}"
  by (auto simp: consume_def deliveries_return [of P, OF assms] split: sum.splits prod.splits option.splits)

text \<open>
  C4: The agent always comes back. Whatever the configuration file and the command line hold, whatever
  messages arrive and whatever fails, \<open>main\<close> handles every one of them and ends with an exit code
  once it is asked to stop: no handler waits for ever, because every value that bounds a wait has
  been put into its range.
\<close>

theorem agent_returns:
  assumes "c = configurations E config_file_name" "quiet_curl (os_curl H)"
  shows "\<exists>code w'. run_agent H c ms w = Some (code, w') \<and> code \<in> {0, 1}"
proof -
  obtain d where "c = validate_configuration E d" using assms(1) configurations_validated by auto
  then have "1 \<le> interval (make_health_spec c)"
    using validated_numbers by (simp add: make_health_spec_def)
  then have "ready_returns P" if "agent_deployment (make_service H c) = Some P" for P
    using that assms(2) ready_returns_posix by (auto simp: make_service_def make_engine_def split: if_splits)
  from consume_returns [OF this] show ?thesis
    by (auto simp: run_agent_def Let_def split: sum.splits)
qed


section \<open>The whole agent has at most one child\<close>

text \<open>
  What the libraries may do: take time and write files, but start and reap no process.
\<close>

definition ambient_consumer :: "('h, 'a engine_scheme) sqs_consumer \<Rightarrow> bool" where
  "ambient_consumer C \<longleftrightarrow>
     (\<forall>h w. ambient w (snd (register_consume_handler C h w))) \<and> (\<forall>w. ambient w (snd (consumer_start C w))) \<and>
     (\<forall>w. ambient w (snd (start_consume C w))) \<and> (\<forall>w. ambient w (snd (stop_consume C w))) \<and>
     (\<forall>w. ambient w (consumer_stop C w))"

definition ambient_platform :: "('c, 'a engine_scheme) platform \<Rightarrow> bool" where
  "ambient_platform H \<longleftrightarrow>
     (\<forall>credentials conf v b key path w.
        ambient w (snd (download_file (s3_library H credentials conf v) b key path w)) \<and>
        ambient w (snd (file_exists (s3_library H credentials conf v) b key w))) \<and>
     (\<forall>credentials conf url body group w. ambient w (snd (sqs_publishers H credentials conf url body group w))) \<and>
     (\<forall>credentials conf cc url. ambient_consumer (sqs_consumers H credentials conf cc url)) \<and>
     (\<forall>path w. ambient w (snd (os_space H path w))) \<and> quiet_curl (os_curl H)"

lemma s3_fetch_ambient:
  assumes "ambient_platform H" "C = make_client (s3_library H) standard opts" "s3_fetch C opts key path w = (r, w')"
  shows "ambient w w'"
proof -
  have "ambient w (snd (download_file C b key path w))" for b key path
    using assms(1,2) by (simp add: ambient_platform_def make_client_def Let_def)
  from this [of "c_str (bucket opts)" "c_str key" "c_str path"] show ?thesis
    using assms(3) by (auto simp: s3_fetch_def split: prod.splits sum.splits)
qed

lemma service_ambient:
  fixes H :: "('c, 'a engine_scheme) platform"
  assumes "ambient_platform H"
  shows "ambient_services (make_service H c)"
proof -
  let ?C = "make_client (s3_library H) (standard_configuration H) (make_store_options c)"
  have "ambient w w'" if "s3_download ?C (make_store_options c) key path w = (r, w')" for key path r and w w' :: "'a engine_scheme"
    using that s3_fetch_ambient [OF assms refl]
    by (auto simp: s3_download_def Let_def dest: create_directories_step [THEN ambient_step]
        intro: ambient_trans split: if_splits prod.splits sum.splits)
  then have d: "ambient w (snd (s3_download ?C (make_store_options c) key path w))" for key path and w :: "'a engine_scheme"
    by (metis prod.collapse)
  have x: "ambient w (snd (s3_exists ?C (make_store_options c) key w))" for key and w :: "'a engine_scheme"
  proof -
    have "ambient w (snd (file_exists ?C b k w))" for b k
      using assms by (simp add: ambient_platform_def make_client_def Let_def)
    from this [of "c_str (bucket (make_store_options c))" "c_str key"] show ?thesis
      by (auto simp: s3_exists_def split: prod.splits sum.splits)
  qed
  have p: "ambient w (snd (sqs_send (make_publisher (sqs_publishers H) (standard_configuration H) opts) url body w))"
    for opts url body and w :: "'a engine_scheme"
  proof -
    have "ambient w (snd (make_publisher (sqs_publishers H) (standard_configuration H) opts u b g w))" for u b g
      using assms by (simp add: ambient_platform_def make_publisher_def Let_def)
    from this [of "c_str url" "c_str body" "''''"] show ?thesis
      by (auto simp: sqs_send_def split: prod.splits sum.splits)
  qed
  have e: "\<exists>L C opts svc hc. E = posix_parts L C opts svc hc \<and> quiet_curl C"
    if "make_engine (os_json H) (os_curl H) c = Some E" for E :: "'a engine_scheme parts"
  proof -
    have "quiet_curl (os_curl H)" using assms by (simp add: ambient_platform_def)
    then show ?thesis using that unfolding make_engine_def by (metis option.inject option.distinct(1))
  qed
  have o: "ambient w (snd (os_space H path w))" for path and w :: "'a engine_scheme"
    using assms by (simp add: ambient_platform_def)
  show ?thesis
    using d x p e o by (simp add: ambient_services_def make_service_def s3_artifact_store_def Let_def)
qed

lemma consume_onward:
  assumes "ambient_services P" "ambient_consumer C" "\<forall>raw \<in> set ms. no_reboot (agent_json P) raw"
    and "consume P C opts ms w = Some (code, w')"
  shows "onward books w w'"
proof -
  have stops: "ambient u (stop_consumer C u)" for u
  proof -
    have "ambient u (snd (stop_consume C u))" "ambient v (consumer_stop C v)" for u v
      using assms(2) by (simp_all add: ambient_consumer_def)
    from ambient_trans [OF this] show ?thesis unfolding stop_consumer_def .
  qed
  obtain x registered w1 where c1: "set_handler C (Some (handle P)) False w = (x, registered, w1)"
    by (metis prod_cases3)
  obtain y w2 where c2: "start_consumer C opts registered w1 = (y, w2)" by fastforce
  have s1: "ambient w w1"
  proof -
    have "ambient w (snd (register_consume_handler C (handle P) w))" using assms(2) by (simp add: ambient_consumer_def)
    then show ?thesis using c1 by (auto simp: set_handler_def split: if_splits prod.splits sum.splits)
  qed
  have s2: "ambient w1 w2"
  proof -
    have "ambient u (snd (consumer_start C u))" "ambient u (snd (start_consume C u))" "ambient u (consumer_stop C u)" for u
      using assms(2) by (simp_all add: ambient_consumer_def)
    note am = this
    obtain p v1 where k1: "consumer_start C w1 = (p, v1)" by fastforce
    obtain q v2 where k2: "start_consume C v1 = (q, v2)" by fastforce
    have "ambient w1 v1" using am(1) [of w1] k1 by simp
    moreover from this have "ambient w1 v2" using am(2) [of v1] k2 ambient_trans by simp
    moreover from this have "ambient w1 (consumer_stop C v2)" using am(3) [of v2] ambient_trans by blast
    moreover have "w2 \<in> {w1, v1, v2, consumer_stop C v2}"
      using c2 k1 k2 by (auto simp: start_consumer_def split: if_splits sum.splits)
    ultimately show ?thesis by auto
  qed
  consider "w' = stop_consumer C w1" | "w' = stop_consumer C w2"
    | rs a w3 where "deliveries P ms new_agent w2 = Some (rs, a, w3)" "w' = stop_consumer C (stop_consumer C w3)"
    using assms(4) c1 c2 by (auto simp: consume_def split: sum.splits option.splits)
  then show ?thesis
  proof cases
    case 3
    have "onward books w w2" using ambient_onward [OF ambient_trans [OF s1 s2]] .
    moreover have "onward books w2 w3" by (rule deliveries_onward [OF assms(1,3) 3(1)])
    moreover have "onward books w3 w'" using 3(2) ambient_onward [OF ambient_trans [OF stops stops]] by simp
    ultimately show ?thesis using onward_trans by blast
  qed (use ambient_onward ambient_trans [OF s1 stops] ambient_trans [OF ambient_trans [OF s1 s2] stops] in auto)
qed

text \<open>
  C1: The whole agent keeps at most one child. From a fresh start, when the agent has resumed the
  active release, consumed any sequence of messages, of any command but a reboot, with any payload
  and whatever fails in them, and been stopped, every child in the process table, running or
  not, is the process of the engine's handle, so there is at most one. The libraries may take any
  time in between. A process an earlier agent left behind and this one adopted is not a child; how
  one can be lost is shown by \<open>EngineExamples.adopt_error_orphans\<close>.
\<close>

theorem agent_single_child:
  assumes "ambient_platform H" "run_agent H c ms w0 = Some (code, w)"
    and "\<forall>raw \<in> set ms. no_reboot (os_json H) raw"
    and "books w0" "engine_handle w0 = None" "\<forall>i p. map_of (procs w0) i = Some p \<longrightarrow> \<not> is_child p"
    and "map_of (procs w) i = Some p" "is_child p"
  shows "\<exists>h. engine_handle w = Some h \<and> handle_id h = i"
proof -
  note a = service_ambient [OF assms(1), of c]
  have json: "agent_json (make_service H c) = os_json H" by (simp add: make_service_def)
  have "onward books w0 w"
  proof (cases "validate_required c")
    case (Inl e)
    then show ?thesis using assms(2) by (simp add: run_agent_def)
  next
    case (Inr u)
    let ?P = "make_service H c" and ?o = "make_queue_options c"
    let ?C = "make_consumer (sqs_consumers H) (standard_configuration H) ?o"
    let ?w1 = "case agent_deployment ?P of None \<Rightarrow> w0 | Some E \<Rightarrow> snd (start_active E w0)"
    have "onward books w0 (snd (start_active E w0))" if "agent_deployment ?P = Some E" for E
      using engine_onward [OF a that starting [OF assms(5)]] by (metis prod.collapse)
    then have "onward books w0 ?w1" by (simp split: option.split)
    moreover have "ambient_consumer ?C"
      using assms(1) by (simp add: ambient_platform_def make_consumer_def Let_def)
    moreover have "consume ?P ?C ?o ms ?w1 = Some (code, w)"
      using assms(2) Inr by (simp add: run_agent_def Let_def)
    ultimately have "onward books ?w1 w"
      using consume_onward [OF a, of ?C ms ?o ?w1 code w] assms(3) json by simp
    then show ?thesis using \<open>onward books w0 ?w1\<close> onward_trans by blast
  qed
  then show ?thesis using single_child assms(4,6-8) by blast
qed

lemma validate_port:
  "validate_configuration E (c\<lparr>cfg_health_port := x\<rparr>) = (validate_configuration E c)\<lparr>cfg_health_port := x\<rparr>"
  by (simp add: validate_configuration_def validate_places_def validate_values_def Let_def)

text \<open>
  C39: A health port above 65535 is accepted and silently probes another port: the configuration
  corrects every other number, but the port is cut to 16 bits only when the agent uses it. So a
  configuration with the port \<open>65536 * k + p\<close> passes every check the one with port \<open>p\<close> passes, and
  the agent probes \<open>p\<close>.
\<close>

theorem health_port_wraps:
  "validate_required (validate_configuration E (c\<lparr>cfg_health_port := 65536 * k + p\<rparr>)) =
     validate_required (validate_configuration E (c\<lparr>cfg_health_port := p\<rparr>)) \<and>
   make_health_spec (validate_configuration E (c\<lparr>cfg_health_port := 65536 * k + p\<rparr>)) =
     make_health_spec (validate_configuration E (c\<lparr>cfg_health_port := p\<rparr>))"
proof -
  have "(word_of_int (65536 * k + p) :: 16 word) = word_of_int p" by (subst word_of_int_eq_iff) (simp add: take_bit_eq_mod)
  then show ?thesis unfolding validate_port by (simp add: validate_required_def make_health_spec_def)
qed

end
