(* ===== verification/EngineRecovery.thy ===== *)
theory EngineRecovery
  imports EngineDisk
begin

text \<open>
  What the engine does when things go wrong: a deployment that fails brings the old release back,
  readiness is reported only after enough successful probes in a row, and a restarted agent takes
  over exactly the process it recorded.
\<close>

section \<open>Rolling a failed deployment back\<close>

lemma stored_state_lookup:
  fixes w w' :: "'a machine_scheme"
  assumes "at w' = at w"
    and "lookup (files w') (root_at w opts @ [''state.json'']) = lookup (files w) (root_at w opts @ [''state.json''])"
  shows "stored_state L opts w' = stored_state L opts w"
proof -
  have a: "at (u\<lparr>faults := []\<rparr>) p = at u p" for u :: "'a machine_scheme" and p by (simp add: at_def)
  note defs = stored_state_def installer_state_def fs_exists_def fs_read_def take_fault_none a
  show ?thesis
  proof (cases "lookup (files w) (root_at w opts @ [''state.json''])")
    case None
    then show ?thesis using assms by (simp add: defs)
  next
    case (Some n)
    then show ?thesis
      using assms by (cases n) (auto simp: defs split: sum.splits json.splits)
  qed
qed

lemma spares_stored:
  assumes "spares R w w'" "\<not> R (root_at w opts @ [''state.json''])"
  shows "stored_state L opts w' = stored_state L opts w"
proof -
  have "at w' = at w" using spares_at [OF assms(1)] by (rule ext)
  then show ?thesis by (rule stored_state_lookup) (rule spares_lookup [OF assms])
qed

lemma remove_file_succeeds:
  assumes "faults w = []" "wf_tree (files w)" "free_or_file (files w) p"
  shows "fst (fs_remove p w) = Inr ()"
proof -
  have d: "lookup (files w) p \<noteq> Some Directory" using assms(3) by (auto simp: free_or_file_def)
  have "\<not> has_children (files w) p"
    unfolding has_children_lookup [OF assms(2)] by (auto dest: wf_tree_below [OF assms(2) d])
  then show ?thesis using assms(1) by (simp add: fs_remove_def take_fault_none)
qed

text \<open>
  Without I/O errors only the supervisor can refuse to stop, and then the handle is kept:
  \<open>unstopped\<close> says that the call of the supervisor's \<open>stop\<close> that ended in this world failed with
  this message.
\<close>

definition unstopped :: "service_spec \<Rightarrow> string \<Rightarrow> 'a engine_scheme \<Rightarrow> bool" where
  "unstopped svc d w' \<longleftrightarrow>
     (\<exists>h u. engine_handle u = Some h \<and> stop h (stop_timeout svc) u = (Inl d, w') \<and> engine_handle w' = Some h)"

lemma engine_stop_refused:
  assumes "engine_stop (posix_parts L C opts svc hc) w = (Inl e, w')"
    and "faults w = []" "wf_tree (files w)" "free_or_file (files w) (root_at w opts @ [''runtime.json''])"
  shows "unstopped svc e w'"
proof (cases "engine_handle w")
  case None
  then show ?thesis using assms(1) by (simp add: engine_stop_def)
next
  case (Some h)
  obtain u w1 where s: "stop h (stop_timeout svc) w = (u, w1)" by fastforce
  note ev = stop_evolves [OF s]
  show ?thesis
  proof (cases u)
    case (Inl x)
    then have "w' = w1" "x = e" using assms(1) Some s by (simp_all add: engine_stop_def posix_supervisor_def)
    then show ?thesis unfolding unstopped_def using evolves_handle [OF ev] Some s Inl
      by (intro exI [of _ h] exI [of _ w]) simp
  next
    case (Inr x)
    let ?w2 = "w1\<lparr>engine_handle := None\<rparr>"
    have c: "clear_record opts ?w2 = (Inl e, w')"
      using assms(1) Some s Inr by (simp add: engine_stop_def posix_supervisor_def)
    have "faults ?w2 = []" "files ?w2 = files w" "at ?w2 = at w"
      using ev assms(2) by (auto simp: evolves_def at_def)
    then have "fst (fs_remove (at ?w2 (record_path opts)) ?w2) = Inr ()"
      using remove_file_succeeds [of ?w2] assms(3,4) by simp
    then show ?thesis using c by (auto simp: clear_record_def split: prod.splits sum.splits)
  qed
qed

definition recoverable ::
    "json_lib \<Rightarrow> install_options \<Rightarrow> activation_state \<Rightarrow> 'a machine_scheme \<Rightarrow> bool" where
  "recoverable L opts s w \<longleftrightarrow>
     rollback_ready opts s w \<and> stored_state L opts w = Inr s \<and> plain_state s \<and>
     free_or_file (files w) (root_at w opts @ [''runtime.json''])"

lemma recover_restores:
  assumes "recover (posix_parts L C opts svc hc) why w = (r, w')" "recoverable L opts s w" "boost_json L"
  shows "\<exists>s'. stored_state L opts w' = Inr s' \<and>
    (active s' = previous s \<or>
     active s' = active s \<and>
       (\<exists>d. r = Inl (why @ ''; and the failed release did not stop: '' @ d) \<and> unstopped svc d w'))"
proof -
  let ?E = "posix_parts L C opts svc hc"
  have rec: "rollback_ready opts s w" "stored_state L opts w = Inr s" "plain_state s"
    "free_or_file (files w) (root_at w opts @ [''runtime.json''])" "faults w = []" "wf_tree (files w)"
    using assms(2) by (simp_all add: recoverable_def rollback_ready_def)
  obtain x w1 where c1: "engine_stop ?E w = (x, w1)" by fastforce
  note s1 = engine_stop_spares [OF c1]
  have st1: "stored_state L opts w1 = Inr s" using spares_stored [OF s1 regions_state(1)] rec(2) by simp
  show ?thesis
  proof (cases x)
    case (Inl e)
    then have "w' = w1" "r = Inl (why @ ''; and the failed release did not stop: '' @ e)"
      using assms(1) c1 by (simp_all add: recover_def)
    moreover have "unstopped svc e w1" using engine_stop_refused [OF _ rec(5,6,4)] c1 Inl by blast
    ultimately show ?thesis using st1 by blast
  next
    case (Inr u)
    have "\<not> record_region (root_at w opts) (root_at w opts @ q)"
      if "q = [''state.json''] \<or> q = [''state.json.tmp''] \<or> q = [''releases'', i]" for q i
      using that by (auto simp: record_region_def)
    then have "rollback_ready opts s w1"
      using rec(1) s1 spares_at [OF s1] spares_lookup [OF s1] by (simp add: rollback_ready_def spares_def free_or_file_def)
    then obtain w2 where rb: "rollback L opts w1 = (Inr (previous s), w2)"
      "stored_state L opts w2 = Inr (swapped s (utc_now w1))" "rollback_ready opts (swapped s (utc_now w1)) w2"
      using rollback_once [OF assms(3) _ st1 rec(3)] by blast
    obtain z w3 where c3: "launch ?E (previous s) w2 = (z, w3)" by fastforce
    have v: "install_validate_release_id (previous s) = Inr ()" using rec(1) by (simp add: rollback_ready_def)
    have "stored_state L opts w3 = Inr (swapped s (utc_now w1))"
      using spares_stored [OF launch_spares [OF c3 v] regions_state(2)] rb(2) by simp
    moreover have "w' = w3 \<or> (\<exists>d. w' = set_detail d w3)"
      using assms(1) c1 Inr rb(1) c3 by (auto simp: recover_def Let_def split: sum.splits)
    moreover have "stored_state L opts (set_detail d w3) = stored_state L opts w3" for d
      by (rule stored_state_lookup) (simp_all add: set_detail_def at_def fun_eq_iff)
    ultimately show ?thesis by (auto simp: swapped_def)
  qed
qed
text \<open>What a deployment needs of the disk and of the release that runs so far.\<close>

definition deployable ::
    "json_lib \<Rightarrow> install_options \<Rightarrow> activation_state \<Rightarrow> 'a machine_scheme \<Rightarrow> bool" where
  "deployable L opts s w \<longleftrightarrow>
     faults w = [] \<and> wf_tree (files w) \<and> stored_state L opts w = Inr s \<and> plain_state s \<and>
     free_or_file (files w) (root_at w opts @ [''runtime.json'']) \<and>
     install_validate_release_id (active s) = Inr () \<and>
     lookup (files w) (releases_at w opts @ [active s]) = Some Directory"

lemma deployable_spares:
  assumes "deployable L opts s w" "spares R w w'" "\<not> R (root_at w opts @ [''state.json''])"
    and "R (root_at w opts @ [''runtime.json'']) \<Longrightarrow> free_or_file (files w') (root_at w opts @ [''runtime.json''])"
    and "\<not> R (releases_at w opts @ [active s])"
  shows "deployable L opts s w'"
proof -
  have "free_or_file (files w') (root_at w opts @ [''runtime.json''])"
    using assms(1,4) spares_lookup [OF assms(2)] by (cases "R (root_at w opts @ [''runtime.json''])")
      (auto simp: deployable_def free_or_file_def)
  then show ?thesis
    using assms(1,2) spares_stored [OF assms(2,3)] spares_lookup [OF assms(2,5)] spares_at [OF assms(2)]
    by (simp add: deployable_def spares_def)
qed

lemma regions_release:
  "\<not> record_region root (root @ [''releases'', i])"
  "i \<noteq> j \<Longrightarrow> \<not> launch_region root j (root @ [''releases'', i])"
  "i \<noteq> j \<Longrightarrow> \<not> is_internal_name i \<Longrightarrow> \<not> install_region (root @ [''releases'']) j (root @ [''releases'', i])"
  "\<not> activation_region root (root @ [''releases'', i])" "\<not> activation_region root (root @ [''runtime.json''])"
  "\<not> install_region (root @ [''releases'']) j (root @ [''runtime.json''])"
  by (auto simp: record_region_def launch_region_def install_region_def activation_region_def state_region_def
      is_internal_name_def starts_with_append)

lemma clear_record_free:
  assumes "clear_record opts w = (x, w')" "free_or_file (files w) (root_at w opts @ [''runtime.json''])"
  shows "free_or_file (files w') (root_at w opts @ [''runtime.json''])"
proof -
  let ?P = "root_at w opts @ [''runtime.json'']"
  obtain y w1 where r: "fs_remove ?P w = (y, w1)" by fastforce
  obtain f w0 where t: "take_fault w = (f, w0)" by fastforce
  have "files w1 = files w \<or> files w1 = drop_tree [] ?P (files w)"
    using r t reads_files [OF take_fault_reads [OF t]] by (auto simp: fs_remove_def split: option.splits if_splits)
  then have "free_or_file (files w1) ?P"
    using assms(2) by (auto simp: free_or_file_def lookup_drop_tree)
  moreover have "w' = w1" using assms(1) r by (auto simp: clear_record_def split: sum.splits)
  ultimately show ?thesis by simp
qed

lemma engine_stop_free:
  assumes "engine_stop (posix_parts L C opts svc hc) w = (r, w')"
    and "free_or_file (files w) (root_at w opts @ [''runtime.json''])"
  shows "free_or_file (files w') (root_at w opts @ [''runtime.json''])"
proof (cases "engine_handle w")
  case None
  then show ?thesis using assms by (simp add: engine_stop_def)
next
  case (Some h)
  obtain u w1 where s: "stop h (stop_timeout svc) w = (u, w1)" by fastforce
  have f: "files w1 = files w" "cwd w1 = cwd w" using stop_evolves [OF s] by (auto simp: evolves_def)
  have "free_or_file (files v) (root_at w opts @ [''runtime.json''])"
    if c: "clear_record opts (w1\<lparr>engine_handle := None\<rparr>) = (x, v)" for x v
    using clear_record_free [OF c] f assms(2) by (simp add: at_def)
  then show ?thesis
    using assms Some s f by (auto simp: engine_stop_def posix_supervisor_def split: sum.splits)
qed

lemma launch_free:
  assumes "launch (posix_parts L C opts svc hc) release_id w = (r, w')"
    and "install_validate_release_id release_id = Inr ()"
    and "free_or_file (files w) (root_at w opts @ [''runtime.json''])"
  shows "free_or_file (files w') (root_at w opts @ [''runtime.json''])"
proof -
  let ?P = "root_at w opts @ [''runtime.json'']"
  have e: "\<not> exec_region w opts release_id ?P" by (simp add: exec_region_def prefix_def)
  show ?thesis using assms(1,2)
  proof (cases rule: launch_cases)
    case (early err)
    then show ?thesis using spares_lookup [OF early(2) e] assms(3) by (simp add: free_or_file_def)
  next
    case (unknown_boot h err)
    then show ?thesis using spares_lookup [OF unknown_boot(3) e] assms(3) by (simp add: free_or_file_def)
  next
    case (recorded h ident w4 x)
    have "at w4 = at w" using spares_at [OF recorded(1)] by (rule ext)
    then show ?thesis
      using write_record_effect(2) [OF recorded(3)] spares_lookup [OF recorded(1) e] assms(3)
      by (cases x) (auto simp: free_or_file_def)
  qed
qed

lemma activate_recoverable:
  assumes "activate L opts release_id w = (Inr (), w')" "deployable L opts s w" "boost_json L"
    and "release_id \<noteq> active s" "plain_text release_id"
  shows "recoverable L opts (next_activation release_id s (utc_now w)) w'"
    "install_validate_release_id release_id = Inr ()"
proof -
  let ?n = "next_activation release_id s (utc_now w)"
  have d: "faults w = []" "wf_tree (files w)" "stored_state L opts w = Inr s" "plain_state s"
    "free_or_file (files w) (root_at w opts @ [''runtime.json''])"
    "install_validate_release_id (active s) = Inr ()"
    "lookup (files w) (releases_at w opts @ [active s]) = Some Directory"
    using assms(2) by (simp_all add: deployable_def)
  show ok: "install_validate_release_id release_id = Inr ()"
    using assms(1) by (auto simp: activate_def split: sum.splits)
  have dir: "fs_is_directory (at w (release_directory opts release_id)) w =
      (lookup (files w) (releases_at w opts @ [release_id]) = Some Directory, w)"
    using d(1) at_release(1) [OF ok, of w opts] by (simp add: fs_is_directory_def take_fault_none)
  have i: "installer_state L opts w = (Inr s, w)" using installer_state_calm [OF d(1)] d(3) by simp
  obtain x w3 where w: "write_state L opts ?n w = (x, w3)" by fastforce
  have x: "x = Inr ()" "w' = refresh_current_link opts release_id w3"
    "lookup (files w) (releases_at w opts @ [release_id]) = Some Directory"
    using assms(1) ok dir i w by (auto simp: activate_def Let_def next_activation_def split: bool.splits sum.splits)
  note sp = activate_effect(1) [OF assms(1)]
  have at': "at w' p = at w p" for p by (rule spares_at [OF sp])
  have plain: "plain_state ?n"
    using d(4) assms(5) by (simp add: plain_state_def next_activation_def utc_now_def)
  obtain m where m: "lookup (files w') (root_at w opts @ [''state.json'']) = Some (File (state_text L ?n) m)"
    using write_then_link [OF w, of w' release_id] x by auto
  have tmp: "free_or_file (files w') (root_at w opts @ [''state.json.tmp''])"
    using write_state_tmp [OF w [unfolded x(1)]]
      step_in_lookup [OF refresh_current_link_step, of w3 opts "root_at w opts @ [''state.json.tmp'']" release_id]
      step_in_at [OF write_state_step [OF w]] x(2)
    by (simp add: free_or_file_def)
  have "rollback_ready opts ?n w'"
    using sp d x(3) ok tmp m at' spares_lookup [OF sp regions_release(4)] assms(4)
    by (simp add: rollback_ready_def next_activation_def spares_def)
  moreover have "stored_state L opts w' = Inr ?n"
    using stored_state_file [OF assms(3) plain, of w' opts m] m at' by simp
  moreover have "free_or_file (files w') (root_at w' opts @ [''runtime.json''])"
    using d(5) at' spares_lookup [OF sp regions_release(5)] by (simp add: free_or_file_def)
  ultimately show "recoverable L opts ?n w'" using plain by (simp add: recoverable_def)
qed

lemma recoverable_spares:
  assumes "recoverable L opts s w" "spares R w w'"
    and "\<not> R (root_at w opts @ [''state.json''])" "\<not> R (root_at w opts @ [''state.json.tmp''])"
    and "\<And>i. i \<in> {active s, previous s} \<Longrightarrow> \<not> R (root_at w opts @ [''releases'', i])"
    and "free_or_file (files w') (root_at w opts @ [''runtime.json''])"
  shows "recoverable L opts s w'"
proof -
  have at': "at w' p = at w p" for p by (rule spares_at [OF assms(2)])
  note l = spares_lookup [OF assms(2)]
  have "rollback_ready opts s w'"
    using assms(1,2) l [OF assms(3)] l [OF assms(4)] l [OF assms(5)] at'
    by (simp add: recoverable_def rollback_ready_def spares_def free_or_file_def)
  then show ?thesis
    using assms(1,6) spares_stored [OF assms(2,3)] at' by (simp add: recoverable_def)
qed

lemma launch_recoverable:
  assumes "launch (posix_parts L C opts svc hc) release_id w = (r, w')" "recoverable L opts s w"
    and "install_validate_release_id release_id = Inr ()"
  shows "recoverable L opts s w'"
proof -
  let ?R = "\<lambda>q. exec_region w opts release_id q \<or> record_region (root_at w opts) q"
  have dirs: "lookup (files w) (root_at w opts @ [''releases'', i]) = Some Directory"
    if "i \<in> {active s, previous s}" for i
    using assms(2) that by (auto simp: recoverable_def rollback_ready_def)
  have sp: "spares ?R w w'"
    using assms(1,3)
  proof (cases rule: launch_cases)
    case (early e)
    show ?thesis by (rule spares_mono [OF early(2)]) simp
  next
    case (unknown_boot h e)
    show ?thesis by (rule spares_mono [OF unknown_boot(3)]) simp
  next
    case (recorded h ident w4 x)
    have "spares ?R w w4" by (rule spares_mono [OF recorded(1)]) simp
    then show ?thesis
      by (rule spares_then [where F = record_region, OF _ write_record_spares [OF recorded(3)]]) simp
  qed
  show ?thesis
  proof (rule recoverable_spares [OF assms(2) sp])
    show "\<not> ?R (root_at w opts @ [''releases'', i])" if "i \<in> {active s, previous s}" for i
      using dirs [OF that] by (auto simp: exec_region_def record_region_def)
    show "free_or_file (files w') (root_at w opts @ [''runtime.json''])"
      using launch_free [OF assms(1,3)] assms(2) by (simp add: recoverable_def)
  qed (auto simp: exec_region_def record_region_def)
qed

lemma set_detail_stored [simp]: "stored_state L opts (set_detail d w) = stored_state L opts w"
  by (rule stored_state_lookup) (simp_all add: set_detail_def at_def fun_eq_iff)

text \<open>Starting the active release again, in whatever way it goes, leaves \<open>state.json\<close> alone.\<close>

lemma read_record_spares:
  assumes "read_record L opts w = (r, w')"
  shows "spares (record_region (root_at w opts)) w w'"
proof -
  let ?R = "record_region (root_at w opts)"
  obtain b w1 where e: "fs_exists (at w (record_path opts)) w = (b, w1)" by fastforce
  obtain x w2 where rd: "fs_read (at w1 (record_path opts)) w1 = (x, w2)" by fastforce
  have s1: "spares ?R w w1" using reads_spares [OF exists_reads [OF e]] exists_calm [OF e] by blast
  have s2: "spares ?R w w2"
    using spares_trans [OF s1 reads_spares [OF read_reads [OF rd]]] read_calm [OF rd] by blast
  have un: "spares ?R w v" if u: "unreadable_record opts why w2 = (y, v)" for why y v
  proof -
    obtain z v1 where c: "clear_record opts (set_detail why w2) = (z, v1)" by fastforce
    have "v = v1" using u c by (auto simp: unreadable_record_def split: sum.splits)
    then show ?thesis
      using spares_then [where F = record_region, OF spares_trans [OF s2 spares_client(1)] clear_record_spares [OF c]]
      by simp
  qed
  show ?thesis
    using assms e rd s1 s2 un
    by (auto simp: read_record_def split: bool.splits option.splits sum.splits json.splits)
qed

lemma resume_spares:
  assumes "resume (posix_parts L C opts svc hc) release_id w = (r, w')"
  shows "spares (record_region (root_at w opts)) w w'"
proof -
  let ?R = "record_region (root_at w opts)" and ?E = "posix_parts L C opts svc hc"
  obtain x w1 where rr: "read_record L opts w = (x, w1)" by fastforce
  note s1 = read_record_spares [OF rr]
  obtain y w2 where bi: "boot_identity w1 = (y, w2)" by fastforce
  note s2 = spares_trans [OF s1 boot_identity_spares [OF bi]]
  let ?h = "\<lparr>handle_id = record_process (projr x), start_token = record_token (projr x)\<rparr>"
  obtain z w3 where ad: "adopt ?h w2 = (z, w3)" by fastforce
  note s3 = spares_trans [OF s2 spares_evolves [OF adopt_evolves [OF ad]]]
  have clr: "spares ?R w v" if "spares ?R w u" "clear_record opts (set_detail d u) = (q, v)" for u v q d
    using spares_then [where F = record_region, OF spares_trans [OF that(1) spares_client(1)] clear_record_spares [OF that(2)]]
    by simp
  have det: "spares ?R w (set_detail d u)" if "spares ?R w u" for u d
    by (rule spares_trans [OF that spares_client(1)])
  have s4: "spares ?R w (w3\<lparr>engine_handle := Some h\<rparr>)" for h
    by (rule spares_trans [OF s3 spares_client(2)])
  have stp: "spares ?R w v" if "engine_stop ?E (w3\<lparr>engine_handle := Some h\<rparr>) = (q, v)" for h q v
    using spares_then [where F = record_region, OF s4 engine_stop_spares [OF that]] by simp
  show ?thesis
    using assms rr bi ad s1 s2 s3 clr [OF s2] clr [OF s3] det s4 stp
    by (auto simp: resume_def Let_def posix_supervisor_def split: sum.splits if_splits prod.splits)
qed

lemma start_active_state:
  assumes "start_active (posix_parts L C opts svc hc) w = (r, w')" "deployable L opts s w"
  shows "stored_state L opts w' = Inr s"
proof -
  let ?E = "posix_parts L C opts svc hc"
  have d: "installer_state L opts w = (Inr s, w)" "stored_state L opts w = Inr s"
    "install_validate_release_id (active s) = Inr ()"
    using assms(2) installer_state_calm [of w L opts] by (simp_all add: deployable_def)
  then have "active s \<noteq> ''''" by (auto simp: install_validate_release_id_def)
  obtain y w1 where rs: "resume ?E (active s) w = (y, w1)" by fastforce
  have s1: "stored_state L opts w1 = Inr s"
    using spares_stored [OF resume_spares [OF rs] regions_state(1)] d(2) by simp
  obtain z w2 where l: "launch ?E (active s) w1 = (z, w2)" by fastforce
  have s2: "stored_state L opts w2 = Inr s"
    using spares_stored [OF launch_spares [OF l d(3)] regions_state(2)] s1 by simp
  show ?thesis
    using assms(1) d(1) \<open>active s \<noteq> ''''\<close> rs l s1 s2
    by (auto simp: start_active_def split: sum.splits if_splits)
qed

lemma switch_over_restores:
  assumes "switch_over (posix_parts L C opts svc hc) release_id w = Some (Inl e, w')"
    and "deployable L opts s w" "boost_json L" "quiet_curl C"
    and "release_id \<noteq> active s" "plain_text release_id"
  shows "\<exists>s'. stored_state L opts w' = Inr s' \<and>
    (active s' = active s \<or>
     active s' = release_id \<and>
       (\<exists>why d. e = why @ ''; and the failed release did not stop: '' @ d \<and> unstopped svc d w'))"
proof -
  let ?E = "posix_parts L C opts svc hc"
  obtain x1 w1 where c1: "activate L opts release_id w = (x1, w1)" by fastforce
  note sp1 = activate_effect(1) [OF c1]
  show ?thesis
  proof (cases x1)
    case (Inl err)
    have at1: "at w1 = at w" using spares_at [OF sp1] by (rule ext)
    have f1: "lookup (files w1) (root_at w opts @ [''state.json'']) = lookup (files w) (root_at w opts @ [''state.json''])"
      using activate_effect(2) [OF c1] Inl by simp
    have "deployable L opts s w1"
      using assms(2) at1 stored_state_lookup [OF at1 f1] sp1 spares_lookup [OF sp1 regions_release(4)]
        spares_lookup [OF sp1 regions_release(5)]
      by (simp add: deployable_def spares_def free_or_file_def)
    moreover obtain q w2 where st: "start_active ?E w1 = (q, w2)" by fastforce
    ultimately have "stored_state L opts w2 = Inr s" by (blast intro: start_active_state)
    then show ?thesis using assms(1) c1 Inl st by (auto simp: switch_over_def)
  next
    case (Inr u)
    let ?n = "next_activation release_id s (utc_now w)"
    have n: "active ?n = release_id" "previous ?n = active s"
      using assms(5) by (auto simp: next_activation_def)
    note r1 = activate_recoverable [OF c1 [unfolded Inr, simplified] assms(2,3,5,6)]
    obtain x2 w2 where c2: "launch ?E release_id w1 = (x2, w2)" by fastforce
    have r2: "recoverable L opts ?n w2" by (rule launch_recoverable [OF c2 r1])
    have rec: ?thesis if "recover ?E why v = (Inl e, w')" "recoverable L opts ?n v" for why v
      using recover_restores [OF that assms(3)] n by auto
    show ?thesis
    proof (cases x2)
      case (Inl err)
      then show ?thesis using assms(1) c1 Inr c2 rec [OF _ r2] by (simp add: switch_over_def)
    next
      case r: (Inr u')
      obtain x3 w3 where c3: "await_ready ?E w2 = Some (x3, w3)"
        using assms(1) c1 Inr c2 r by (cases "await_ready ?E w2") (auto simp: switch_over_def)
      have sp3: "spares (\<lambda>_. False) w2 w3" using await_ready_spares [OF c3 assms(4)] by blast
      have "recoverable L opts ?n w3"
        by (rule recoverable_spares [OF r2 sp3])
          (use r2 spares_lookup [OF sp3] in \<open>auto simp: recoverable_def free_or_file_def\<close>)
      then show ?thesis
        using assms(1) c1 Inr c2 r c3 rec by (cases x3) (auto simp: switch_over_def split: prod.splits)
    qed
  qed
qed

text \<open>
  C2: A failed deployment brings the old release back. Without I/O errors, when a release is active
  and installed and another one is deployed: if \<open>apply\<close> reports an error, \<open>state.json\<close> afterwards
  reads back with the old release active again, wherever the deployment failed: while copying,
  activating, starting or waiting for readiness. The one exception is that the new release could
  not be stopped any more before the rollback: then the last thing \<open>apply\<close> did is a call of the
  supervisor's \<open>stop\<close> that failed, the error says so, the new release stays active and the engine
  keeps the handle of its process.
\<close>

theorem failed_apply_restores:
  assumes "deploy_apply (posix_parts L C opts svc hc) release_id source_directory w = Some (Inl e, w')"
    and "boost_json L" "quiet_curl C" "faults w = []" "wf_tree (files w)"
    and "stored_state L opts w = Inr s" "plain_state s" "plain_text release_id" "release_id \<noteq> active s"
    and "install_validate_release_id (active s) = Inr ()"
    and "lookup (files w) (releases_at w opts @ [active s]) = Some Directory"
    and "free_or_file (files w) (root_at w opts @ [''runtime.json''])"
  shows "\<exists>s'. stored_state L opts w' = Inr s' \<and>
    (active s' = active s \<or>
     active s' = release_id \<and>
       (\<exists>why d h u. e = why @ ''; and the failed release did not stop: '' @ d \<and>
          engine_handle u = Some h \<and> stop h (stop_timeout svc) u = (Inl d, w') \<and>
          engine_handle w' = Some h))"
proof (cases "is_ok (validate_service_executable svc)")
  case False
  then have "w' = w" using assms(1) by (auto simp: deploy_apply_def split: sum.splits)
  then show ?thesis using assms(6) by blast
next
  case True
  let ?E = "posix_parts L C opts svc hc"
  have d: "deployable L opts s w" using assms by (simp add: deployable_def)
  obtain x1 w1 where c1: "install opts release_id source_directory w = (x1, w1)" by fastforce
  note s1 = install_spares [OF c1]
  have d1: "deployable L opts s w1"
    by (rule deployable_spares [OF d s1 regions_state(3)])
      (use assms(9) accepted_id(2) [OF assms(10)] regions_release(3,6) in auto)
  obtain x2 w2 where c2: "installer_state L opts w1 = (x2, w2)" by fastforce
  have w2: "w2 = w1" "x2 = Inr s"
    using installer_state_calm [of w1 L opts] d1 c2 by (auto simp: deployable_def)
  obtain x3 w3 where c3: "engine_stop ?E w1 = (x3, w3)" by fastforce
  have d3: "deployable L opts s w3"
    by (rule deployable_spares [OF d1 engine_stop_spares [OF c3] regions_state(1)])
      (use engine_stop_free [OF c3] d1 regions_release(1) in \<open>auto simp: deployable_def\<close>)
  have go: "validate_service_executable svc = Inr ()" using True by (cases "validate_service_executable svc") auto
  show ?thesis
  proof (cases "is_ok x1 \<and> is_ok x3")
    case True
    then have "switch_over ?E release_id w3 = Some (Inl e, w')"
      using assms(1) go c1 c2 w2 c3 by (cases x1; cases x3) (auto simp: deploy_apply_def)
    note switch_over_restores [OF this d3 assms(2,3,9,8)]
    then show ?thesis unfolding unstopped_def by blast
  next
    case False
    then have "w' = w1 \<or> w' = w3"
      using assms(1) go c1 c2 w2 c3 by (cases x1; cases x3) (auto simp: deploy_apply_def)
    then show ?thesis using d1 d3 by (auto simp: deployable_def)
  qed
qed

section \<open>Readiness is earned\<close>

text \<open>The probes of one wait, a sleep between each two of them.\<close>

inductive probing :: "'a os_scheme probe \<Rightarrow> int \<Rightarrow> 'a os_scheme \<Rightarrow> unit expected list \<Rightarrow> 'a os_scheme \<Rightarrow> bool"
  for probe iv w where
  first_probe: "probe w = (r, w') \<Longrightarrow> probing probe iv w [r] w'"
| next_probe: "probing probe iv w rs w1 \<Longrightarrow> probe (os_sleep iv w1) = (r, w') \<Longrightarrow> probing probe iv w (rs @ [r]) w'"

inductive_cases probing_NilE: "probing probe iv w [] w'"

text \<open>The loop is about to probe in \<open>u\<close> with the results \<open>rs\<close> behind it.\<close>

definition midway ::
    "'a os_scheme probe \<Rightarrow> health_spec \<Rightarrow> 'a os_scheme \<Rightarrow> checker \<Rightarrow> 'a os_scheme \<Rightarrow> bool" where
  "midway probe s w c u \<longleftrightarrow>
     (\<exists>rs. counts s rs c \<and> health c \<noteq> Healthy \<and>
        (rs = [] \<and> u = w \<or> (\<exists>v. probing probe (interval s) w rs v \<and> u = os_sleep (interval s) v)))"

definition earned :: "'a os_scheme probe \<Rightarrow> health_spec \<Rightarrow> 'a os_scheme \<Rightarrow> 'a os_scheme \<Rightarrow> bool" where
  "earned probe s w w' \<longleftrightarrow>
     (\<exists>rs bs. probing probe (interval s) w (rs @ bs) w' \<and> list_all is_ok bs \<and>
        length bs = nat (max 1 (success_threshold s)))"

lemma midway_step:
  assumes "midway probe s w c u" "evaluate (Some probe) c u = (c1, u1)"
  shows "if health c1 = Healthy then earned probe s w u1
    else midway probe s w c1 (os_sleep (interval (spec c1)) u1)"
proof -
  obtain rs where rs: "counts s rs c" "health c \<noteq> Healthy"
    "rs = [] \<and> u = w \<or> (\<exists>v. probing probe (interval s) w rs v \<and> u = os_sleep (interval s) v)"
    using assms(1) by (auto simp: midway_def)
  obtain r where r: "probe u = (r, u1)" "c1 = observe r c"
    using assms(2) by (auto simp: evaluate_def observe_def split: prod.splits sum.splits)
  have p: "probing probe (interval s) w (rs @ [r]) u1"
    using rs(3) r(1) by (auto intro: probing.intros)
  have n: "counts s (rs @ [r]) c1" using counts_step [OF rs(1)] r(2) by simp
  have sp: "spec c1 = spec (health_checker s)" "interval (spec c1) = interval s"
    using n by (simp_all add: counts_def health_checker_def)
  show ?thesis
  proof (cases "health c1 = Healthy")
    case False
    then show ?thesis using p n sp(2) by (auto simp: midway_def)
  next
    case True
    then have "success_threshold (spec c) \<le> consecutive_successes c1"
      using r(2) rs(2) by (auto simp: observe_def note_success_def note_failure_def Let_def split: sum.splits if_splits)
    moreover have "spec c = spec c1" using rs(1) n by (simp add: counts_def)
    ultimately have "nat (max 1 (success_threshold s)) \<le> trailing is_ok (rs @ [r])"
      using n by (simp add: counts_def health_checker_def split: if_splits)
    then obtain as bs where "rs @ [r] = as @ bs" "length bs = nat (max 1 (success_threshold s))" "list_all is_ok bs"
      unfolding trailing_run by blast
    then have "earned probe s w u1"
      unfolding earned_def using p by (intro exI [of _ as] exI [of _ bs]) simp
    then show ?thesis using True by simp
  qed
qed

lemma ready_loop_earned:
  assumes "ready_loop probe deadline span c u = Some (Inr (), w')" "midway probe s w c u"
  shows "earned probe s w w'"
proof -
  have "p = probe \<longrightarrow> midway probe s w c u \<longrightarrow> fst y = Inr () \<longrightarrow> earned probe s w (snd y)"
    if loop: "ready_loop p d sp c u = Some y" for p d sp c u y
  proof (rule ready_loop.raw_induct [OF _ loop])
    fix loop p d sp c u y
    assume IH: "\<And>p d sp c u y. loop p d sp c u = Some y \<Longrightarrow>
        p = probe \<longrightarrow> midway probe s w c u \<longrightarrow> fst y = Inr () \<longrightarrow> earned probe s w (snd y)"
      and run: "(if steady u < d then
        (case evaluate (Some p) c u of
           (c1, w1) \<Rightarrow>
             if health c1 = Healthy then Some (Inr (), w1)
             else if health c1 = Unhealthy then
               Some (Inl (case last_error c1 of Some e \<Rightarrow> e | None \<Rightarrow> ''health check failed''), w1)
             else loop p d sp c1 (os_sleep (interval (spec c1)) w1))
      else
        Some (Inl (''readiness not confirmed within '' @ sp @ ''s: '' @
                   (case last_error c of Some e \<Rightarrow> e | None \<Rightarrow> ''no successful probe'')), u)) = Some y"
    show "p = probe \<longrightarrow> midway probe s w c u \<longrightarrow> fst y = Inr () \<longrightarrow> earned probe s w (snd y)"
    proof (intro impI)
      assume p: "p = probe" and m: "midway probe s w c u" and y: "fst y = Inr ()"
      obtain c1 w1 where e: "evaluate (Some probe) c u = (c1, w1)" by fastforce
      show "earned probe s w (snd y)"
        using run p e y midway_step [OF m e] IH [of p d sp c1 "os_sleep (interval (spec c1)) w1" y]
        by (auto split: if_splits)
    qed
  qed
  then show ?thesis using assms by fastforce
qed

text \<open>
  C19: Ready means proven ready. When \<open>await_ready\<close> reports success, the last \<open>success_threshold\<close>
  probes (at least one) all succeeded, in a row, each one interval after the other, the last of
  them in the world in which it returns. One lucky answer is not enough when more are required.
\<close>

theorem readiness_earned:
  assumes "await_ready (posix_parts L C opts svc hc) w = Some (Inr (), w')"
  shows "\<exists>probe rs bs. make_probe (posix_parts L C opts svc hc) w = Some probe \<and>
    probing probe (interval hc) w (rs @ bs) w' \<and> list_all is_ok bs \<and>
    length bs = nat (max 1 (success_threshold hc))"
proof (cases "make_probe (posix_parts L C opts svc hc) w")
  case None
  then show ?thesis using assms by (simp add: await_ready_def)
next
  case (Some probe)
  let ?s = "hc\<lparr>purpose := Readiness\<rparr>"
  have run: "ready_loop probe (steady w + 1000 * startup_timeout svc) (int_text (startup_timeout svc))
      (health_checker ?s) w = Some (Inr (), w')"
    using assms Some by (simp add: await_ready_def)
  have "midway probe ?s w (health_checker ?s) w"
    using counts_start [of ?s] by (auto simp: midway_def health_checker_def)
  then have "earned probe ?s w w'" by (rule ready_loop_earned [OF run])
  then show ?thesis using Some by (auto simp: earned_def)
qed

section \<open>A restarted agent\<close>

lemma engine_stop_holding:
  assumes "engine_stop (posix_parts L C opts svc hc) w = (r, w')" "engine_handle w' = Some h"
    and "engine_handle w = Some h'"
  shows "\<exists>d. stop h (stop_timeout svc) w = (Inl d, w') \<and> r = Inl d \<and> h' = h"
proof -
  obtain u w1 where s: "stop h' (stop_timeout svc) w = (u, w1)" by fastforce
  have "engine_handle v = None" if "clear_record opts (w1\<lparr>engine_handle := None\<rparr>) = (q, v)" for q v
    using files_step_handle [OF step_files [OF clear_record_step [OF that]]] by simp
  then obtain d where d: "u = Inl d" "w' = w1" "r = Inl d"
    using assms s by (cases u) (auto simp: engine_stop_def posix_supervisor_def)
  then have "h' = h" using evolves_handle [OF stop_evolves [OF s]] assms(2,3) by simp
  then show ?thesis using s d by simp
qed

text \<open>How \<open>resume\<close> comes to hold a handle: it adopted the recorded process.\<close>

lemma resume_held:
  assumes "resume (posix_parts L C opts svc hc) release_id w = (r, w')"
    and "engine_handle w = None" "engine_handle w' = Some h"
  shows "\<exists>recorded w1 w2 w3. read_record L opts w = (Inr recorded, w1) \<and>
    boot_identity w1 = (Inr (record_boot recorded), w2) \<and>
    adopt \<lparr>handle_id = record_process recorded, start_token = record_token recorded\<rparr> w2 = (Inr h, w3) \<and>
    (if record_release recorded = release_id then r = Inr () \<and> procs w' = procs w3
     else \<exists>d. stop h (stop_timeout svc) (w3\<lparr>engine_handle := Some h\<rparr>) = (Inl d, w') \<and>
       r = Inl (''cannot stop the adopted instance of '' @ quoted (record_release recorded) @ '': '' @ d))"
proof -
  let ?E = "posix_parts L C opts svc hc"
  obtain x w1 where rr: "read_record L opts w = (x, w1)" by fastforce
  have n1: "engine_handle w1 = None"
    using agent_engine.read_record_tends [OF rr] assms(2) by (simp add: agent_engine.tends_def)
  obtain y w2 where bi: "boot_identity w1 = (y, w2)" by fastforce
  have n2: "engine_handle w2 = None"
    using files_step_handle [OF reads_files_step [OF boot_identity_reads [OF bi]]] n1 by simp
  let ?h = "\<lparr>handle_id = record_process (projr x), start_token = record_token (projr x)\<rparr>"
  obtain z w3 where ad: "adopt ?h w2 = (z, w3)" by fastforce
  have n3: "engine_handle w3 = None" using evolves_handle [OF adopt_evolves [OF ad]] n2 by simp
  have clr: "engine_handle v = engine_handle u" if "clear_record opts (set_detail d u) = (q, v)" for u v :: "'a engine_scheme" and q d
    using files_step_handle [OF step_files [OF clear_record_step [OF that]]] by (simp add: set_detail_def)
  obtain recorded where x: "x = Inr recorded" "0 < record_process recorded"
    using assms rr n1 by (cases x) (auto simp: resume_def split: if_splits)
  obtain boot where y: "y = Inr boot" using assms rr x bi n2 by (cases y) (auto simp: resume_def)
  have b: "boot = record_boot recorded"
    using assms rr x bi y n2 clr by (auto simp: resume_def split: if_splits)
  obtain h' where z: "z = Inr h'"
    using assms rr x bi y b ad n3 clr
    by (cases z) (auto simp: resume_def Let_def posix_supervisor_def split: if_splits)
  have same: "h' = h \<and> r = Inr () \<and> procs w' = procs w3" if "record_release recorded = release_id"
    using assms rr x bi y b ad z that
    by (auto simp: resume_def Let_def posix_supervisor_def set_detail_def split: if_splits)
  have other: "h' = h \<and> (\<exists>d. stop h (stop_timeout svc) (w3\<lparr>engine_handle := Some h\<rparr>) = (Inl d, w') \<and>
      r = Inl (''cannot stop the adopted instance of '' @ quoted (record_release recorded) @ '': '' @ d))"
    if "record_release recorded \<noteq> release_id"
  proof -
    obtain q w5 where st: "engine_stop ?E (w3\<lparr>engine_handle := Some h'\<rparr>) = (q, w5)" by fastforce
    have "engine_handle w5 = Some h"
      using assms(1,3) rr x bi y b ad z that st
      by (cases q) (auto simp: resume_def Let_def posix_supervisor_def set_detail_def)
    from engine_stop_holding [OF st this] show ?thesis
      using assms(1) rr x bi y b ad z that st
      by (auto simp: resume_def Let_def posix_supervisor_def)
  qed
  show ?thesis
    using rr bi ad x y b z same other by (intro exI [of _ recorded] exI [of _ w1] exI [of _ w2] exI [of _ w3]) auto
qed

text \<open>
  C14: A restarted agent takes over only its own process. When \<open>resume\<close> starts without a handle and
  ends with one, this is the process \<open>runtime.json\<close> records: of this boot of the device, with a
  start token, and adopted after the process with this pid was seen to carry exactly this start
  token. If it is recorded for the release asked for, \<open>resume\<close> succeeds and the process is in the
  table now; if for another one, the supervisor's \<open>stop\<close> of it failed, and \<open>resume\<close> reports that.
\<close>

theorem resume_verified:
  assumes "resume (posix_parts L C opts svc hc) release_id w = (r, w')"
    and "engine_handle w = None" "engine_handle w' = Some h"
  shows "\<exists>recorded w1 w2 v. read_record L opts w = (Inr recorded, w1) \<and>
    boot_identity w1 = (Inr (record_boot recorded), w2) \<and>
    handle_id h = record_process recorded \<and> start_token h = record_token recorded \<and> start_token h \<noteq> 0 \<and>
    (\<exists>p. map_of (procs v) (handle_id h) = Some p \<and>
       parse_start_token (handle_id h) (getline (stat_text p)) = Inr (start_token h)) \<and>
    (if record_release recorded = release_id then r = Inr () \<and> procs v = procs w'
     else \<exists>d. stop h (stop_timeout svc) v = (Inl d, w') \<and>
       r = Inl (''cannot stop the adopted instance of '' @ quoted (record_release recorded) @ '': '' @ d))"
proof -
  obtain recorded w1 w2 w3 where rd: "read_record L opts w = (Inr recorded, w1)"
      "boot_identity w1 = (Inr (record_boot recorded), w2)"
    and ad: "adopt \<lparr>handle_id = record_process recorded, start_token = record_token recorded\<rparr> w2 = (Inr h, w3)"
    and out: "if record_release recorded = release_id then r = Inr () \<and> procs w' = procs w3
     else \<exists>d. stop h (stop_timeout svc) (w3\<lparr>engine_handle := Some h\<rparr>) = (Inl d, w') \<and>
       r = Inl (''cannot stop the adopted instance of '' @ quoted (record_release recorded) @ '': '' @ d)"
    using resume_held [OF assms] by blast
  let ?h = "\<lparr>handle_id = record_process recorded, start_token = record_token recorded\<rparr>"
  let ?v = "w3\<lparr>engine_handle := Some h\<rparr>"
  show ?thesis using ad
  proof (rule adopt_result)
    fix p v
    assume a: "h = ?h" "start_token ?h \<noteq> 0" "same_os w2 v" "map_of (procs w2) (handle_id ?h) = Some p"
      "has_token ?h p" "w3 = v\<lparr>finished := AList.delete (handle_id ?h) (finished v),
            adopted_ids := List.insert (handle_id ?h) (adopted_ids v)\<rparr>"
    have "procs w3 = procs w2" using a(3,6) by (auto simp: same_os_def)
    then show ?thesis
      using a(1,2,4,5) rd out
      by (intro exI [of _ recorded] exI [of _ w1] exI [of _ w2] exI [of _ ?v]) (auto simp: has_token_def)
  qed
qed

end
