(* ===== verification/EngineExamples.thy ===== *)
theory EngineExamples
  imports EngineRecovery SupervisorExamples
begin

text \<open>
  The engine's theorems on an example device: release \<open>v2\<close> is downloaded to \<open>/dl\<close>, the next fork
  gets pid 600.
\<close>

definition no_curl :: "'w curl" where
  "no_curl = \<lparr>easy_init = (\<lambda>w. (False, w)), easy_perform = (\<lambda>q w. (Inl ''not initialised'', w))\<rparr>"

lemma quiet_no_curl: "quiet_curl no_curl"
  by (simp add: quiet_curl_def no_curl_def no_time)

definition app_service :: service_spec where
  "app_service = \<lparr>executable = ''bin/app'', service_arguments = [''--serve''], service_directory = '''',
     stop_timeout = 5, startup_timeout = 60\<rparr>"

definition downloaded :: tree where
  "downloaded = [([''srv''], Directory), ([''dl''], Directory), ([''dl'', ''bin''], Directory),
     ([''dl'', ''bin'', ''app''], File ''elf'' 420)]"

definition engine_device :: engine where
  "engine_device = \<lparr>cwd = [], files = downloaded, mtimes = (\<lambda>_. None), faults = [],
     file_mode = 420, wall = 1786147200, steady = 0, lags = [], procs = [(1, foreign ''1 (init) S'')],
     moves = [], pids = [(600, ''600 (app) S 1 600 600 0 -1 4 1 0 0 0 1 1 0 0 20 0 1 0 888 9'')],
     environ = [''PATH=/bin''], boot_id = Some ''b1'', signals = [], finished = [], adopted_ids = [],
     engine_handle = None, last_detail = ''''\<rparr>"

definition blunt_parts :: "engine parts" where
  "blunt_parts = posix_parts blunt_json no_curl served_options app_service default_health_spec"

lemma deploy_runs:
  "\<exists>w'. deploy_apply blunt_parts ''v2'' ''/dl'' engine_device = Some (Inr (), w') \<and>
     map_option is_child (map_of (procs w') 600) = Some True"
proof -
  have "map_option (\<lambda>(r, w'). (r, map_option is_child (map_of (procs w') 600)))
      (deploy_apply blunt_parts ''v2'' ''/dl'' engine_device) = Some (Inr (), Some True)"
    by code_simp
  then show ?thesis by (cases "deploy_apply blunt_parts ''v2'' ''/dl'' engine_device") auto
qed

theorem engine_single_child_witness:
  "\<exists>w' h. deploy_apply blunt_parts ''v2'' ''/dl'' engine_device = Some (Inr (), w') \<and>
     engine_handle w' = Some h \<and> handle_id h = 600"
proof -
  obtain w' p where w': "deploy_apply blunt_parts ''v2'' ''/dl'' engine_device = Some (Inr (), w')"
    and p: "map_of (procs w') 600 = Some p" "is_child p" using deploy_runs by auto
  have "(engine_step blunt_parts)\<^sup>*\<^sup>* engine_device w'" using applying [OF w'] by blast
  moreover have "books engine_device"
    by (simp add: books_def offspring_def engine_device_def foreign_def)
  moreover have "\<forall>i q. map_of (procs engine_device) i = Some q \<longrightarrow> \<not> is_child q"
    by (simp add: engine_device_def foreign_def)
  ultimately obtain h where "engine_handle w' = Some h" "handle_id h = 600"
    using engine_single_child [of blunt_json no_curl served_options app_service default_health_spec
        engine_device w' 600 p] quiet_no_curl p
    by (auto simp: blunt_parts_def)
  then show ?thesis using w' by blast
qed

theorem apply_success_witness:
  "\<exists>w' h m boot. deploy_apply blunt_parts ''v2'' ''/dl'' engine_device = Some (Inr (), w') \<and>
     engine_handle w' = Some h \<and>
     lookup (files w') [''srv'', ''runtime.json''] = Some (File (serialize_value blunt_json
       (record_json \<lparr>record_release = ''v2'', record_process = handle_id h, record_token = start_token h,
          record_boot = boot\<rparr>)) m)"
proof -
  obtain w' where w': "deploy_apply blunt_parts ''v2'' ''/dl'' engine_device = Some (Inr (), w')"
    using deploy_runs by blast
  have "\<forall>e \<in> set (files engine_device). list_all plain_name (fst e)" "list_all plain_name (cwd engine_device)"
    by (simp_all add: engine_device_def downloaded_def plain_name_def contains_char_def)
  moreover have "root_at engine_device served_options = [''srv'']"
    by (simp add: at_def locate_def served_options_def engine_device_def is_absolute_def starts_with_def)
  ultimately show ?thesis
    using apply_success [OF w' [unfolded blunt_parts_def] quiet_no_curl] w' by auto
qed

definition held_device :: engine where
  "held_device = engine_device\<lparr>procs := [(500, foreign app_stat)], adopted_ids := [500],
     moves := [\<lparr>ends = [(500, 0)], appears = []\<rparr>], engine_handle := Some app_handle\<rparr>"

lemma held_device_tracked: "tracked app_handle held_device"
  by (simp add: tracked_def held_device_def engine_device_def app_handle_def no_return_def no_twin_def adopted_def)

theorem engine_keeps_or_ends_witness:
  "\<exists>w'. engine_stop blunt_parts held_device = (Inr (), w') \<and> engine_handle w' = None \<and>
     \<not> (\<exists>p. map_of (procs w') 500 = Some p \<and> parse_start_token 500 (getline (stat_text p)) = Inr 777)"
proof -
  have "fst (engine_stop blunt_parts held_device) = Inr () \<and> engine_handle (snd (engine_stop blunt_parts held_device)) = None"
    by code_simp
  then obtain w' where w': "engine_stop blunt_parts held_device = (Inr (), w')" "engine_handle w' = None"
    by (cases "engine_stop blunt_parts held_device") auto
  have h: "engine_handle held_device = Some app_handle" by (simp add: held_device_def)
  show ?thesis
    using engine_keeps_or_ends [OF h held_device_tracked quiet_no_curl blunt_parts_def, of "''v2''" "''/dl''" w'] w'
    by (auto simp: app_handle_def)
qed

theorem executable_stays_inside_witness:
  "\<exists>cs. at blank_machine (path_append (release_directory served_options ''v1'') ''bin/./../app'') =
     [''srv'', ''releases'', ''v1''] @ cs \<and> (\<forall>c \<in> set cs. c \<noteq> '''' \<and> c \<noteq> ''.'' \<and> c \<noteq> ''..'')"
proof -
  have "validate_service_executable (app_service\<lparr>executable := ''bin/./../app''\<rparr>) = Inr ()"
    "install_validate_release_id ''v1'' = Inr ()" "root_at blank_machine served_options = [''srv'']"
    by code_simp+
  then show ?thesis
    using executable_stays_inside [of "app_service\<lparr>executable := ''bin/./../app''\<rparr>" "''v1''" blank_machine served_options]
    by simp
qed

definition unary_record :: runtime_record where
  "unary_record = \<lparr>record_release = ''v2'', record_process = 600, record_token = 888, record_boot = ''b1''\<rparr>"

lemma unary_written: "fst (write_record unary_json served_options unary_record engine_device) = Inr ()"
proof -
  have p: "record_path served_options = ''/srv/runtime.json''" by code_simp
  have a: "at w ''/srv/runtime.json.tmp'' = [''srv'', ''runtime.json.tmp'']"
    "at w ''/srv/runtime.json'' = [''srv'', ''runtime.json'']" for w :: "'a machine_scheme"
    by (simp_all add: at_def locate_def is_absolute_def starts_with_def)
  have w: "writable (files engine_device) [''srv'', ''runtime.json.tmp'']"
    "lookup (files engine_device) [''srv'', ''runtime.json''] = None"
    "lookup (files engine_device) [''srv''] = Some Directory" by code_simp+
  show ?thesis
    using w by (simp add: write_record_def p a fs_write_def fs_rename_def rename_tree_def take_fault_def
        lookup_put_node engine_device_def [THEN arg_cong, of faults])
qed

theorem record_roundtrip_witness:
  "\<exists>w'. write_record unary_json served_options unary_record engine_device = (Inr (), w') \<and>
     read_record unary_json served_options w' = (Inr unary_record, w')"
proof -
  obtain w' where w': "write_record unary_json served_options unary_record engine_device = (Inr (), w')"
    using unary_written by (cases "write_record unary_json served_options unary_record engine_device") auto
  have "faults engine_device = []" "plain_text (record_release unary_record)" "plain_text (record_boot unary_record)"
    by (simp_all add: engine_device_def unary_record_def)
  then show ?thesis
    using record_roundtrip [OF boost_json_unary _ w'] w' by (simp add: unary_record_def)
qed

definition torn_device :: engine where
  "torn_device = engine_device\<lparr>faults := [Some \<lparr>reason = ''disk full'', survivors = [], torn = Some ''{''\<rparr>]\<rparr>"

theorem write_record_atomic_witness:
  "\<exists>e w'. write_record blunt_json served_options empty_record torn_device = (Inl e, w') \<and>
     lookup (files w') (root_at torn_device served_options @ [''runtime.json'']) =
     lookup (files torn_device) (root_at torn_device served_options @ [''runtime.json''])"
proof -
  have "\<not> is_ok (fst (write_record blunt_json served_options empty_record torn_device))" by code_simp
  then obtain e w' where w': "write_record blunt_json served_options empty_record torn_device = (Inl e, w')"
    by (cases "write_record blunt_json served_options empty_record torn_device"; cases "fst (write_record blunt_json served_options empty_record torn_device)") auto
  then show ?thesis using write_record_atomic [OF w'] by auto
qed

theorem readiness_earned_witness:
  "\<exists>w' probe rs bs. await_ready blunt_parts held_device = Some (Inr (), w') \<and>
     probing probe (interval default_health_spec) held_device (rs @ bs) w' \<and> list_all is_ok bs \<and> bs \<noteq> []"
proof -
  have "map_option fst (await_ready blunt_parts held_device) = Some (Inr ())" by code_simp
  then obtain w' where w': "await_ready blunt_parts held_device = Some (Inr (), w')" by auto
  show ?thesis
    using readiness_earned [OF w' [unfolded blunt_parts_def]] w'
    by (force simp: default_health_spec_def)
qed

definition record_text_json :: json_lib where
  "record_text_json = \<lparr>parse_text = (\<lambda>s. if s = ''R'' then
       Inr (JObject [(''release_id'', JString ''v1''), (''process_id'', JInt64 500),
                     (''start_token'', JInt64 777), (''boot_identity'', JString ''b1'')]) else Inl ''?''),
     serialize_value = (\<lambda>v. ''R''), values_equal = (=)\<rparr>"

definition reborn_device :: engine where
  "reborn_device = engine_device\<lparr>files := ([''srv'', ''runtime.json''], File ''R'' 420) # downloaded,
     procs := [(500, foreign app_stat)]\<rparr>"

theorem resume_verified_witness:
  "\<exists>w' h. resume (posix_parts record_text_json no_curl served_options app_service default_health_spec) ''v1''
       reborn_device = (Inr (), w') \<and> engine_handle w' = Some h \<and> handle_id h = 500 \<and> start_token h = 777"
proof -
  let ?r = "resume (posix_parts record_text_json no_curl served_options app_service default_health_spec) ''v1'' reborn_device"
  have "fst ?r = Inr () \<and> engine_handle (snd ?r) = Some app_handle" by code_simp
  then obtain w' where w': "?r = (Inr (), w')" "engine_handle w' = Some app_handle" by (cases ?r) auto
  have n: "engine_handle reborn_device = None" by (simp add: reborn_device_def engine_device_def)
  show ?thesis using resume_verified [OF w'(1) n w'(2)] w' by (auto simp: app_handle_def)
qed

text \<open>
  A library with the documented behaviour that runs: it numbers the values of a table and treats
  every other value the way \<open>unary_json\<close> does.
\<close>

definition tabled_json :: "json list \<Rightarrow> json_lib" where
  "tabled_json vs =
     \<lparr>parse_text = (\<lambda>s. case s of
          [] \<Rightarrow> parse_text unary_json s
        | c # rest \<Rightarrow>
            if c = CHR ''#'' then
              (if length rest < length vs then Inr (canon (vs ! length rest)) else Inl ''syntax error'')
            else parse_text unary_json s),
      serialize_value = (\<lambda>v.
        if v \<in> set vs then CHR ''#'' # replicate (length (takeWhile (\<lambda>u. u \<noteq> v) vs)) CHR ''#''
        else serialize_value unary_json v),
      values_equal = (=)\<rparr>"

lemma boost_json_tabled: "boost_json (tabled_json vs)"
proof -
  have "parse_text (tabled_json vs) (serialize_value (tabled_json vs) v) = Inr (canon v)"
    if "json_plain v" "json_depth v \<le> 32" for v
  proof (cases "v \<in> set vs")
    case True
    let ?n = "length (takeWhile (\<lambda>u. u \<noteq> v) vs)"
    have "?n < length vs" using True by (induction vs) auto
    moreover have "vs ! ?n = v" using nth_length_takeWhile [OF \<open>?n < length vs\<close>] by simp
    ultimately show ?thesis using True by (simp add: tabled_json_def)
  next
    case False
    then have "serialize_value (tabled_json vs) v = replicate (to_nat v) CHR ''x''"
      by (simp add: tabled_json_def unary_json_def)
    moreover have "parse_text (tabled_json vs) (replicate n CHR ''x'') = Inr (canon (from_nat n))" for n
      by (cases n) (simp_all add: tabled_json_def unary_json_def)
    ultimately show ?thesis by simp
  qed
  then show ?thesis by (simp add: boost_json_def)
qed

definition upgrade_json :: json_lib where
  "upgrade_json = tabled_json
     [activation_json \<lparr>active = ''v1'', previous = ''v0'', updated_at = ''2026-08-08T00:00:00Z''\<rparr>,
      activation_json \<lparr>active = ''v2'', previous = ''v1'', updated_at = ''2026-08-08T00:00:00Z''\<rparr>,
      activation_json \<lparr>active = ''v1'', previous = ''v2'', updated_at = ''2026-08-08T00:00:00Z''\<rparr>,
      record_json \<lparr>record_release = ''v2'', record_process = 600, record_token = 888, record_boot = ''b1''\<rparr>,
      record_json \<lparr>record_release = ''v1'', record_process = 700, record_token = 999, record_boot = ''b1''\<rparr>]"

text \<open>
  Release \<open>v1\<close> is active; the first process started ends within a second, the second one gets pid 700.
\<close>

definition upgraded_device :: engine where
  "upgraded_device = engine_device\<lparr>
     files := [([''srv'', ''state.json''], File ''#'' 420), ([''srv'', ''releases''], Directory),
       ([''srv'', ''releases'', ''v1''], Directory), ([''srv'', ''releases'', ''v1'', ''bin''], Directory),
       ([''srv'', ''releases'', ''v1'', ''bin'', ''app''], File ''old elf'' 493)] @ downloaded,
     moves := [\<lparr>ends = [(600, 256)], appears = []\<rparr>],
     pids := pids engine_device @ [(700, ''700 (app) S 1 700 700 0 -1 4 1 0 0 0 1 1 0 0 20 0 1 0 999 9'')]\<rparr>"

definition patient_spec :: health_spec where
  "patient_spec = default_health_spec\<lparr>success_threshold := 2, failure_threshold := 1\<rparr>"

definition upgrade_parts :: "engine parts" where
  "upgrade_parts = posix_parts upgrade_json no_curl served_options app_service patient_spec"

definition upgrade_outcome :: "unit expected \<Rightarrow> engine \<Rightarrow> bool" where
  "upgrade_outcome r w' \<longleftrightarrow>
     \<not> is_ok r \<and> map_option handle_id (engine_handle w') = Some 700 \<and>
     map_sum (\<lambda>e. e) active (stored_state upgrade_json served_options w') = Inr ''v1'' \<and>
     lookup (files w') [''srv'', ''releases'', ''v2'', ''bin'', ''app''] = Some (File ''elf'' 492)"

lemma upgrade_runs:
  "map_option (\<lambda>(r, w'). upgrade_outcome r w') (deploy_apply upgrade_parts ''v2'' ''/dl'' upgraded_device) = Some True"
  by code_simp

text \<open>
  The new release starts, ends while readiness is awaited, is rolled back, and the old release runs
  again with pid 700.
\<close>

theorem failed_apply_restores_witness:
  "\<exists>e w' s'. deploy_apply upgrade_parts ''v2'' ''/dl'' upgraded_device = Some (Inl e, w') \<and>
     stored_state upgrade_json served_options w' = Inr s' \<and> active s' = ''v1'' \<and>
     map_option handle_id (engine_handle w') = Some 700"
proof -
  obtain r w' where run: "deploy_apply upgrade_parts ''v2'' ''/dl'' upgraded_device = Some (r, w')"
    and out: "upgrade_outcome r w'"
    using upgrade_runs by (cases "deploy_apply upgrade_parts ''v2'' ''/dl'' upgraded_device") auto
  obtain e where e: "r = Inl e" using out by (cases r) (simp_all add: upgrade_outcome_def)
  have root: "root_at upgraded_device served_options = [''srv'']"
    by (simp add: at_def locate_def served_options_def upgraded_device_def engine_device_def is_absolute_def starts_with_def)
  have calm: "faults upgraded_device = []" by (simp add: upgraded_device_def engine_device_def)
  have wf: "wf_tree (files upgraded_device)"
    by (auto simp: wf_tree_def upgraded_device_def downloaded_def keys_def lookup_def)
  have look: "lookup (files upgraded_device) [''srv'', ''releases'', ''v1''] = Some Directory"
    "lookup (files upgraded_device) [''srv'', ''runtime.json''] = None"
    by (simp_all add: upgraded_device_def lookup_def downloaded_def)
  have plain: "plain_state two_releases" by (simp add: plain_state_def two_releases_def)
  have id: "install_validate_release_id ''v1'' = Inr ()" by code_simp
  have st: "stored_state upgrade_json served_options upgraded_device = Inr two_releases" by code_simp
  have boost: "boost_json upgrade_json" unfolding upgrade_json_def by (rule boost_json_tabled)
  obtain s' where s': "stored_state upgrade_json served_options w' = Inr s'"
    using failed_apply_restores [OF run [unfolded e upgrade_parts_def] boost quiet_no_curl calm wf st plain]
      id look root by (auto simp: two_releases_def free_or_file_def)
  then have "active s' = ''v1''" using out by (simp add: upgrade_outcome_def)
  then show ?thesis using run e out s' by (simp add: upgrade_outcome_def)
qed

section \<open>Two divergences\<close>

text \<open>
  With the default threshold of one success, the first probe decides: the release counts as ready
  without having survived the health interval.
\<close>

theorem ready_at_once:
  "\<exists>w'. await_ready blunt_parts held_device = Some (Inr (), w') \<and> steady w' = steady held_device"
proof -
  have "map_option (\<lambda>(r, w). (r, steady w - steady held_device)) (await_ready blunt_parts held_device) = Some (Inr (), 0)"
    by code_simp
  then show ?thesis by (cases "await_ready blunt_parts held_device") auto
qed

text \<open>
  When the recorded process runs but the one read of its \<open>stat\<close> file fails, for want of a free file
  descriptor say, \<open>resume\<close> takes it for gone: it deletes \<open>runtime.json\<close>, reports success and holds
  no handle, so that a second instance is started beside the first.
\<close>

theorem adopt_error_orphans:
  "\<exists>w'. resume (posix_parts record_text_json no_curl served_options app_service default_health_spec) ''v1''
       (reborn_device\<lparr>faults := [None, None, None, io_error]\<rparr>) = (Inr (), w') \<and>
     engine_handle w' = None \<and> map_of (procs w') 500 = Some (foreign app_stat) \<and>
     lookup (files w') [''srv'', ''runtime.json''] = None"
proof -
  let ?r = "resume (posix_parts record_text_json no_curl served_options app_service default_health_spec) ''v1''
    (reborn_device\<lparr>faults := [None, None, None, io_error]\<rparr>)"
  have "fst ?r = Inr () \<and> engine_handle (snd ?r) = None \<and> lookup (files (snd ?r)) [''srv'', ''runtime.json''] = None"
    "map_option stat_text (map_of (procs (snd ?r)) 500) = Some app_stat" "map_of (procs (snd ?r)) 500 = Some (foreign app_stat)"
    by code_simp+
  then show ?thesis by (cases ?r) auto
qed

end
