(* ===== verification/AgentExamples.thy ===== *)
theory AgentExamples
  imports AgentMain EngineExamples
begin

text \<open>
  The agent's theorems on an example device: the store holds one object, every message is one of
  the texts \<open>demo_json\<close> knows, the version directory is \<open>/versions\<close>.
\<close>

section \<open>An example store\<close>

text \<open>An S3 client whose bucket holds the same content under every key.\<close>

definition demo_client :: "string \<Rightarrow> 'a machine_scheme s3_client" where
  "demo_client content =
     \<lparr>upload_file = (\<lambda>b key path w. (Inl ''read only'', w)),
      generate_presigned_url = (\<lambda>b key expiration w. (Inl ''read only'', w)),
      download_file = (\<lambda>b key path w.
        (case fs_write (at w path) content w of
           (Written, w1) \<Rightarrow> (Inr (), w1)
         | (_, w1) \<Rightarrow> (Inl ''cannot write'', w1))),
      file_exists = (\<lambda>b key w. (Inr True, w))\<rparr>"

lemma write_fetches:
  assumes "fs_write p content w = (r, w')" "r = Written \<longleftrightarrow> is_ok x"
  shows "fetches p x w w'"
proof -
  note l = step_in_lookup [OF write_step [OF assms(1)]]
  have c: "cwd w' = cwd w" "faults w = [] \<longrightarrow> faults w' = []"
    using step_in_fields [OF write_step [OF assms(1)]] write_calm [OF assms(1)] by auto
  have d: "lookup (files w') p = Some Directory" if "lookup (files w) p = Some Directory"
    using assms(1) that by (auto simp: fs_write_def writable_def lookup_put_node
        dest!: take_fault_reads reads_files split: prod.splits option.splits if_splits)
  have f: "is_file (lookup (files w') p)" if "is_ok x"
    using assms that
    by (auto simp: fs_write_def writable_def lookup_put_node split: prod.splits option.splits if_splits)
  have k: "lookup (files w') q = lookup (files w) q" if "q \<noteq> p \<or> lookup (files w) q = Some Directory" for q
    using l [of q] d that by (cases "q = p") auto
  have n: "lookup (files w') q = lookup (files w) q" if "\<not> prefix q p" for q
  proof -
    have "q \<noteq> p" using that prefix_order.order_refl [of p] by blast
    then show ?thesis using k by blast
  qed
  show ?thesis unfolding fetches_def
  proof (intro conjI allI impI)
    show "lookup (files w') q = lookup (files w) q"
      if "lookup (files w) q \<noteq> None" "q \<noteq> p \<or> lookup (files w) q = Some Directory" for q by (rule k [OF that(2)])
  qed (use c f n in simp_all)
qed

lemma lawful_demo: "lawful_s3_client (demo_client content)"
proof -
  have "fetches (at w path) (fst (download_file (demo_client content) b key path w)) w
      (snd (download_file (demo_client content) b key path w))" for b key path and w :: "'a machine_scheme"
  proof -
    obtain r w' where c: "fs_write (at w path) content w = (r, w')" by fastforce
    note f = write_fetches [OF c, of "Inl e :: unit expected" for e] write_fetches [OF c, of "Inr () :: unit expected"]
    show ?thesis using f c by (cases r) (simp_all add: demo_client_def)
  qed
  then show ?thesis by (simp add: lawful_s3_client_def demo_client_def unaltered_def)
qed


section \<open>An example agent\<close>

text \<open>
  The texts the example knows: two messages, a download payload, a configuration payload and a
  document; every value is written as \<open>doc\<close>.
\<close>

definition demo_download :: json where
  "demo_download = JObject [(''release_id'', JString ''v2''),
     (''artifacts'', JArray [JObject [(''install_path'', JString ''app''),
        (''sha256'', JString (to_hex (count_digest ''binary'')))]])]"

definition demo_json :: json_lib where
  "demo_json = \<lparr>parse_text = (\<lambda>s.
       if s = ''status'' then Inr (JObject [(''command'', JString kCurrentStatus)])
       else if s = ''restart'' then Inr (JObject [(''command'', JString kRestartService)])
       else if s = ''payload'' then Inr demo_download
       else if s = ''values'' then Inr (JObject [(''path'', JString ''etc/conf''),
         (''values'', JObject [(''port'', JInt64 8081)])])
       else if s = ''conf'' then Inr (JObject [(''port'', JInt64 8080), (''name'', JString ''kiosk'')])
       else if s = ''state'' then Inr (JObject [(''active'', JString ''v1''), (''previous'', JString '''')])
       else Inl ''syntax error''),
     serialize_value = (\<lambda>v. ''doc''), values_equal = (=)\<rparr>"

definition demo_options :: agent_options where
  "demo_options = \<lparr>device_id = ''d1'', device_group = ''kiosk'', version_root = ''/versions'',
     agent_service_root = ''/versions/srv'', result_queue_url = ''queue''\<rparr>"

definition demo_store :: "string \<Rightarrow> 'a machine_scheme artifact_store" where
  "demo_store content = s3_artifact_store (\<lambda>credentials conf v. demo_client content)
     \<lparr>client_region = '''', endpoint_override = '''', verify_ssl = True\<rparr>
     (default_store_options\<lparr>bucket := ''b''\<rparr>)"

lemma demo_store_lawful: "lawful_store (demo_store content)"
  unfolding demo_store_def by (rule s3_lawful) (rule lawful_demo)

definition demo_parts :: "string \<Rightarrow> (string, 'a engine_scheme) agent_parts" where
  "demo_parts content = \<lparr>agent_json = demo_json, agent_digest = count_lib, agent_opts = demo_options,
     store = Some (demo_store content), publisher = Some (\<lambda>url body w. (Inr (), w)),
     agent_deployment = Some (posix_parts demo_json no_curl served_options app_service default_health_spec),
     system_control = None, disk_space = (\<lambda>path w. (Inl ''statvfs failed'', w)),
     hardware_concurrency = 4\<rparr>"

definition versions_device :: engine where
  "versions_device = engine_device\<lparr>files :=
     [([''versions''], Directory), ([''versions'', ''v1''], Directory),
      ([''versions'', ''srv''], Directory), ([''versions'', ''srv'', ''state.json''], File ''{}'' 420)]\<rparr>"

section \<open>Retries\<close>

theorem retries_bounded_witness:
  "\<exists>rs a' w'. deliveries (demo_parts '''') ([''restart''] @ replicate 5 ''status'') new_agent versions_device =
     Some (rs, a', w') \<and> Inr () \<in> set (drop 1 rs) \<and> length (filter isl rs) = 4"
proof -
  let ?d = "deliveries (demo_parts '''') ([''restart''] @ replicate 5 ''status'') new_agent versions_device"
  have "map_option (\<lambda>(rs, a, w). length (filter isl rs)) ?d = Some 4" by code_simp
  then obtain rs a' w' where d: "?d = Some (rs, a', w')" "length (filter isl rs) = 4" by auto
  show ?thesis using retries_bounded [OF d(1)] d by auto
qed


section \<open>Downloads\<close>

text \<open>The example download, from its three calls to the machine and the store.\<close>

lemma demo_download_runs:
  assumes "fs_create_directories [''versions'', ''v2''] w = (Inr (), w1)"
    and "at w ''/versions/v2'' = [''versions'', ''v2'']"
    and "download (demo_store content) ''releases/v2/app'' ''/versions/v2/app'' w1 = (Inr (), w2)"
    and "fs_read (at w2 ''/versions/v2/app'') w2 = (Some c, w3)"
  shows "fst (download_version (demo_parts content) ''payload'' a w) =
    (if count_digest c = count_digest ''binary'' then Inr ()
     else Inl (''sha256 mismatch for '' @ quoted ''app'' @ '': expected '' @ to_hex (count_digest ''binary'') @
       '', got '' @ to_hex (count_digest c)))"
proof -
  have p: "payload_object demo_json ''payload'' =
      Inr [(''release_id'', JString ''v2''), (''artifacts'', JArray [JObject [(''install_path'', JString ''app''),
        (''sha256'', JString (to_hex (count_digest ''binary'')))]])]"
    by (simp add: payload_object_def demo_json_def demo_download_def)
  have i: "validate_release_id ''v2'' = Inr ()" "make_object_key ''v2'' ''app'' = Inr ''releases/v2/app''"
    "path_append ''/versions'' ''v2'' = ''/versions/v2''" "path_append ''/versions/v2'' ''app'' = ''/versions/v2/app''"
    "c_str (to_hex (count_digest ''binary'')) = to_hex (count_digest ''binary'')"
    by code_simp+
  show ?thesis
    using file_sha256_content [OF evp_sha256_count assms(4)] assms(1-3) p i
    by (auto simp: download_version_def validated_release_id_def payload_string_def string_field_def array_field_def
        download_into_def version_directory_def artifact_fields_def fetch_artifact_def permanent_def succeed_def
        demo_parts_def demo_options_def Let_def to_hex_inject split: prod.splits sum.splits)
qed


lemma demo_download_ready:
  "fst (fs_create_directories [''versions'', ''v2''] versions_device) = Inr ()"
  "at versions_device ''/versions/v2'' = [''versions'', ''v2'']"
  by code_simp+

definition fetched_device :: "string \<Rightarrow> engine" where
  "fetched_device content = snd (download (demo_store content) ''releases/v2/app'' ''/versions/v2/app''
     (snd (fs_create_directories [''versions'', ''v2''] versions_device)))"

lemma demo_download_result:
  assumes "fst (download (demo_store content) ''releases/v2/app'' ''/versions/v2/app''
      (snd (fs_create_directories [''versions'', ''v2''] versions_device))) = Inr ()"
    and "fst (fs_read (at (fetched_device content) ''/versions/v2/app'') (fetched_device content)) = Some c"
  shows "fst (download_version (demo_parts content) ''payload'' a versions_device) =
    (if count_digest c = count_digest ''binary'' then Inr ()
     else Inl (''sha256 mismatch for '' @ quoted ''app'' @ '': expected '' @ to_hex (count_digest ''binary'') @
       '', got '' @ to_hex (count_digest c)))"
proof (rule demo_download_runs [OF _ demo_download_ready(2)])
  show "fs_create_directories [''versions'', ''v2''] versions_device =
      (Inr (), snd (fs_create_directories [''versions'', ''v2''] versions_device))"
    using demo_download_ready(1) by (metis prod.collapse)
  show "download (demo_store content) ''releases/v2/app'' ''/versions/v2/app''
      (snd (fs_create_directories [''versions'', ''v2''] versions_device)) = (Inr (), fetched_device content)"
    using assms(1) by (simp add: fetched_device_def prod_eq_iff)
  show "fs_read (at (fetched_device content) ''/versions/v2/app'') (fetched_device content) =
      (Some c, snd (fs_read (at (fetched_device content) ''/versions/v2/app'') (fetched_device content)))"
    using assms(2) by (metis prod.collapse)
qed

lemma demo_preconditions:
  "store (demo_parts content) = Some (demo_store content)" "agent_digest (demo_parts content) = count_lib"
  "no_nul (version_root (agent_opts (demo_parts content)))" "faults versions_device = []"
  by (simp_all add: demo_parts_def demo_options_def versions_device_def engine_device_def no_nul_def)

theorem download_verified_witness:
  "\<exists>a' w' c m. download_version (demo_parts ''binary'') ''payload'' new_agent versions_device = (Inr (), a', w') \<and>
     lookup (files w') [''versions'', ''v2'', ''app''] = Some (File c m) \<and> count_digest c = count_digest ''binary''"
proof -
  have "fst (download_version (demo_parts ''binary'') ''payload'' new_agent versions_device) = Inr ()"
    by (subst demo_download_result [where c = "''binary''"]) (code_simp | simp)+
  then obtain a' w' where d: "download_version (demo_parts ''binary'') ''payload'' new_agent versions_device = (Inr (), a', w')"
    by (cases "download_version (demo_parts ''binary'') ''payload'' new_agent versions_device") auto
  have p: "payload_object demo_json ''payload'' =
      Inr [(''release_id'', JString ''v2''), (''artifacts'', JArray [JObject [(''install_path'', JString ''app''),
        (''sha256'', JString (to_hex (count_digest ''binary'')))]])]"
    by (simp add: payload_object_def demo_json_def demo_download_def)
  have i: "validate_release_id ''v2'' = Inr ()" "version_directory demo_options ''v2'' = ''/versions/v2''"
    by code_simp+
  have f: "array_field [(''release_id'', JString ''v2''), (''artifacts'', JArray xs)] ''artifacts'' = Some xs"
    "validated_release_id [(''release_id'', JString ''v2''), (''artifacts'', JArray xs)] = Inr ''v2''" for xs
    using i by (simp_all add: array_field_def validated_release_id_def payload_string_def string_field_def)
  have v: "verified count_digest ''/versions/v2'' [JObject [(''install_path'', JString ''app''),
      (''sha256'', JString (to_hex (count_digest ''binary'')))]] w'"
    using download_verified [OF d demo_preconditions(1) demo_store_lawful, of count_digest]
      demo_preconditions evp_sha256_count p f i
    by (auto simp: demo_parts_def)
  have "at w' ''/versions/v2/app'' = [''versions'', ''v2'', ''app'']" "path_append ''/versions/v2'' ''app'' = ''/versions/v2/app''"
    "c_str (to_hex (count_digest ''binary'')) = to_hex (count_digest ''binary'')"
    by (simp add: at_def locate_def is_absolute_def starts_with_def) code_simp+
  then show ?thesis
    using d v [unfolded verified_def, rule_format, where xs = "[]" and ys = "[]"]
    by (auto simp: place_def declared_def string_field_def to_hex_inject)
qed


lemma demo_download_fails:
  "\<exists>e a' w'. download_version (demo_parts ''bad'') ''payload'' new_agent versions_device = (Inl e, a', w')"
proof -
  have "\<not> is_ok (fst (download_version (demo_parts ''bad'') ''payload'' new_agent versions_device))"
    by (subst demo_download_result [where c = "''bad''"]) code_simp+
  then show ?thesis
    by (cases "download_version (demo_parts ''bad'') ''payload'' new_agent versions_device";
        cases "fst (download_version (demo_parts ''bad'') ''payload'' new_agent versions_device)") auto
qed

lemma demo_release:
  assumes "payload_object demo_json ''payload'' = Inr obj" "validated_release_id obj = Inr release_id"
  shows "release_id = ''v2''"
  using assms by (auto simp: payload_object_def demo_json_def demo_download_def validated_release_id_def
      payload_string_def string_field_def split: sum.splits)

lemma demo_root: "at versions_device (version_root demo_options) = [''versions'']"
  by code_simp

lemma demo_fields [simp]:
  "agent_opts (demo_parts content) = demo_options" "agent_json (demo_parts content) = demo_json"
  by (simp_all add: demo_parts_def)

theorem download_failure_discards_witness:
  "\<exists>e a' w'. download_version (demo_parts ''bad'') ''payload'' new_agent versions_device = (Inl e, a', w') \<and>
     lookup (files w') [''versions'', ''v2'', ''app''] = None"
proof -
  obtain e a' w' where d: "download_version (demo_parts ''bad'') ''payload'' new_agent versions_device = (Inl e, a', w')"
    using demo_download_fails by blast
  have n: "lookup (files versions_device) [''versions'', ''v2'', ''app''] = None"
    by (simp add: versions_device_def lookup_def)
  show ?thesis
    using download_failure_discards [OF d demo_preconditions(1) demo_store_lawful demo_preconditions(3)] d n
      demo_preconditions(4) demo_release demo_root by auto
qed

text \<open>
  The third case: hashing the fetched file fails, and so does the removal of the partial download.
  The unverified file stays in the version directory, from where it could be installed.
\<close>

definition failing_disk :: engine where
  "failing_disk = versions_device\<lparr>faults := [None, None, None, io_error,
     Some \<lparr>reason = ''Input/output error'', survivors = [[''versions'', ''v2'', ''app'']], torn = None\<rparr>]\<rparr>"

theorem partial_download_stays:
  "\<not> is_ok (fst (download_version (demo_parts ''bad'') ''payload'' new_agent failing_disk)) \<and>
   lookup (files (snd (snd (download_version (demo_parts ''bad'') ''payload'' new_agent failing_disk))))
     [''versions'', ''v2'', ''app''] = Some (File ''bad'' 420)"
proof -
  have "\<not> is_ok (fst (download_version (demo_parts ''bad'') ''payload'' new_agent failing_disk))" by code_simp
  moreover have "lookup (files (snd (snd (download_version (demo_parts ''bad'') ''payload'' new_agent failing_disk))))
     [''versions'', ''v2'', ''app''] = Some (File ''bad'' 420)" by code_simp
  ultimately show ?thesis by simp
qed

theorem download_stays_inside_witness:
  "\<exists>r a' w'. download_version (demo_parts ''bad'') ''payload'' new_agent versions_device = (r, a', w') \<and>
     lookup (files w') [''versions'', ''v1''] = Some Directory"
proof -
  obtain r a' w' where d: "download_version (demo_parts ''bad'') ''payload'' new_agent versions_device = (r, a', w')"
    by (metis prod_cases3)
  have n: "lookup (files versions_device) [''versions'', ''v1''] = Some Directory"
    by (simp add: versions_device_def lookup_def)
  have "lookup (files w') q = lookup (files versions_device) q"
    if "\<not> prefix [''versions'', ''v2''] q" "lookup (files versions_device) q \<noteq> None" for q
    using download_stays_inside [OF d demo_preconditions(1) demo_store_lawful demo_preconditions(3)] that
      demo_release demo_root by auto
  then show ?thesis using d n by simp
qed

section \<open>Cleaning\<close>

lemma clean_runs:
  "\<exists>a' w'. clean_old_version (demo_parts '''') '''' new_agent versions_device = (Inr (), a', w')"
proof -
  have "fst (clean_old_version (demo_parts '''') '''' new_agent versions_device) = Inr ()" by code_simp
  then show ?thesis by (cases "clean_old_version (demo_parts '''') '''' new_agent versions_device") auto
qed

lemma versions_tree:
  "wf_tree (files versions_device)" "lookup (files versions_device) [''versions''] = Some Directory"
  by (auto simp: wf_tree_def versions_device_def keys_def lookup_def)

theorem clean_exact_witness:
  "\<exists>a' w'. clean_old_version (demo_parts '''') '''' new_agent versions_device = (Inr (), a', w') \<and>
     lookup (files w') [''versions''] = Some Directory \<and> lookup (files w') [''versions'', ''v1''] = None"
proof -
  obtain a' w' where c: "clean_old_version (demo_parts '''') '''' new_agent versions_device = (Inr (), a', w')"
    using clean_runs by blast
  then show ?thesis
    using clean_exact [OF c] demo_preconditions(4) versions_tree demo_root by auto
qed



section \<open>Configuration updates\<close>

theorem merge_object_correct_witness:
  "map_of (fst (merge_object demo_json [(''port'', JInt64 8080), (''name'', JString ''kiosk'')]
       [(''port'', JInt64 8081)])) ''port'' = Some (JInt64 8081)"
proof -
  have "distinct (map fst [(''port'', JInt64 8081)])" by simp
  then show ?thesis
    using merge_object_correct [of "[(''port'', JInt64 8081)]" demo_json
        "[(''port'', JInt64 8080), (''name'', JString ''kiosk'')]" "''port''"]
    by (simp add: demo_json_def)
qed

theorem merge_object_idempotent_witness:
  "merge_object demo_json (fst (merge_object demo_json [(''log'', JObject [(''level'', JInt64 2)])]
       [(''log'', JObject [(''level'', JInt64 3)])])) [(''log'', JObject [(''level'', JInt64 3)])] =
     (fst (merge_object demo_json [(''log'', JObject [(''level'', JInt64 2)])]
       [(''log'', JObject [(''level'', JInt64 3)])]), 0)"
  by (rule merge_object_idempotent) (simp add: demo_json_def)

definition configured_device :: engine where
  "configured_device = engine_device\<lparr>files :=
     [([''srv''], Directory), ([''srv'', ''state.json''], File ''state'' 420), ([''srv'', ''releases''], Directory),
      ([''srv'', ''releases'', ''v1''], Directory), ([''srv'', ''releases'', ''v1'', ''etc''], Directory),
      ([''srv'', ''releases'', ''v1'', ''etc'', ''conf''], File ''conf'' 420)]\<rparr>"


section \<open>Configuration and life\<close>

definition demo_env :: config_env where
  "demo_env = \<lparr>env_json = demo_json, program_folder = ''/opt/'',
     argument_string = (\<lambda>k. if k = ''--device_id'' then Some ''d1'' else None),
     argument_int = (\<lambda>k. if k = ''--write_interval'' then Some 70000 else None),
     argument_bool = (\<lambda>k. None), config_content = (\<lambda>path. None),
     level_none = 0, level_information = 3, level_packet = 6\<rparr>"

theorem configuration_in_range_witness:
  "cfg_write_interval (configurations demo_env ''agent.json'') < 65536 \<and>
     cfg_poll_wait_seconds (configurations demo_env ''agent.json'') \<le> 20"
  using configuration_in_range [of demo_env _ "''agent.json''", OF _ _ refl] by (simp add: demo_env_def)

definition demo_consumer :: "('h, 'w) sqs_consumer" where
  "demo_consumer = \<lparr>register_consume_handler = (\<lambda>h w. (Inr (), w)), consumer_start = (\<lambda>w. (Inr (), w)),
     start_consume = (\<lambda>w. (Inr (), w)), stop_consume = (\<lambda>w. (Inr (), w)), consumer_stop = (\<lambda>w. w),
     is_running = (\<lambda>w. False)\<rparr>"

definition demo_platform :: "(string, engine) platform" where
  "demo_platform = \<lparr>os_json = demo_json, os_digest = count_lib, os_curl = no_curl,
     s3_library = (\<lambda>credentials conf v. demo_client ''binary''),
     sqs_publishers = (\<lambda>credentials conf url body group w. (Inr (), w)),
     sqs_consumers = (\<lambda>credentials conf cc url. demo_consumer),
     standard_configuration = \<lparr>client_region = '''', endpoint_override = '''', verify_ssl = True\<rparr>,
     os_space = (\<lambda>path w. (Inl ''statvfs failed'', w)), processors = 4, is_superuser = False\<rparr>"

lemma ambient_demo: "ambient_platform demo_platform"
proof -
  have "ambient w (snd (download_file (demo_client content) b key path w))" for content b key path and w :: engine
    by (auto simp: demo_client_def dest: write_step [THEN ambient_step] split: prod.splits write_result.splits)
  then show ?thesis
    by (simp add: ambient_platform_def demo_platform_def ambient_consumer_def demo_consumer_def quiet_no_curl)
      (simp add: demo_client_def)
qed

definition served_device :: engine where
  "served_device = engine_device\<lparr>files :=
     ([''srv'', ''releases'', ''v1'', ''bin''], Directory) #
     ([''srv'', ''releases'', ''v1'', ''bin'', ''app''], File ''elf'' 493) # files configured_device\<rparr>"

definition demo_config :: agent_config where
  "demo_config = (default_config demo_env)\<lparr>cfg_device_id := ''d1'', cfg_group := ''kiosk'', cfg_queue_url := ''q'',
     cfg_s3_bucket := ''b'', cfg_version_root := ''/versions'', cfg_service_root := ''/srv'',
     cfg_service_executable := ''bin/app''\<rparr>"

theorem agent_returns_witness:
  "\<exists>code w'. run_agent demo_platform (configurations demo_env ''agent.json'') [''status'', ''restart''] served_device =
     Some (code, w')"
proof -
  have "quiet_curl (os_curl demo_platform)" using ambient_demo by (simp add: ambient_platform_def)
  then show ?thesis using agent_returns [OF refl] by blast
qed

theorem agent_single_child_witness:
  "\<exists>code w h. run_agent demo_platform demo_config [''status'', ''values''] served_device = Some (code, w) \<and>
     engine_handle w = Some h \<and> handle_id h = 600"
proof -
  let ?run = "run_agent demo_platform demo_config [''status'', ''values''] served_device"
  have "map_option (\<lambda>x. map_option is_child (map_of (procs (snd x)) 600)) ?run = Some (Some True)" by code_simp
  then obtain code w p where d: "?run = Some (code, w)" "map_of (procs w) 600 = Some p" "is_child p" by auto
  have b: "books served_device" "engine_handle served_device = None"
    "\<forall>i p. map_of (procs served_device) i = Some p \<longrightarrow> \<not> is_child p"
    by (auto simp: books_def offspring_def served_device_def engine_device_def configured_device_def foreign_def)
  have "no_reboot (os_json demo_platform) ''status''" "no_reboot (os_json demo_platform) ''values''"
    by code_simp+
  then have n: "\<forall>raw \<in> set [''status'', ''values'']. no_reboot (os_json demo_platform) raw" by simp
  show ?thesis using agent_single_child [OF ambient_demo d(1) n b d(2,3)] d(1) by blast
qed

end
