(* ===== verification/CliExamples.thy ===== *)
theory CliExamples
  imports EndToEnd AgentExamples
begin

text \<open>
  The tool's theorems on an example: one file to upload, an S3 client that keeps the objects in the
  world, a control plane that answers once, and a device that downloads what was deployed.
\<close>

section \<open>An example tool\<close>

type_synonym bucket_cli = "((string \<times> string) \<times> string) list cli_scheme"

definition upload_client :: "bucket_cli s3_client" where
  "upload_client =
     \<lparr>upload_file = (\<lambda>b key path w.
        (case lookup (files w) (at w path) of
           Some (File c m) \<Rightarrow> (Inr (), w\<lparr>cli.more := ((b, key), c) # cli.more w\<rparr>)
         | _ \<Rightarrow> (Inl ''no such file'', w))),
      generate_presigned_url = (\<lambda>b key expiration w. (Inl ''not supported'', w)),
      download_file = (\<lambda>b key path w. (Inl ''not supported'', w)),
      file_exists = (\<lambda>b key w. (Inr (map_of (cli.more w) (b, key) \<noteq> None), w))\<rparr>"

definition bucket_objects :: "((string \<times> string) \<times> string) list \<Rightarrow> string \<Rightarrow> string \<Rightarrow> string option" where
  "bucket_objects l b key = map_of l (b, key)"

lemma upload_client_faithful: "faithful_s3 bucket_objects upload_client"
  unfolding faithful_s3_def upload_client_def
  by (auto simp: bucket_objects_def at_def split: option.splits node.splits)

definition tool_world :: bucket_cli where
  "tool_world = \<lparr>cwd = [], files = [([''app''], File ''binary'' 420)], mtimes = (\<lambda>_. None), faults = [],
     file_mode = 420, wall = 0, steady = 0, lags = [],
     stdin_lines = [''  reboot_device ''], screen = '''', prompts = '''', last_output = '''',
     replies = [Inr (200, ''{}'')], requests = [], \<dots> = []\<rparr>"

definition tool_env :: "json_lib \<Rightarrow> cli_env" where
  "tool_env L = \<lparr>env_json = L, program_folder = ''/opt'',
     argument_string = map_of [(''--control_plane_url'', ''http://plane''), (''--s3_bucket'', ''b''),
       (''--upload_file_list'', ''/app''), (''--target_group'', ''kiosk'')],
     argument_int = (\<lambda>_. None), argument_bool = (\<lambda>_. None), config_content = (\<lambda>_. None),
     level_none = 0, level_information = 3, level_packet = 6, config_answer = (\<lambda>_. OpenFailed)\<rparr>"

definition tool_platform :: "(string, bucket_cli) cli_platform" where
  "tool_platform = \<lparr>platform_digest = count_lib, platform_s3 = (\<lambda>credentials conf v. upload_client),
     platform_configuration = \<lparr>client_region = '''', endpoint_override = '''', verify_ssl = True\<rparr>,
     terminal = True, version_text = ''1.0'', usage_text = ''usage''\<rparr>"

section \<open>Confirmation\<close>

theorem destructive_needs_confirmation_witness:
  "\<exists>code w'. cli_main (tool_env demo_json) tool_platform [''command'', ''reboot_device''] tool_world = (code, w') \<and>
     requests w' \<noteq> [] \<and> trimmed (hd (stdin_lines tool_world)) = ''reboot_device'' \<and>
     confirm_token (cli_configurations (tool_env demo_json) ''yirang_deploy_configurations.json'') = ''''"
proof -
  let ?E = "tool_env demo_json"
  obtain code w' where m: "cli_main ?E tool_platform [''command'', ''reboot_device''] tool_world = (code, w')"
    by fastforce
  have "requests (snd (cli_main ?E tool_platform [''command'', ''reboot_device''] tool_world)) \<noteq> requests tool_world"
    by code_simp
  then have r: "requests w' \<noteq> requests tool_world" "requests tool_world = []" using m by (simp_all add: tool_world_def)
  have p: "positional_arguments [''command'', ''reboot_device''] = ''command'' # ''reboot_device'' # []"
    "is_destructive_command ''reboot_device''" by code_simp+
  have c: "confirm_token (cli_configurations ?E ''yirang_deploy_configurations.json'') = ''''" by code_simp
  then show ?thesis
    using destructive_needs_confirmation [OF m r(1) p] m r by (auto simp: tool_world_def)
qed

section \<open>Deployments\<close>

definition tool_config :: cli_config where
  "tool_config = cli_configurations (tool_env demo_json) ''yirang_deploy_configurations.json''"

lemma tool_config_fields:
  "control_plane_url tool_config = ''http://plane''" "cli_s3_bucket tool_config = ''b''"
  "upload_file_list tool_config = [''/app'']" "cli_target_group tool_config = ''kiosk''"
  by code_simp+

lemma tool_file:
  "faults tool_world = []" "lookup (files tool_world) (at tool_world ''/app'') = Some (File ''binary'' 420)"
  "requests tool_world = []" "wall tool_world = 0"
  by code_simp+

definition app_entry :: artifact_entry where
  "app_entry = \<lparr>install_path = ''app'', sha256 = to_hex (count_digest ''binary''), size_bytes = 6, source_path = ''/app''\<rparr>"

lemma tool_build:
  "build count_lib [''/app''] (make_release_id 0) 0 tool_world =
     (Inr \<lparr>manifest_release_id = make_release_id 0, created_at = iso_text (gmtime 0), artifacts = [app_entry]\<rparr>, tool_world)"
proof -
  have i: "make_release_id 0 \<noteq> ''''" "path_filename ''/app'' = ''app''" by code_simp+
  show ?thesis
    using i tool_file(2)
    by (simp add: build_def fs_exists_def fs_is_regular_file_def file_size_def take_fault_none [OF tool_file(1)]
        file_sha256_ok [OF evp_sha256_count tool_file(1,2)] app_entry_def Let_def)
qed

lemma tool_deploys:
  "\<exists>r w'. deploy (make_commands (tool_env L) tool_platform tool_config) tool_world = (r, w') \<and>
     requests w' \<noteq> [] \<and> cli.more w' = [((''b'', ''releases/'' @ make_release_id 0 @ ''/app''), ''binary'')]"
proof -
  let ?key = "''releases/'' @ make_release_id 0 @ ''/app''"
  have k: "make_object_key (make_release_id 0) ''app'' = Inr ?key" by code_simp
  have n: "no_nul ?key" "no_nul ''b''" "no_nul ''/app''" by code_simp+
  have up: "upload_file upload_client ''b'' ?key ''/app'' tool_world = (Inr (), tool_world\<lparr>cli.more := [((''b'', ?key), ''binary'')]\<rparr>)"
    using tool_file(2) by (simp add: upload_client_def) (simp add: tool_world_def)
  have s3: "s3_upload upload_client opts ?key ''/app'' tool_world = (Inr (), tool_world\<lparr>cli.more := [((''b'', ?key), ''binary'')]\<rparr>)"
    if "bucket opts = ''b''" for opts
    using that up n tool_file(2)
    by (simp add: s3_upload_def fs_is_regular_file_def take_fault_none [OF tool_file(1)])
  have b: "bucket (cli_store_options tool_config) = ''b''" by (simp add: cli_store_options_def tool_config_fields)
  have st: "upload (s3_artifact_store (\<lambda>credentials conf v. upload_client) conf (cli_store_options tool_config)) =
      s3_upload upload_client (cli_store_options tool_config)" for conf
    by (simp add: s3_artifact_store_def make_client_def Let_def)
  have u: "upload_entries (s3_artifact_store (\<lambda>credentials conf v. upload_client) conf (cli_store_options tool_config))
      (make_release_id 0) [app_entry] tool_world = (Inr (), tool_world\<lparr>cli.more := [((''b'', ?key), ''binary'')]\<rparr>)" for conf
    using k s3 [OF b] by (simp add: st app_entry_def)
  have t: "take_fault (tool_world\<lparr>cli.more := x\<rparr>) = (None, tool_world\<lparr>cli.more := x\<rparr>)" for x
    by (simp add: take_fault_none tool_world_def)
  have r: "cli_required_for_deploy tool_config = Inr ()"
    by (simp add: cli_required_for_deploy_def cli_required_def tool_config_fields)
  have q: "base_url (make_rest_client (control_plane_url tool_config) t s) \<noteq> ''''" for t s
    unfolding tool_config_fields by (simp add: make_rest_client_def trim_trailing_slash_def)
  let ?w = "tool_world\<lparr>cli.more := [((''b'', ?key), ''binary'')]\<rparr>"
  have post: "requests w3 \<noteq> [] \<and> cli.more w3 = [((''b'', ?key), ''binary'')]"
    if "rest_send C path body ?w = (response, w3)" "base_url C \<noteq> ''''" for C path body response w3
    using that t by (auto simp: rest_send_def Let_def split: sum.splits prod.splits)
  obtain r w' where d: "deploy (make_commands (tool_env L) tool_platform tool_config) tool_world = (r, w')" by fastforce
  then obtain C path body response w3 refusal title where e: "rest_send C path body ?w = (response, w3)" "base_url C \<noteq> ''''"
      "conclude (make_commands (tool_env L) tool_platform tool_config) refusal title response w3 = (r, w')"
    using r tool_build u q
    by (auto simp: deploy_def make_commands_def tool_platform_def tool_config_fields tool_file upload_release_def
        rest_post_def Let_def split: prod.splits)
  then show ?thesis using d post [OF e(1,2)] conclude_effect [OF e(3)] conclude_more [OF e(3)] by auto
qed


section \<open>The device\<close>

lemma demo_fetch_serves:
  assumes "no_nul path" "faults w = []" "\<forall>q. strict_prefix q (at w path) \<longrightarrow> lookup (files w) q = Some Directory"
    and "lookup (files w) (at w path) = None"
  shows "\<exists>w' m. s3_fetch (demo_client content) opts key path w = (Inr (), w') \<and> lookup (files w') (at w path) = Some (File content m)"
proof -
  have ne: "at w path \<noteq> []" using assms(4) by auto
  have "strict_prefix (butlast (at w path)) (at w path)"
    using ne by (metis append_butlast_last_id strict_prefixI' )
  then have "writable (files w) (at w path)" using assms(3,4) ne by (simp add: writable_def)
  then show ?thesis
    using assms(1,2) by (simp add: s3_fetch_def demo_client_def fs_write_def take_fault_none lookup_put_node ne)
qed

lemma demo_store_serves:
  assumes "\<And>key c. objs key = Some c \<Longrightarrow> c = content"
  shows "serves (demo_store content :: 'a machine_scheme artifact_store) objs"
proof -
  have "\<exists>w' m. s3_download (demo_client content) opts key path w = (Inr (), w') \<and>
      lookup (files w') (at w path) = Some (File content m)"
    if "bucket opts \<noteq> ''''" "no_nul path" "plain_name (path_filename path)" "faults w = []"
      "\<forall>q. strict_prefix q (at w path) \<longrightarrow> lookup (files w) q = Some Directory" "lookup (files w) (at w path) = None"
    for opts key path and w :: "'a machine_scheme"
  proof (cases "parent_path path = ''''")
    case True
    then show ?thesis using demo_fetch_serves [OF that(2,4-6)] that(1) by (simp add: s3_download_def Let_def)
  next
    case False
    let ?d = "at w (parent_path path)" let ?w = "w\<lparr>files := make_dirs ?d (files w)\<rparr>"
    have p: "at w path = ?d @ [path_filename path]" using locate_in_parent [OF that(3) False] by (simp add: at_def)
    have dirs: "lookup (files w) q = Some Directory" if "prefix q ?d" for q
    proof -
      have "strict_prefix q (?d @ [path_filename path])"
        using that prefix_length_le [OF that] by (auto simp: strict_prefix_def)
      then show ?thesis
        using \<open>\<forall>q. strict_prefix q (at w path) \<longrightarrow> lookup (files w) q = Some Directory\<close> p by metis
    qed
    then have "\<not> dirs_blocked (files w) ?d" by (auto simp: dirs_blocked_def take_is_prefix)
    then have c: "fs_create_directories ?d w = (Inr (), ?w)"
      using that(4) by (simp add: fs_create_directories_def take_fault_none)
    have a: "at ?w path = at w path" by (simp add: at_def)
    have same: "lookup (files ?w) q = lookup (files w) q" for q
      using dirs [of q] by (auto simp: lookup_make_dirs)
    have "\<exists>w' m. s3_fetch (demo_client content) opts key path ?w = (Inr (), w') \<and>
        lookup (files w') (at ?w path) = Some (File content m)"
    proof (rule demo_fetch_serves [OF that(2)])
      show "faults ?w = []" using that(4) by simp
      show "\<forall>q. strict_prefix q (at ?w path) \<longrightarrow> lookup (files ?w) q = Some Directory"
        unfolding a same by (rule that(5))
      show "lookup (files ?w) (at ?w path) = None" unfolding a same by (rule that(6))
    qed
    then show ?thesis using c False that(1) a by (simp add: s3_download_def Let_def)
  qed
  note served = this
  have "download (demo_store content :: 'a machine_scheme artifact_store) = s3_download (demo_client content) (default_store_options\<lparr>bucket := ''b''\<rparr>)"
    by (simp add: demo_store_def s3_artifact_store_def make_client_def Let_def)
  then have d: "download (demo_store content) key path w = s3_download (demo_client content) (default_store_options\<lparr>bucket := ''b''\<rparr>) key path w"
    for key path and w :: "'a machine_scheme" by simp
  show ?thesis
    unfolding serves_def
  proof (intro allI impI)
    fix key c path
    fix w :: "'a machine_scheme"
    assume k: "objs key = Some c" and w: "no_nul path" "plain_name (path_filename path)" "faults w = []"
      "\<forall>q. strict_prefix q (at w path) \<longrightarrow> lookup (files w) q = Some Directory" "lookup (files w) (at w path) = None"
    have "bucket (default_store_options\<lparr>bucket := ''b''\<rparr>) \<noteq> ''''" by simp
    from served [OF this w] show "\<exists>w' m. download (demo_store content) key path w = (Inr (), w') \<and>
        lookup (files w') (at w path) = Some (File c m)"
      unfolding d assms [OF k] .
  qed
qed

lemma demo_store_keeps_trees: "keeps_trees (demo_store content)"
proof -
  have fetch: "wf_tree (files (snd (s3_fetch (demo_client content) opts key path w)))" if "wf_tree (files w)"
    for opts key path and w :: "'a machine_scheme"
  proof -
    obtain r w' where c: "fs_write (at w (c_str path)) content w = (r, w')" by fastforce
    have "wf_tree (files w')" using step_in_wf [OF write_step [OF c] that] .
    then show ?thesis using c by (cases r) (simp_all add: s3_fetch_def demo_client_def)
  qed
  have "wf_tree (files (snd (s3_download (demo_client content) opts key path w)))" if "wf_tree (files w)"
    for opts key path and w :: "'a machine_scheme"
  proof -
    obtain r w' where c: "fs_create_directories (at w (parent_path path)) w = (r, w')" by fastforce
    have "wf_tree (files w')" using step_in_wf [OF create_directories_step [OF c] that] .
    then show ?thesis using c that fetch by (cases r) (simp_all add: s3_download_def Let_def)
  qed
  then show ?thesis by (simp add: keeps_trees_def demo_store_def s3_artifact_store_def make_client_def Let_def)
qed

section \<open>What is deployed arrives\<close>

definition tool_request :: json_object where
  "tool_request = [(''release_id'', JString (make_release_id 0)), (''group'', JString ''kiosk''),
     (''artifacts'', JArray [canon (entry_json app_entry)])]"

text \<open>A control plane that passes on the whole request, whatever the text of the message.\<close>

definition relay_json :: json_lib where
  "relay_json = \<lparr>parse_text = (\<lambda>s. Inr (JObject tool_request)), serialize_value = (\<lambda>v. ''doc''), values_equal = (=)\<rparr>"

lemma tool_request_relayed: "relayed tool_request tool_request"
  by (simp add: relayed_def tool_request_def string_field_def array_field_def same_artifact_def entry_json_def)

lemma tool_request_sent:
  assumes "deploy (make_commands (tool_env unary_json) tool_platform tool_config) tool_world = (r, w')"
    and "requests w' \<noteq> requests tool_world"
  shows "\<exists>body. rest_body (last (requests w')) = Some body \<and> parse_text unary_json body = Inr (JObject tool_request)"
proof -
  have p: "evp_sha256 (platform_digest tool_platform) count_digest" "faithful_s3 bucket_objects (platform_s3 tool_platform x y z)"
    "no_nul (cli_s3_bucket tool_config)" "\<forall>s \<in> set (upload_file_list tool_config). no_nul s" for x y z
    by (simp_all add: tool_platform_def evp_sha256_count upload_client_faithful tool_config_fields no_nul_def)
  obtain m :: manifest where m: "requests w' = requests tool_world @
      [make_request (make_rest_client (control_plane_url tool_config) (api_token tool_config) (request_timeout_seconds tool_config))
        ''/api/v1/deployments'' (Some (serialize_value unary_json (deploy_request tool_config m)))]"
    "map source_path (artifacts m) = [''/app'']" "map install_path (artifacts m) = [path_filename ''/app'']"
    "manifest_release_id m = make_release_id 0"
    "\<forall>e \<in> set (artifacts m). stored_entry (bucket_objects (cli.more w')) ''b'' count_digest tool_world (make_release_id 0) e"
    using deploy_sends [OF assms p(1,2) tool_file(1) p(3,4)] by (auto simp: tool_config_fields tool_file(4) tool_env_def)
  have n: "path_filename ''/app'' = ''app''" by code_simp
  obtain e where e: "artifacts m = [e]" "source_path e = ''/app''" "install_path e = ''app''"
    using m(2,3) n by auto
  have "sha256 e = to_hex (count_digest ''binary'') \<and> size_bytes e = 6"
    using m(5) e tool_file(2) by (auto simp: stored_entry_def)
  then have app: "artifacts m = [app_entry]" using e by (simp add: app_entry_def)
  have "plain_text (make_release_id 0)" "plain_text ''kiosk''" "plain_text ''app''" by code_simp+
  moreover have "is_sha256_hex (sha256 app_entry)" "install_path app_entry = ''app''"
    by (simp_all add: app_entry_def to_hex_sha256 count_digest_def)
  ultimately have "parse_text unary_json (serialize_value unary_json (deploy_request tool_config m)) = Inr (JObject tool_request)"
    using deploy_request_parses [OF boost_json_unary, of m tool_config] m(4) app
    by (simp add: tool_config_fields tool_request_def)
  then show ?thesis using m(1) by (simp add: make_request_def)
qed

theorem deployed_release_arrives_witness:
  "\<exists>a' d1 d2 n. download_version ((demo_parts ''binary'')\<lparr>agent_json := relay_json\<rparr>) ''payload'' new_agent versions_device =
       (Inr (), a', d1) \<and>
     install served_options ''rel_19700101_000000'' ''/versions/rel_19700101_000000'' d1 = (Inr (), d2) \<and>
     lookup (files d2) [''srv'', ''releases'', ''rel_19700101_000000'', ''app''] = Some (File ''binary'' n)"
proof -
  let ?P = "(demo_parts ''binary'' :: (string, engine) agent_parts)\<lparr>agent_json := relay_json\<rparr>"
  let ?T = "[''versions'', ''rel_19700101_000000'']" and ?R = "[''srv'', ''releases'']"
  obtain r w' where d: "deploy (make_commands (tool_env unary_json) tool_platform tool_config) tool_world = (r, w')"
    "requests w' \<noteq> requests tool_world" "cli.more w' = [((''b'', ''releases/'' @ make_release_id 0 @ ''/app''), ''binary'')]"
    using tool_deploys [of unary_json] unfolding tool_file(3) by blast
  obtain body where body: "rest_body (last (requests w')) = Some body"
    "parse_text (env_json (tool_env unary_json)) body = Inr (JObject tool_request)"
    using tool_request_sent [OF d(1,2)] by (auto simp: tool_env_def)
  have p: "evp_sha256 (platform_digest tool_platform) count_digest" "faithful_s3 bucket_objects (platform_s3 tool_platform x y z)"
    "no_nul (cli_s3_bucket tool_config)" "boost_json (env_json (tool_env unary_json))" for x y z
    by (simp_all add: tool_platform_def evp_sha256_count upload_client_faithful tool_config_fields no_nul_def
        tool_env_def boost_json_unary)
  have "plain_text ''/app''" "plain_name (path_filename ''/app'')" by code_simp+
  then have plain: "plain_text (cli_target_group tool_config)" "length (upload_file_list tool_config) < 2 ^ 32"
    "\<forall>s \<in> set (upload_file_list tool_config). plain_text s \<and> plain_name (path_filename s)"
    unfolding tool_config_fields by simp_all
  have pay: "payload_object (agent_json ?P) ''payload'' = Inr tool_request" by (simp add: payload_object_def relay_json_def)
  have sv: "serves (demo_store ''binary'' :: engine artifact_store) (bucket_objects (cli.more w') (cli_s3_bucket tool_config))"
    by (rule demo_store_serves) (simp add: d(3) bucket_objects_def split: if_splits)
  have id: "make_release_id (wall tool_world) = ''rel_19700101_000000''" unfolding tool_file(4) by code_simp
  have v: "version_directory (agent_opts ?P) ''rel_19700101_000000'' = ''/versions/rel_19700101_000000''"
    by (simp add: demo_parts_def) code_simp
  have T: "at versions_device ''/versions/rel_19700101_000000'' = ?T" "releases_at versions_device served_options = ?R"
    by code_simp+
  have blocked: "\<not> dirs_blocked (files versions_device) ?T" "\<not> dirs_blocked (files versions_device) ?R" by code_simp+
  have empty: "\<forall>q. strict_prefix ?T q \<longrightarrow> lookup (files versions_device) q = None"
  proof (intro allI impI)
    fix q
    assume "strict_prefix ?T q"
    then have "q \<noteq> []" "\<forall>k \<in> set (map fst (files versions_device)). q \<noteq> k"
      by (auto simp: versions_device_def strict_prefix_def)
    then show "lookup (files versions_device) q = None"
      by (auto simp: lookup_def map_of_eq_None_iff)
  qed
  have "device_ready ?P (demo_store ''binary'') served_options ''rel_19700101_000000'' versions_device"
    unfolding device_ready_def Let_def v T
    using empty blocked demo_store_lawful demo_store_keeps_trees demo_preconditions(4) versions_tree(1)
    by (auto simp: demo_parts_def demo_options_def served_options_def no_nul_def)
  note ready = this [folded id]
  have dig: "evp_sha256 (agent_digest ?P) count_digest" by (simp add: demo_parts_def evp_sha256_count)
  from deployed_release_arrives [OF d(1,2) p(1,2) tool_file(1) p(3,4) plain(1,3) body pay tool_request_relayed
      ready sv dig plain(2), of new_agent]
  obtain a' d1 d2 content m n where "download_version ?P ''payload'' new_agent versions_device = (Inr (), a', d1)"
    "install served_options ''rel_19700101_000000'' ''/versions/rel_19700101_000000'' d1 = (Inr (), d2)"
    "lookup (files tool_world) (at tool_world ''/app'') = Some (File content m)"
    "lookup (files d2) (?R @ [''rel_19700101_000000'', path_filename ''/app'']) = Some (File content n)"
    unfolding tool_config_fields id v T by auto
  moreover have "path_filename ''/app'' = ''app''" by code_simp
  ultimately show ?thesis using tool_file(2) by auto
qed

end
