(* ===== verification/Spec2Isabelle.thy ===== *)
theory Spec2Isabelle
  imports ProperNames ActivationSpec CliExamples
begin

text \<open>
  Yirang Rollout: a verification development of the C++ programs of the repository.

  \<^bold>\<open>The program.\<close> Yirang deploys releases to devices. The tool \<open>yirang\<close> (\<open>src/DeployCLI\<close>) uploads the
  files of a release to an object store and announces them to a control plane, which puts a message
  into a queue for every device. The agent on the device (\<open>src/YirangAgent\<close>) takes one message at a
  time, downloads and verifies the release, installs it, switches the running service over to it,
  waits until it is healthy and rolls back when it is not. The library both share is
  \<open>src/RolloutKit\<close>.

  \<^bold>\<open>The world.\<close> \<open>Machine\<close> models the file system the programs see: a tree of files, directories and
  links, a working directory, the two clocks, and a plan of faults, the outcome of the next calls
  that can fail (a torn write included). A crash is the plan in which every call from some point on
  fails, so what holds of the disk whatever fails holds of crashes. Every call of \<open>std::filesystem\<close> or a file stream is one
  definition there. \<open>Processes\<close> extends it by the process table, pids that are reused, signals,
  \<open>waitpid\<close> and \<open>/proc\<close>; \<open>Deployment\<close> by the handle the engine holds; \<open>Console\<close> by the terminal and
  the log of requests of the tool. A state is passed explicitly; an operation that can fail returns
  \<open>expected\<close>, a sum of an error text and a value, as the code does with \<open>std::expected\<close>.

  \<^bold>\<open>Theories and what they model.\<close>
  \<^item> \<open>Prelude\<close>, \<open>Paths\<close>, \<open>PathFacts\<close>, \<open>MachineFacts\<close>: strings, \<open>std::filesystem::path\<close>, what each
    call of the file system leaves unchanged, well-formed trees.
  \<^item> \<open>Json\<close>: values of \<open>boost::json\<close>; the library is a parameter with the law \<open>boost_json\<close>.
  \<^item> \<open>ArtifactKey\<close>, \<open>ReleaseManifest\<close>, \<open>ArtifactStore\<close>: \<open>RolloutKit/Artifact\<close>, \<open>RolloutKit/Release\<close>.
  \<^item> \<open>ReleaseInstaller\<close> with \<open>InstallerFacts\<close>, \<open>InstallFacts\<close>, \<open>InstallCopy\<close>, \<open>PruneFacts\<close>,
    \<open>ProperNames\<close>, \<open>ActivationSpec\<close>: \<open>RolloutKit/Install\<close>.
  \<^item> \<open>Supervisor\<close> with \<open>SupervisorFacts\<close>, \<open>ChildFacts\<close>, \<open>SupervisorContract\<close>, \<open>SupervisorExamples\<close>,
    and \<open>SystemControl\<close>: \<open>RolloutKit/Process\<close>.
  \<^item> \<open>Health\<close>, \<open>HealthFacts\<close>: \<open>RolloutKit/Health\<close>.
  \<^item> \<open>Deployment\<close> with \<open>DeploymentFacts\<close>, \<open>EngineProcesses\<close>, \<open>EngineDisk\<close>, \<open>EngineRecovery\<close>,
    \<open>EngineExamples\<close>: \<open>RolloutKit/Deploy\<close>.
  \<^item> \<open>Messaging\<close>: \<open>RolloutKit/Messaging\<close>.
  \<^item> \<open>AgentMessage\<close>, \<open>AgentService\<close>, \<open>AgentConfig\<close>, \<open>AgentMain\<close> with \<open>AgentFacts\<close>, \<open>DownloadFacts\<close>,
    \<open>AgentDisk\<close>, \<open>AgentProcesses\<close>, \<open>AgentExamples\<close>: \<open>YirangAgent\<close>.
  \<^item> \<open>CliConfig\<close>, \<open>Console\<close> (\<open>Confirmation.cpp\<close>, \<open>RestClient.cpp\<close>), \<open>Commands\<close>, \<open>CliMain\<close> with
    \<open>CliFacts\<close>, \<open>CliExamples\<close>: \<open>DeployCLI\<close>.
  \<^item> \<open>EndToEnd\<close>: both programs together.

  \<^bold>\<open>Interfaces.\<close> The abstract class \<open>IProcessSupervisor\<close> is the locale \<open>process_supervisor\<close>: what its
  four operations promise about the processes a client holds. \<open>SupervisorContract\<close> interprets it on
  the model of \<open>PosixProcessSupervisor\<close>; \<open>EngineProcesses\<close> extends it to \<open>engine_client\<close>, proves the
  engine's part once for every such supervisor and interprets that on the engine the agent builds;
  \<open>HealthFacts\<close> does the same for probes (\<open>health_probe\<close>). The contract of an artifact store is
  \<open>lawful_store\<close>, which \<open>S3ArtifactStore\<close> keeps when the SDK's client does.

  \<^bold>\<open>What is shown.\<close>
  \<^item> Processes: whatever fails, the agent has at most one child and the engine holds its handle (an
    instance left by an earlier agent is no child; \<open>adopt_error_orphans\<close> shows how one can be lost);
    a stop that reports success has stopped; a reused pid is recognised on the way in and on adoption.
  \<^item> Disk: activation, the runtime record and configuration updates are atomic under torn writes;
    a failing install keeps the old release; prune keeps what \<open>state.json\<close> names, if reading that
    does not fail (\<open>prune_forgets_active\<close> shows what happens when it does), and the newest others;
    downloads stay in their directory, are verified, and are discarded when they fail.
  \<^item> Recovery: a failed apply restores the old release, unless the stop of the new one failed; a
    restarted agent adopts only the recorded instance.
  \<^item> Refinement: the installer behaves as an abstract machine of two names.
  \<^item> Liveness and termination: a message is consumed after at most five attempts; every message is
    handled and the agent ends. The one loop without a structural measure, waiting for readiness, is
    a \<open>partial_function\<close> into \<open>option\<close>; \<open>agent_returns\<close> shows that it returns, since every round lets
    time pass and the deadline is fixed. The other loops are functions with a measure; no fuel is used.
  \<^item> The tool: destructive commands are sent only when confirmed; a deployment is announced only when
    its files are stored; and what was deployed is what a device downloads.
  \<^item> Formats: manifests, messages and runtime records survive writing and reading; keys and release
    ids are safe path components; the digest is that of the whole content.

  \<^bold>\<open>Parameters.\<close> Code that is not in the repository is an argument of the definitions that use it: the
  JSON parser, OpenSSL's digest, libcurl, the AWS clients for S3 and SQS, the argument parser. What
  the code relies on is a named hypothesis (\<open>boost_json\<close>, \<open>evp_sha256\<close>, \<open>quiet_curl\<close>,
  \<open>lawful_s3_client\<close>, \<open>faithful_s3\<close>, \<open>serves\<close>, \<open>ambient_platform\<close>), each with an instance that
  satisfies it in the examples.

  \<^bold>\<open>Not modelled.\<close> The control plane \<open>src/RestAPI\<close> is written in Go; \<open>relayed\<close> says what of a request
  it passes on. Left out of the modelled files are: log lines and the logger, the usage and version
  texts, lists of command names that only feed messages, signal handlers, the macOS branch of the
  process identity, mutexes (each object is used by one thread at a time here), the exception of an
  increment of a directory iterator in \<open>sweep_retired\<close>, a trailing slash on a path that names a file,
  symbolic links as intermediate directories, and the display width of non-ASCII text in tables.
  Simplified are: a blocking \<open>waitpid\<close> returns in the end, also for the child of a failed \<open>exec\<close>,
  whose error the code ignores (there it could leave a zombie); \<open>kill (-pid)\<close> reaches the process
  with this pid, so that a pid that leads no process group, and a group whose leader has gone, are not
  told apart from it; \<open>std::locale ("")\<close> does not throw while the agent's configuration is read; the
  time stamp in the name of a second retired directory is the clock's milliseconds; \<open>exists\<close> on a
  dangling symbolic link and a \<open>create_directories\<close> that fails half way are left out; \<open>std::sort\<close>
  orders releases written at the same time as the directory lists them; and the counters of the
  health check do not overflow.
\<close>

end
